(* ===== verification/Hsm_Prelude.thy ===== *)
theory Hsm_Prelude
  imports Main "HOL-Library.Word"
begin

unbundle bit_operations_syntax

text \<open>
  Shared vocabulary of the development: the machine integers of the Rust sources, the
  result-and-state computations that model \<open>&mut self\<close> methods returning
  \<open>Result\<close>, little-endian serialisation, slices of byte arrays, and two interfaces
  that several components implement (byte enumerations and invariants of transition
  systems). A Rust array \<open>[u8; N]\<close> is a \<open>u8 list\<close>; where its length matters a
  lemma says so.
\<close>

section \<open>Machine integers and bytes\<close>

type_synonym u8 = "8 word"
type_synonym u16 = "16 word"
type_synonym u32 = "32 word"
type_synonym u64 = "64 word"
type_synonym bytes = "u8 list"

named_theorems act_simps \<open>unfolding and evaluation of result-and-state computations\<close>
named_theorems frame_simps \<open>what an operation leaves unchanged\<close>
named_theorems le_simps \<open>little-endian serialisation\<close>

text \<open>The slice \<open>xs[a..b]\<close>; the sources only use it with \<open>a \<le> b \<le> xs.len()\<close>.\<close>

definition slice :: "'a list \<Rightarrow> nat \<Rightarrow> nat \<Rightarrow> 'a list" where
  "slice xs a b = take (b - a) (drop a xs)"

lemma length_slice [simp]: "length (slice xs a b) = min (b - a) (length xs - a)"
  by (simp add: slice_def)

lemma nth_slice [simp]: "i < b - a \<Longrightarrow> a + i < length xs \<Longrightarrow> slice xs a b ! i = xs ! (a + i)"
  by (simp add: slice_def)

lemma slice_append_right [simp]:
  "length xs = a \<Longrightarrow> slice (xs @ ys) a (a + n) = take n ys"
  by (simp add: slice_def)

text \<open>\<open>dst[a..a + src.len()].copy_from_slice(src)\<close> on an array that is long enough.\<close>

definition copy_at :: "'a list \<Rightarrow> nat \<Rightarrow> 'a list \<Rightarrow> 'a list" where
  "copy_at dst a src = take a dst @ src @ drop (a + length src) dst"

lemma length_copy_at [simp]:
  "a + length src \<le> length dst \<Longrightarrow> length (copy_at dst a src) = length dst"
  by (simp add: copy_at_def)

lemma list_split_last_two:
  assumes "3 \<le> length xs"
  obtains p a b where "xs = p @ [a, b]"
proof (cases xs rule: rev_cases)
  case (snoc ys b)
  with assms have "ys \<noteq> []" by auto
  then obtain p a where "ys = p @ [a]" by (cases ys rule: rev_cases) auto
  with snoc that show thesis by simp
qed (use assms in auto)

subsection \<open>Little-endian serialisation\<close>

definition u16_to_le_bytes :: "u16 \<Rightarrow> bytes" where
  "u16_to_le_bytes w = [ucast w, ucast (drop_bit 8 w)]"

definition u16_from_le_bytes :: "u8 \<Rightarrow> u8 \<Rightarrow> u16" where
  "u16_from_le_bytes lo hi = ucast lo OR push_bit 8 (ucast hi)"

definition u32_to_le_bytes :: "u32 \<Rightarrow> bytes" where
  "u32_to_le_bytes w =
     [ucast w, ucast (drop_bit 8 w), ucast (drop_bit 16 w), ucast (drop_bit 24 w)]"

definition u32_from_le_bytes :: "bytes \<Rightarrow> u32" where
  "u32_from_le_bytes bs =
     ucast (bs ! 0) OR push_bit 8 (ucast (bs ! 1)) OR push_bit 16 (ucast (bs ! 2))
       OR push_bit 24 (ucast (bs ! 3))"

lemma length_to_le_bytes [simp]:
  "length (u16_to_le_bytes w) = 2" "length (u32_to_le_bytes v) = 4"
  by (simp_all add: u16_to_le_bytes_def u32_to_le_bytes_def)

lemma u16_from_to_le [le_simps]:
  "u16_from_le_bytes (ucast w) (ucast (drop_bit 8 w)) = w"
  by (rule bit_word_eqI) (auto simp: u16_from_le_bytes_def bit_simps)

lemma u16_to_from_le [le_simps]:
  "u16_to_le_bytes (u16_from_le_bytes lo hi) = [lo, hi]"
proof -
  have "ucast (u16_from_le_bytes lo hi) = lo"
    by (rule bit_word_eqI) (auto simp: u16_from_le_bytes_def bit_simps)
  moreover have "ucast (drop_bit 8 (u16_from_le_bytes lo hi)) = hi"
    by (rule bit_word_eqI)
      (auto simp: u16_from_le_bytes_def bit_simps dest: bit_imp_le_length)
  ultimately show ?thesis by (simp add: u16_to_le_bytes_def)
qed

lemma u16_le_nth [le_simps]:
  "u16_from_le_bytes (u16_to_le_bytes w ! 0) (u16_to_le_bytes w ! Suc 0) = w"
  by (simp add: u16_to_le_bytes_def u16_from_to_le)

lemma u16_from_le_inject:
  "u16_from_le_bytes a b = u16_from_le_bytes c d \<longleftrightarrow> a = c \<and> b = d"
  by (metis u16_to_from_le list.inject)

lemma u32_from_to_le [le_simps]: "u32_from_le_bytes (u32_to_le_bytes w) = w"
proof (rule bit_word_eqI)
  fix n assume "n < LENGTH(32)"
  then consider "n < 8" | "8 \<le> n" "n < 16" | "16 \<le> n" "n < 24" | "24 \<le> n" "n < 32"
    by fastforce
  then show "bit (u32_from_le_bytes (u32_to_le_bytes w)) n = bit w n"
    by cases (auto simp: u32_from_le_bytes_def u32_to_le_bytes_def bit_simps)
qed

text \<open>A length that fits in a byte, the model of \<open>u8::try_from\<close> and \<open>as usize\<close>.\<close>

definition u8_try_from :: "nat \<Rightarrow> u8 option" where
  "u8_try_from n = (if n < 256 then Some (of_nat n) else None)"

lemma unat_of_nat_u8 [simp]: "n < 256 \<Longrightarrow> unat (of_nat n :: u8) = n"
  by (simp add: unat_of_nat take_bit_nat_eq_self)

lemma unat_u8_less: "unat (w :: u8) < 256"
  using unsigned_less [of w] by simp

lemma unat_of_nat_u16 [simp]: "n < 65536 \<Longrightarrow> unat (of_nat n :: u16) = n"
  by (simp add: unat_of_nat take_bit_nat_eq_self)

section \<open>Result-and-state computations\<close>

text \<open>
  An \<open>async fn\<close> of a generic struct that returns \<open>Result<T, E>\<close> becomes a function
  from the state to a result and the state afterwards. The state survives an error, as
  the mutations made before a \<open>?\<close> do in Rust. \<open>and_then m f\<close> is \<open>f(m?)\<close>.
\<close>

type_synonym ('s, 'e, 'a) act = "'s \<Rightarrow> ('e + 'a) \<times> 's"

definition return_ok :: "'a \<Rightarrow> ('s, 'e, 'a) act" where
  "return_ok a s = (Inr a, s)"

definition return_err :: "'e \<Rightarrow> ('s, 'e, 'a) act" where
  "return_err e s = (Inl e, s)"

definition and_then :: "('s, 'e, 'a) act \<Rightarrow> ('a \<Rightarrow> ('s, 'e, 'b) act) \<Rightarrow> ('s, 'e, 'b) act" where
  "and_then m f s = (case m s of (Inl e, s') \<Rightarrow> (Inl e, s') | (Inr a, s') \<Rightarrow> f a s')"

text \<open>\<open>let r = m.await;\<close> without the \<open>?\<close>: the result becomes a value.\<close>

definition attempt :: "('s, 'e, 'a) act \<Rightarrow> ('s, 'f, 'e + 'a) act" where
  "attempt m s = (case m s of (r, s') \<Rightarrow> (Inr r, s'))"

definition of_result :: "'e + 'a \<Rightarrow> ('s, 'e, 'a) act" where
  "of_result r s = (r, s)"

definition map_err :: "('e \<Rightarrow> 'f) \<Rightarrow> ('s, 'e, 'a) act \<Rightarrow> ('s, 'f, 'a) act" where
  "map_err g m s = (case m s of (Inl e, s') \<Rightarrow> (Inl (g e), s') | (Inr a, s') \<Rightarrow> (Inr a, s'))"

definition gets :: "('s \<Rightarrow> 'a) \<Rightarrow> ('s, 'e, 'a) act" where
  "gets f s = (Inr (f s), s)"

definition modify :: "('s \<Rightarrow> 's) \<Rightarrow> ('s, 'e, unit) act" where
  "modify f s = (Inr (), f s)"

lemmas act_defs = return_ok_def return_err_def and_then_def attempt_def of_result_def map_err_def
  gets_def modify_def

declare return_ok_def [act_simps] return_err_def [act_simps] of_result_def [act_simps]
  gets_def [act_simps] modify_def [act_simps]

lemma and_then_Inr [act_simps]: "m s = (Inr a, s') \<Longrightarrow> and_then m f s = f a s'"
  by (simp add: and_then_def)

lemma and_then_Inl [act_simps]: "m s = (Inl e, s') \<Longrightarrow> and_then m f s = (Inl e, s')"
  by (simp add: and_then_def)

lemma and_then_eq_Inr:
  "and_then m f s = (Inr b, t) \<longleftrightarrow> (\<exists>a s'. m s = (Inr a, s') \<and> f a s' = (Inr b, t))"
  by (auto simp: and_then_def split: prod.splits sum.splits)

lemma and_then_eq_Inl:
  "and_then m f s = (Inl e, t) \<longleftrightarrow>
     m s = (Inl e, t) \<or> (\<exists>a s'. m s = (Inr a, s') \<and> f a s' = (Inl e, t))"
  by (auto simp: and_then_def split: prod.splits sum.splits)

lemma map_err_eq_Inr [act_simps]: "map_err g m s = (Inr a, t) \<longleftrightarrow> m s = (Inr a, t)"
  by (auto simp: map_err_def split: prod.splits sum.splits)

lemma attempt_eq_Inr [act_simps]: "attempt m s = (Inr r, t) \<longleftrightarrow> m s = (r, t)"
  by (auto simp: attempt_def split: prod.splits)

lemma and_then_assoc:
  "and_then (and_then m f) g = and_then m (\<lambda>a. and_then (f a) g)"
  by (rule ext) (auto simp: and_then_def split: prod.splits sum.splits)

lemma and_then_of_result [act_simps]:
  "and_then (of_result r) f = (case r of Inl e \<Rightarrow> return_err e | Inr a \<Rightarrow> f a)"
  by (rule ext) (simp add: act_defs split: sum.splits)

lemma map_err_of_result [act_simps]: "map_err g (of_result r) = of_result (map_sum g id r)"
  by (rule ext) (cases r; simp add: act_defs)

lemma map_err_eq_Inl:
  "map_err g m s = (Inl e, t) \<longleftrightarrow> (\<exists>e'. m s = (Inl e', t) \<and> e = g e')"
  by (auto simp: map_err_def split: prod.splits sum.splits)

text \<open>
  Observations that a computation leaves alone. \<open>keeps p m\<close>: whatever the outcome,
  \<open>p\<close> of the state is the same before and after.
\<close>

definition keeps :: "('s \<Rightarrow> 'v) \<Rightarrow> ('s, 'e, 'a) act \<Rightarrow> bool" where
  "keeps p m \<longleftrightarrow> (\<forall>s. p (snd (m s)) = p s)"

lemma keepsI: "(\<And>s. p (snd (m s)) = p s) \<Longrightarrow> keeps p m"
  by (simp add: keeps_def)

lemma keepsD: "keeps p m \<Longrightarrow> p (snd (m s)) = p s"
  by (simp add: keeps_def)

lemma keepsE: "keeps p m \<Longrightarrow> m s = (r, t) \<Longrightarrow> p t = p s"
  by (metis keeps_def snd_conv)

lemma keeps_ok [intro, frame_simps]: "keeps p (return_ok a)"
  and keeps_err [intro, frame_simps]: "keeps p (return_err e)"
  and keeps_of_result [intro, frame_simps]: "keeps p (of_result r)"
  and keeps_gets [intro, frame_simps]: "keeps p (gets f)"
  by (simp_all add: keeps_def act_defs)

lemma keeps_and_then [intro]:
  "keeps p m \<Longrightarrow> (\<And>a. keeps p (f a)) \<Longrightarrow> keeps p (and_then m f)"
  by (auto simp: keeps_def and_then_def split: prod.splits sum.splits) (metis snd_conv)+

lemma keeps_attempt [intro]: "keeps p m \<Longrightarrow> keeps p (attempt m)"
  by (auto simp: keeps_def attempt_def split: prod.splits) (metis snd_conv)

lemma keeps_map_err [intro]: "keeps p m \<Longrightarrow> keeps p (map_err g m)"
  by (auto simp: keeps_def map_err_def split: prod.splits sum.splits) (metis snd_conv)+

lemma keeps_modify [intro]: "(\<And>s. p (f s) = p s) \<Longrightarrow> keeps p (modify f)"
  by (simp add: keeps_def modify_def)

lemma keeps_if [intro]: "keeps p m \<Longrightarrow> keeps p n \<Longrightarrow> keeps p (if b then m else n)"
  by simp

lemma keeps_case_sum [intro]:
  "(\<And>e. keeps p (f e)) \<Longrightarrow> (\<And>a. keeps p (g a)) \<Longrightarrow>
     keeps p (case r of Inl e \<Rightarrow> f e | Inr a \<Rightarrow> g a)"
  by (cases r) auto

lemma keeps_case_option [intro]:
  "keeps p m \<Longrightarrow> (\<And>a. keeps p (f a)) \<Longrightarrow> keeps p (case x of None \<Rightarrow> m | Some a \<Rightarrow> f a)"
  by (cases x) auto

lemma keeps_case_prod [intro]:
  "(\<And>a b. keeps p (f a b)) \<Longrightarrow> keeps p (case x of (a, b) \<Rightarrow> f a b)"
  by (cases x) auto

text \<open>
  What a computation adds to a log kept in the state. \<open>emits lg P m\<close>: whatever the
  outcome, the log \<open>lg\<close> only grows, and every entry added satisfies \<open>P\<close>.
\<close>

definition emits :: "('s \<Rightarrow> 'x list) \<Rightarrow> ('x \<Rightarrow> bool) \<Rightarrow> ('s, 'e, 'a) act \<Rightarrow> bool" where
  "emits lg P m \<longleftrightarrow> (\<forall>s. \<exists>xs. lg (snd (m s)) = lg s @ xs \<and> list_all P xs)"

lemma emitsD:
  assumes "emits lg P m" and "m s = (r, t)"
  obtains xs where "lg t = lg s @ xs" "list_all P xs"
  using assms by (metis emits_def snd_conv)

lemma emits_keeps: "keeps lg m \<Longrightarrow> emits lg P m"
  by (force simp: emits_def keeps_def)

lemma emits_mono: "emits lg P m \<Longrightarrow> (\<And>x. P x \<Longrightarrow> Q x) \<Longrightarrow> emits lg Q m"
  unfolding emits_def list_all_iff by metis

lemma emits_pure [intro]:
  "emits lg P (return_ok a)" "emits lg P (return_err e)" "emits lg P (of_result r)"
  "emits lg P (gets f)"
  by (intro emits_keeps keeps_ok keeps_err keeps_of_result keeps_gets)+

lemma emits_and_then [intro]:
  assumes "emits lg P m" and "\<And>a. emits lg P (f a)"
  shows "emits lg P (and_then m f)"
  unfolding emits_def
proof
  fix s
  obtain r t where m: "m s = (r, t)" by fastforce
  from assms(1) m obtain xs where xs: "lg t = lg s @ xs" "list_all P xs" by (rule emitsD)
  show "\<exists>ys. lg (snd (and_then m f s)) = lg s @ ys \<and> list_all P ys"
  proof (cases r)
    case (Inl e)
    with m xs show ?thesis by (auto simp: and_then_def)
  next
    case (Inr a)
    obtain r' t' where fa: "f a t = (r', t')" by fastforce
    from assms(2) fa obtain ys where "lg t' = lg t @ ys" "list_all P ys" by (rule emitsD)
    with m xs Inr fa show ?thesis by (intro exI [of _ "xs @ ys"]) (simp add: and_then_def)
  qed
qed

lemma emits_attempt [intro]: "emits lg P m \<Longrightarrow> emits lg P (attempt m)"
  unfolding emits_def attempt_def by (simp add: case_prod_beta)

lemma emits_map_err [intro]: "emits lg P m \<Longrightarrow> emits lg P (map_err g m)"
  unfolding emits_def map_err_def
  by (simp add: case_prod_beta split: sum.split)

lemma emits_if [intro]: "emits lg P m \<Longrightarrow> emits lg P n \<Longrightarrow> emits lg P (if b then m else n)"
  by simp

lemma emits_case_sum [intro]:
  "(\<And>e. emits lg P (f e)) \<Longrightarrow> (\<And>a. emits lg P (g a)) \<Longrightarrow>
     emits lg P (case r of Inl e \<Rightarrow> f e | Inr a \<Rightarrow> g a)"
  by (cases r) auto

lemma emits_case_option [intro]:
  "emits lg P m \<Longrightarrow> (\<And>a. emits lg P (f a)) \<Longrightarrow>
     emits lg P (case x of None \<Rightarrow> m | Some a \<Rightarrow> f a)"
  by (cases x) auto

lemma emits_case_prod [intro]:
  "(\<And>a b. emits lg P (f a b)) \<Longrightarrow> emits lg P (case x of (a, b) \<Rightarrow> f a b)"
  by (cases x) auto

section \<open>Interfaces shared by several components\<close>

text \<open>
  A \<open>#[repr(u8)]\<close> enumeration with \<open>as_u8\<close> and \<open>from_byte\<close>. \<open>canon\<close> holds of
  the values that the encoder is meant for (every value, except for enumerations that
  keep an unrecognised byte in a catch-all variant).
\<close>

locale byte_codec =
  fixes as_byte :: "'a \<Rightarrow> u8"
    and from_byte :: "u8 \<Rightarrow> 'a option"
    and canon :: "'a \<Rightarrow> bool"
  assumes decode_encode: "canon x \<Longrightarrow> from_byte (as_byte x) = Some x"
    and encode_decode: "from_byte b = Some x \<Longrightarrow> as_byte x = b"
begin

lemma as_byte_inject: "canon x \<Longrightarrow> canon y \<Longrightarrow> as_byte x = as_byte y \<longleftrightarrow> x = y"
  by (metis decode_encode option.inject)

lemma from_byte_iff: "canon x \<Longrightarrow> from_byte b = Some x \<longleftrightarrow> b = as_byte x"
  by (metis decode_encode encode_decode)

lemma from_byte_inj: "from_byte b = Some x \<Longrightarrow> from_byte c = Some x \<Longrightarrow> b = c"
  using encode_decode by metis

lemma unassigned: "from_byte b = None \<Longrightarrow> canon x \<Longrightarrow> as_byte x \<noteq> b"
  by (auto simp: decode_encode)

end

text \<open>
  An invariant of a transition system: it holds of every initial state and every step
  keeps it, so it holds of every state a run reaches.
\<close>

locale step_invariant =
  fixes init :: "'s \<Rightarrow> bool"
    and step :: "'s \<Rightarrow> 's \<Rightarrow> bool"
    and inv :: "'s \<Rightarrow> bool"
  assumes init_inv: "init s \<Longrightarrow> inv s"
    and step_inv: "inv s \<Longrightarrow> step s t \<Longrightarrow> inv t"
begin

lemma run_inv: "rtranclp step s t \<Longrightarrow> inv s \<Longrightarrow> inv t"
  by (induction rule: rtranclp_induct) (auto intro: step_inv)

lemma reachable_inv: "init s \<Longrightarrow> rtranclp step s t \<Longrightarrow> inv t"
  by (blast intro: run_inv init_inv)

end

end
