(* ===== verification/Crc.thy ===== *)
theory Crc
  imports Hsm_Prelude
begin

text \<open>
  \<^verbatim>\<open>src/crates/atecc608b/src/crc.rs\<close>: the CRC-16 that closes every frame
  exchanged with the secure element. The bit-serial routine is translated step by step;
  the lemmas show that it is linear over XOR and that its register update is injective,
  which gives the error-detection guarantee of \<open>verify_trailing_crc\<close>.
\<close>

unbundle bit_operations_syntax

section \<open>The routine\<close>

definition POLY :: u16 where
  "POLY = 0x8005"

text \<open>One iteration of the inner loop, for the bit \<open>bit_index\<close> of \<open>byte\<close>.\<close>

definition crc_bit_step :: "u8 \<Rightarrow> u16 \<Rightarrow> nat \<Rightarrow> u16" where
  "crc_bit_step byte crc bit_index =
     (let data_bit = drop_bit bit_index byte AND 1;
          crc_bit = ucast (drop_bit 15 crc AND 1) :: u8;
          crc' = push_bit 1 crc
      in if data_bit \<noteq> crc_bit then crc' XOR POLY else crc')"

text \<open>One iteration of the outer loop: \<open>for bit_index in 0..8u8\<close>.\<close>

definition crc_byte_step :: "u16 \<Rightarrow> u8 \<Rightarrow> u16" where
  "crc_byte_step crc byte = foldl (crc_bit_step byte) crc [0..<8]"

definition crc16 :: "bytes \<Rightarrow> u16" where
  "crc16 data = foldl crc_byte_step 0 data"

definition crc16_to_bytes :: "u16 \<Rightarrow> bytes" where
  "crc16_to_bytes crc = [ucast (crc AND 0xFF), ucast (drop_bit 8 crc AND 0xFF)]"

definition verify_trailing_crc :: "bytes \<Rightarrow> bool" where
  "verify_trailing_crc frame =
     (if length frame < 3 then False
      else let split = length frame - 2;
               computed = crc16 (take split frame);
               received = u16_from_le_bytes (frame ! split) (frame ! (split + 1))
           in computed = received)"

section \<open>The wire form of the checksum\<close>

lemma crc16_to_bytes_le: "crc16_to_bytes crc = u16_to_le_bytes crc"
proof -
  have "(0xFF :: u16) = mask 8" by (simp add: mask_eq_exp_minus_1)
  moreover have "ucast (w AND mask 8) = (ucast w :: u8)" for w :: u16
    by (rule bit_word_eqI) (simp only: bit_simps, auto)
  ultimately show ?thesis by (simp only: crc16_to_bytes_def u16_to_le_bytes_def)
qed

lemma length_crc16_to_bytes [simp]: "length (crc16_to_bytes crc) = 2"
  by (simp add: crc16_to_bytes_def)

lemma verify_trailing_crc_append:
  "verify_trailing_crc (p @ [lo, hi]) \<longleftrightarrow> p \<noteq> [] \<and> crc16 p = u16_from_le_bytes lo hi"
  by (cases p) (auto simp: verify_trailing_crc_def Let_def nth_append)

lemma verify_trailing_crc_closed [simp]:
  "verify_trailing_crc (p @ crc16_to_bytes (crc16 p)) \<longleftrightarrow> p \<noteq> []"
  by (simp add: crc16_to_bytes_le u16_to_le_bytes_def verify_trailing_crc_append
      u16_from_to_le)

section \<open>Linearity and injectivity of the register update\<close>

text \<open>The register update for a zero data bit, and one data bit entering at the top.\<close>

definition lfsr :: "u16 \<Rightarrow> u16" where
  "lfsr c = (if bit c 15 then push_bit 1 c XOR POLY else push_bit 1 c)"

definition top_bit :: "bool \<Rightarrow> u16" where
  "top_bit d = (if d then push_bit 15 1 else 0)"

lemma odd_POLY: "odd POLY"
  by (simp add: POLY_def)

lemma word_xor_eq_0: "a XOR b = 0 \<longleftrightarrow> a = (b :: 'a::len word)"
  by (auto simp: bit_eq_iff bit_simps)

lemma and_one_eq_of_bool: "w AND 1 = (of_bool (bit w 0) :: 'a::len word)"
  by (rule bit_word_eqI) (auto simp: bit_simps)

lemma crc_bit_step_bit:
  "crc_bit_step byte crc i =
     (if bit byte i \<noteq> bit crc 15 then push_bit 1 crc XOR POLY else push_bit 1 crc)"
  by (simp add: crc_bit_step_def Let_def and_one_eq_of_bool bit_simps)

lemma crc_bit_step_lfsr: "crc_bit_step byte crc i = lfsr (crc XOR top_bit (bit byte i))"
proof -
  have "push_bit 1 (top_bit d) = 0" for d
    by (simp add: top_bit_def)
  then show ?thesis
    by (auto simp: crc_bit_step_bit lfsr_def top_bit_def bit_simps push_bit_xor)
qed

lemma lfsr_eq: "lfsr c = push_bit 1 c XOR (if bit c 15 then POLY else 0)"
  by (simp add: lfsr_def)

lemma lfsr_xor: "lfsr (a XOR b) = lfsr a XOR lfsr b"
proof -
  have "(if bit (a XOR b) 15 then POLY else 0) =
      (if bit a 15 then POLY else 0) XOR (if bit b 15 then POLY else 0)"
    by (simp add: bit_xor_iff)
  then show ?thesis by (simp only: lfsr_eq push_bit_xor) (simp only: ac_simps)
qed

lemma lfsr_0 [simp]: "lfsr 0 = 0"
  by (simp add: lfsr_def)

lemma lfsr_eq_0: "lfsr c = 0 \<longleftrightarrow> c = 0"
proof
  assume z: "lfsr c = 0"
  have nb: "\<not> bit c 15"
  proof
    assume "bit c 15"
    then have "odd (lfsr c)" using odd_POLY by (simp add: lfsr_def even_xor_iff)
    with z show False by simp
  qed
  show "c = 0"
  proof (rule bit_word_eqI)
    fix n assume "n < LENGTH(16)"
    with nb z have "n < 15 \<Longrightarrow> bit (push_bit 1 c) (Suc n) = bit c n"
      by (simp only: bit_push_bit_iff) simp
    moreover have "push_bit 1 c = 0" using nb z by (simp add: lfsr_def)
    ultimately show "bit c n = bit 0 n"
      using nb \<open>n < LENGTH(16)\<close> by (cases "n = 15") auto
  qed
qed simp

lemma lfsr_inject: "lfsr a = lfsr b \<longleftrightarrow> a = b"
  using lfsr_eq_0 [of "a XOR b"] by (simp add: lfsr_xor word_xor_eq_0)

text \<open>The whole message as one stream of bits, least significant bit of a byte first.\<close>

definition byte_bits :: "u8 \<Rightarrow> bool list" where
  "byte_bits b = map (bit b) [0..<8]"

definition stream_step :: "u16 \<Rightarrow> bool \<Rightarrow> u16" where
  "stream_step c d = lfsr (c XOR top_bit d)"

lemma crc_byte_step_stream: "crc_byte_step c b = foldl stream_step c (byte_bits b)"
  by (simp add: crc_byte_step_def byte_bits_def stream_step_def foldl_map
      crc_bit_step_lfsr [abs_def])

lemma foldl_crc_byte_step_stream:
  "foldl crc_byte_step c bs = foldl stream_step c (concat (map byte_bits bs))"
  by (induction bs arbitrary: c) (simp_all add: crc_byte_step_stream)

lemma length_byte_bits [simp]: "length (byte_bits b) = 8"
  by (simp add: byte_bits_def)

lemma byte_bits_inject: "byte_bits a = byte_bits b \<longleftrightarrow> a = b"
proof
  assume "byte_bits a = byte_bits b"
  then have "bit a n = bit b n" if "n < 8" for n
    using that by (auto simp: byte_bits_def dest: map_eq_conv [THEN iffD1])
  then show "a = b" by (auto intro!: bit_word_eqI)
qed simp

lemma byte_bits_xor: "byte_bits (a XOR b) = map2 (\<noteq>) (byte_bits a) (byte_bits b)"
  by (rule nth_equalityI) (simp_all add: byte_bits_def bit_simps)

lemma stream_step_xor:
  "stream_step (a XOR b) (d \<noteq> e) = stream_step a d XOR stream_step b e"
proof -
  have "top_bit (d \<noteq> e) = top_bit d XOR top_bit e" by (simp add: top_bit_def)
  then have "(a XOR b) XOR top_bit (d \<noteq> e) = (a XOR top_bit d) XOR (b XOR top_bit e)"
    by (simp add: ac_simps xor.left_commute)
  then show ?thesis by (simp only: stream_step_def lfsr_xor)
qed

lemma stream_xor:
  "length xs = length ys \<Longrightarrow>
     foldl stream_step (a XOR b) (map2 (\<noteq>) xs ys)
       = foldl stream_step a xs XOR foldl stream_step b ys"
proof (induction xs ys arbitrary: a b rule: list_induct2)
  case (Cons x xs y ys)
  then show ?case using stream_step_xor [of a b x y] by (simp del: not_iff)
qed simp

lemma stream_step_inject: "stream_step a d = stream_step b d \<longleftrightarrow> a = b"
proof -
  have "a XOR t = b XOR t \<longleftrightarrow> a = b" for t
    by (auto simp: bit_eq_iff bit_simps)
  then show ?thesis by (simp add: stream_step_def lfsr_inject)
qed

lemma foldl_stream_inject: "foldl stream_step a ds = foldl stream_step b ds \<longleftrightarrow> a = b"
  by (induction ds arbitrary: a b) (simp_all add: stream_step_inject)

subsection \<open>Bursts of up to sixteen bits\<close>

text \<open>
  The first sixteen bits of a stream can be loaded into the register at once, at the
  positions \<open>15, 14, \<dots>\<close>, before the register is clocked.
\<close>

fun window :: "bool list \<Rightarrow> u16" where
  "window [] = 0"
| "window (d # ds) = top_bit d XOR drop_bit 1 (window ds)"

lemma bit_top_bit: "bit (top_bit d) n \<longleftrightarrow> d \<and> n = 15"
  by (auto simp: top_bit_def bit_push_bit_iff bit_1_iff simp del: push_bit_of_1 dest: le_Suc_ex)

lemma bit_window:
  "bit (window ds) n \<longleftrightarrow> n < 16 \<and> 15 - n < length ds \<and> ds ! (15 - n)"
proof (induction ds arbitrary: n)
  case (Cons d ds)
  have "bit (window (d # ds)) n \<longleftrightarrow> (d \<and> n = 15) \<noteq> bit (window ds) (Suc n)"
    by (simp add: bit_xor_iff bit_top_bit bit_drop_bit_eq)
  moreover have "15 - n = Suc (15 - Suc n)" if "n < 15" using that by arith
  ultimately show ?case unfolding Cons.IH by (cases "n < 15") auto
qed simp

lemma even_window: "length ds < 16 \<Longrightarrow> even (window ds)"
  using bit_window [of ds 0] by (simp add: bit_0)

lemma lfsr_drop_window: "length ds < 16 \<Longrightarrow> lfsr (drop_bit 1 (window ds)) = window ds"
proof -
  assume "length ds < 16"
  then have e: "even (window ds)" by (rule even_window)
  have "bit (push_bit 1 (drop_bit 1 (window ds))) n = bit (window ds) n" if "n < 16" for n
    using that e by (cases n) (simp_all only: bit_push_bit_iff bit_drop_bit_eq bit_0, auto)
  then have "push_bit 1 (drop_bit 1 (window ds)) = window ds"
    by (auto intro!: bit_word_eqI)
  moreover have "\<not> bit (drop_bit 1 (window ds)) 15"
    by (simp add: bit_drop_bit_eq bit_window)
  ultimately show ?thesis by (simp add: lfsr_def)
qed

lemma stream_window:
  "length ds \<le> 16 \<Longrightarrow>
     foldl stream_step c ds = (lfsr ^^ length ds) (c XOR window ds)"
proof (induction ds arbitrary: c)
  case (Cons d ds)
  then have ds: "length ds < 16" by simp
  have "foldl stream_step c (d # ds)
      = (lfsr ^^ length ds) (lfsr (c XOR top_bit d) XOR window ds)"
    using Cons.IH [of "stream_step c d"] ds by (simp add: stream_step_def [of c d])
  also have "\<dots> = (lfsr ^^ length ds) (lfsr (c XOR top_bit d XOR drop_bit 1 (window ds)))"
    by (simp only: lfsr_xor lfsr_drop_window [OF ds] xor.assoc)
  also have "\<dots> = (lfsr ^^ length (d # ds)) (c XOR window (d # ds))"
    by (simp only: length_Cons funpow_Suc_right window.simps comp_def xor.assoc)
  finally show ?case .
qed simp

lemma lfsr_funpow_inject: "(lfsr ^^ n) a = (lfsr ^^ n) b \<longleftrightarrow> a = b"
  by (induction n) (simp_all add: lfsr_inject)

lemma window_inject:
  assumes "length ds = length es" "length ds \<le> 16" "window ds = window es"
  shows "ds = es"
proof (rule nth_equalityI [OF assms(1)])
  fix i assume "i < length ds"
  moreover from this assms(2) have "15 - (15 - i) = i" "15 - i < 16" by auto
  ultimately show "ds ! i = es ! i"
    using assms(1,3) bit_window [of ds "15 - i"] bit_window [of es "15 - i"] by simp
qed

lemma stream_burst:
  assumes "length ds = length es" "length ds \<le> 16"
    and "foldl stream_step c ds = foldl stream_step c es"
  shows "ds = es"
proof -
  have "c XOR window ds = c XOR window es"
    using assms by (simp add: stream_window lfsr_funpow_inject)
  then have "window ds = window es"
    by (auto simp: bit_eq_iff bit_simps)
  with assms(1,2) show ?thesis by (rule window_inject)
qed

lemma crc16_two_bytes:
  "crc16 (p @ [a, b] @ s) = crc16 (p @ [a', b'] @ s) \<longleftrightarrow> a = a' \<and> b = b'"
proof
  assume "crc16 (p @ [a, b] @ s) = crc16 (p @ [a', b'] @ s)"
  then have "foldl stream_step (crc16 p) (byte_bits a @ byte_bits b)
      = foldl stream_step (crc16 p) (byte_bits a' @ byte_bits b')"
    by (simp add: crc16_def foldl_crc_byte_step_stream crc_byte_step_stream
        foldl_stream_inject)
  then have "byte_bits a @ byte_bits b = byte_bits a' @ byte_bits b'"
    by (rule stream_burst [rotated 2]) simp_all
  then show "a = a' \<and> b = b'" by (simp add: byte_bits_inject)
qed simp

lemma crc16_one_byte: "crc16 (p @ a # s) = crc16 (p @ a' # s) \<longleftrightarrow> a = a'"
proof
  assume "crc16 (p @ a # s) = crc16 (p @ a' # s)"
  then have "foldl stream_step (crc16 p) (byte_bits a) = foldl stream_step (crc16 p) (byte_bits a')"
    by (simp add: crc16_def foldl_crc_byte_step_stream crc_byte_step_stream
        foldl_stream_inject)
  then have "byte_bits a = byte_bits a'"
    by (rule stream_burst [rotated 2]) simp_all
  then show "a = a'" by (simp add: byte_bits_inject)
qed simp

lemma verify_trailing_crcE:
  assumes "verify_trailing_crc frame"
  obtains p lo hi where "frame = p @ [lo, hi]" "p \<noteq> []" "crc16 p = u16_from_le_bytes lo hi"
proof -
  from assms have "3 \<le> length frame" by (auto simp: verify_trailing_crc_def split: if_splits)
  then obtain p lo hi where "frame = p @ [lo, hi]" by (rule list_split_last_two)
  with assms show thesis by (auto simp: verify_trailing_crc_append intro: that)
qed

section \<open>Properties\<close>

text \<open>
  C17. A frame that passes \<open>verify_trailing_crc\<close> stops passing it as soon as one of its
  bytes, payload or checksum, is replaced by a different value: the acceptance test
  detects every corruption of a single byte.
\<close>

theorem crc_detects_byte_corruption:
  assumes "verify_trailing_crc frame" and "i < length frame" and "b \<noteq> frame ! i"
  shows "\<not> verify_trailing_crc (frame[i := b])"
proof -
  from assms(1) obtain p lo hi where f: "frame = p @ [lo, hi]" "p \<noteq> []"
    and c: "crc16 p = u16_from_le_bytes lo hi" by (rule verify_trailing_crcE)
  show ?thesis
  proof (cases "i < length p")
    case True
    then have "crc16 (p[i := b]) \<noteq> crc16 p"
      using assms(3) f(1) crc16_one_byte [of "take i p" b "drop (Suc i) p" "p ! i"]
      by (simp add: upd_conv_take_nth_drop id_take_nth_drop [symmetric] nth_append)
    with True f c show ?thesis
      by (simp add: list_update_append verify_trailing_crc_append)
  next
    case False
    with assms(2) f(1) have "i = length p \<or> i = Suc (length p)" by auto
    with assms(3) f c show ?thesis
      by (auto simp: list_update_append nth_append verify_trailing_crc_append
          u16_from_le_inject)
  qed
qed

theorem crc_detects_byte_corruption_witness:
  "verify_trailing_crc [0x04, 0x11, 0x33, 0x43] \<and>
   \<not> verify_trailing_crc ([0x04, 0x11, 0x33, 0x43][1 := 0x07])"
proof -
  have v: "verify_trailing_crc [0x04, 0x11, 0x33, 0x43]" by code_simp
  show ?thesis using v crc_detects_byte_corruption [OF v, of 1 "0x07"] by simp
qed

text \<open>
  A corruption confined to two adjacent bytes of the part covered by the checksum (so
  every error burst of at most nine bits, and every burst of sixteen bits aligned to a
  byte) changes the checksum: the frame is rejected.
\<close>

theorem crc_detects_adjacent_bytes:
  assumes "verify_trailing_crc frame" and "i + 1 < length frame - 2"
    and "a \<noteq> frame ! i \<or> b \<noteq> frame ! (i + 1)"
  shows "\<not> verify_trailing_crc (frame[i := a, i + 1 := b])"
proof -
  from assms(1) obtain p lo hi where f: "frame = p @ [lo, hi]" "p \<noteq> []"
    and c: "crc16 p = u16_from_le_bytes lo hi" by (rule verify_trailing_crcE)
  with assms(2) have i: "Suc i < length p" by simp
  have p: "p = take i p @ [p ! i, p ! Suc i] @ drop (Suc (Suc i)) p"
    using i by (simp add: Cons_nth_drop_Suc Suc_lessD)
  have "p[i := a, Suc i := b] = take i p @ [a, b] @ drop (Suc (Suc i)) p"
    using i by (subst p) (simp add: list_update_append Suc_lessD min_absorb2)
  moreover have "crc16 p = crc16 (take i p @ [p ! i, p ! Suc i] @ drop (Suc (Suc i)) p)"
    using p by simp
  ultimately have "crc16 (p[i := a, Suc i := b]) \<noteq> crc16 p"
    using assms(3) i f(1) by (simp add: crc16_two_bytes [simplified] nth_append Suc_lessD)
  with i f c show ?thesis
    by (simp add: list_update_append verify_trailing_crc_append)
qed

theorem crc_detects_adjacent_bytes_witness:
  "verify_trailing_crc [0x07, 0x30, 0x00, 0x00, 0x00, 0x03, 0x5D] \<and>
   \<not> verify_trailing_crc ([0x07, 0x30, 0x00, 0x00, 0x00, 0x03, 0x5D][1 := 0x1B, 1 + 1 := 0x01])"
proof -
  have v: "verify_trailing_crc [0x07, 0x30, 0x00, 0x00, 0x00, 0x03, 0x5D]" by code_simp
  show ?thesis using v crc_detects_adjacent_bytes [OF v, of 1 "0x1B" "0x01"] by simp
qed

end
