(* ===== verification/Packet.thy ===== *)
theory Packet
  imports Crc
begin

text \<open>
  \<^verbatim>\<open>src/crates/atecc608b/src/packet.rs\<close>: command frames sent to the secure
  element and response frames read back. The output buffer of \<open>build_command_frame\<close>
  is passed in and returned; \<open>command_frame\<close> and \<open>response_frame\<close> are the wire
  formats the module's documentation draws, and the lemmas show that the builder writes
  the first and that the parser accepts exactly the second.
\<close>

unbundle bit_operations_syntax

section \<open>Sizes (opcodes.rs)\<close>

definition MAX_PACKET_SIZE :: nat where "MAX_PACKET_SIZE = 163"
definition MAX_RESPONSE_SIZE :: nat where "MAX_RESPONSE_SIZE = 155"
definition COMMAND_FRAME_OVERHEAD :: nat where "COMMAND_FRAME_OVERHEAD = 7"

definition MAX_COMMAND_DATA_LEN :: nat where
  "MAX_COMMAND_DATA_LEN = MAX_PACKET_SIZE - 1 - COMMAND_FRAME_OVERHEAD"

lemmas packet_sizes = MAX_PACKET_SIZE_def MAX_RESPONSE_SIZE_def COMMAND_FRAME_OVERHEAD_def
  MAX_COMMAND_DATA_LEN_def

section \<open>Errors and parsed frames\<close>

datatype PacketParseError = TooShort | LengthMismatch u8 nat | PacketBadCrc

datatype PacketBuildError = DataTooLong nat nat | OutputBufferTooSmall nat nat

datatype ResponseFrame = Payload bytes | Status u8

section \<open>Building and parsing\<close>

definition build_command_frame ::
  "u8 \<Rightarrow> u8 \<Rightarrow> u16 \<Rightarrow> bytes \<Rightarrow> bytes \<Rightarrow> PacketBuildError + nat \<times> bytes" where
  "build_command_frame opcode param1 param2 data out =
     (if length data > MAX_COMMAND_DATA_LEN
      then Inl (DataTooLong (length data) MAX_COMMAND_DATA_LEN)
      else let total_len = COMMAND_FRAME_OVERHEAD + length data in
      if length out < total_len
      then Inl (OutputBufferTooSmall total_len (length out))
      else case u8_try_from total_len of
        None \<Rightarrow> Inl (DataTooLong (length data) MAX_COMMAND_DATA_LEN)
      | Some count \<Rightarrow>
          let param2_bytes = u16_to_le_bytes param2;
              out = out[0 := count, 1 := opcode, 2 := param1,
                        3 := param2_bytes ! 0, 4 := param2_bytes ! 1];
              out = copy_at out 5 data;
              crc_bytes = crc16_to_bytes (crc16 (take (5 + length data) out));
              out = out[5 + length data := crc_bytes ! 0, 6 + length data := crc_bytes ! 1]
          in Inr (total_len, out))"

definition parse_response_frame :: "bytes \<Rightarrow> PacketParseError + ResponseFrame" where
  "parse_response_frame frame =
     (if length frame < 4 then Inl TooShort
      else let declared = frame ! 0 in
      if unat declared \<noteq> length frame then Inl (LengthMismatch declared (length frame))
      else if \<not> verify_trailing_crc frame then Inl PacketBadCrc
      else if length frame = 4 then Inr (Status (frame ! 1))
      else Inr (Payload (slice frame 1 (length frame - 2))))"

section \<open>The wire formats\<close>

definition with_crc :: "bytes \<Rightarrow> bytes" where
  "with_crc body = body @ crc16_to_bytes (crc16 body)"

definition command_frame :: "u8 \<Rightarrow> u8 \<Rightarrow> u16 \<Rightarrow> bytes \<Rightarrow> bytes" where
  "command_frame opcode param1 param2 data =
     with_crc ([of_nat (7 + length data), opcode, param1] @ u16_to_le_bytes param2 @ data)"

definition response_frame :: "bytes \<Rightarrow> bytes" where
  "response_frame payload = with_crc (of_nat (length payload + 3) # payload)"

lemma length_command_frame [simp]:
  "length (command_frame opcode param1 param2 data) = 7 + length data"
  by (simp add: command_frame_def with_crc_def)

lemma length_response_frame [simp]: "length (response_frame payload) = 3 + length payload"
  by (simp add: response_frame_def with_crc_def)

lemma list_5:
  assumes "5 \<le> length xs"
  shows "\<exists>a b c d e ys. xs = a # b # c # d # e # ys"
  using assms by (auto simp: numeral_eq_Suc Suc_le_length_iff)

lemma build_command_frame_ok:
  assumes "length data \<le> MAX_COMMAND_DATA_LEN" and "7 + length data \<le> length out"
  shows "build_command_frame opcode param1 param2 data out =
    Inr (7 + length data, command_frame opcode param1 param2 data @ drop (7 + length data) out)"
proof -
  obtain a b c d e rest where out: "out = a # b # c # d # e # rest"
    using list_5 [of out] assms(2) by auto
  let ?n = "length data"
  have r: "drop ?n rest = rest ! ?n # rest ! Suc ?n # drop (Suc (Suc ?n)) rest"
    using assms(2) out by (simp add: Cons_nth_drop_Suc)
  let ?h = "[of_nat (7 + length data), opcode, param1] @ u16_to_le_bytes param2 @ data"
  have "copy_at (out[0 := of_nat (7 + length data), 1 := opcode, 2 := param1,
      3 := u16_to_le_bytes param2 ! 0, 4 := u16_to_le_bytes param2 ! 1]) 5 data = ?h @ drop ?n rest"
    by (simp add: out copy_at_def u16_to_le_bytes_def numeral_eq_Suc)
  then show ?thesis
    using assms r
    by (simp add: build_command_frame_def Let_def packet_sizes u8_try_from_def
        command_frame_def with_crc_def crc16_to_bytes_def u16_to_le_bytes_def out
        list_update_append numeral_eq_Suc)
qed

lemma verify_with_crc [simp]: "verify_trailing_crc (with_crc body) \<longleftrightarrow> body \<noteq> []"
  by (simp add: with_crc_def)

lemma verify_response_frame [simp]: "verify_trailing_crc (response_frame p)"
  by (simp add: response_frame_def)

lemma nth_response_frame_0 [simp]: "response_frame p ! 0 = of_nat (length p + 3)"
  by (simp add: response_frame_def with_crc_def)

lemma slice_response_frame [simp]: "slice (response_frame p) (Suc 0) (Suc (length p)) = p"
  by (simp add: response_frame_def with_crc_def slice_def)

lemma parse_response_frame_ok:
  assumes "1 \<le> length p" and "length p < 253"
  shows "parse_response_frame (response_frame p) =
    Inr (if length p = 1 then Status (p ! 0) else Payload p)"
proof -
  have "response_frame p ! Suc 0 = p ! 0" using assms(1)
    by (cases p) (simp_all add: response_frame_def with_crc_def)
  moreover have "unat (response_frame p ! 0) = 3 + length p"
    using assms(2) unat_of_nat_u8 [of "length p + 3"] by simp
  ultimately show ?thesis using assms
    by (cases "p = []") (simp_all add: parse_response_frame_def Let_def
        del: nth_response_frame_0)
qed

lemma parse_response_frame_accepts:
  assumes "parse_response_frame frame = Inr r"
  obtains p where "1 \<le> length p" "length p < 253" "frame = response_frame p"
proof -
  from assms have l: "4 \<le> length frame" and d: "unat (frame ! 0) = length frame"
    and v: "verify_trailing_crc frame"
    by (auto simp: parse_response_frame_def Let_def split: if_splits)
  from v obtain q lo hi where f: "frame = q @ [lo, hi]" "q \<noteq> []"
    and c: "crc16 q = u16_from_le_bytes lo hi" by (rule verify_trailing_crcE)
  from f obtain h p where q: "q = h # p" by (cases q) auto
  have "h = of_nat (length p + 3)"
  proof -
    have "unat h = length p + 3" using d by (simp add: f q)
    then have "of_nat (unat h) = (of_nat (length p + 3) :: u8)" by simp
    then show ?thesis by simp
  qed
  moreover have "[lo, hi] = crc16_to_bytes (crc16 q)"
    by (simp add: c crc16_to_bytes_le u16_to_from_le)
  ultimately have "frame = response_frame p"
    by (simp add: f q response_frame_def with_crc_def)
  moreover have "length frame < 256" using d unat_u8_less [of "frame ! 0"] by simp
  ultimately show thesis using l that by simp
qed

section \<open>Properties\<close>

text \<open>
  Building a command frame: a data field of at most 155 bytes and a buffer with room
  for the frame give the documented wire layout (count, opcode, parameters, data, CRC of
  everything before it) and leave the rest of the buffer alone; the two error values are
  returned exactly outside those ranges, so the \<open>u8::try_from\<close> in the middle never
  fails.
\<close>

theorem build_command_frame_spec:
  "build_command_frame opcode param1 param2 data out =
     (if 155 < length data then Inl (DataTooLong (length data) 155)
      else if length out < 7 + length data
      then Inl (OutputBufferTooSmall (7 + length data) (length out))
      else Inr (7 + length data,
             command_frame opcode param1 param2 data @ drop (7 + length data) out))"
proof (cases "length data \<le> 155 \<and> 7 + length data \<le> length out")
  case True
  then show ?thesis using build_command_frame_ok [of data out]
    by (simp add: packet_sizes)
next
  case False
  then show ?thesis
    by (auto simp: build_command_frame_def packet_sizes Let_def)
qed

text \<open>
  C18. The parser accepts a byte string exactly when it is the response frame of some
  payload of 1 to 252 bytes: the count byte, the payload and the CRC of both. A one-byte
  payload is delivered as a status, any longer one verbatim. In particular encoding and
  parsing are inverse to each other.
\<close>

theorem parse_response_frame_iff:
  "parse_response_frame frame = Inr r \<longleftrightarrow>
     (\<exists>p. 1 \<le> length p \<and> length p < 253 \<and> frame = response_frame p \<and>
          r = (if length p = 1 then Status (p ! 0) else Payload p))"
proof
  assume "parse_response_frame frame = Inr r"
  moreover from this obtain p where p: "1 \<le> length p" "length p < 253" "frame = response_frame p"
    by (rule parse_response_frame_accepts)
  ultimately show "\<exists>p. 1 \<le> length p \<and> length p < 253 \<and> frame = response_frame p \<and>
      r = (if length p = 1 then Status (p ! 0) else Payload p)"
    using parse_response_frame_ok [OF p(1,2)] by auto
qed (auto simp: parse_response_frame_ok)

end
