(* ===== verification/Atecc_Error.thy ===== *)
theory Atecc_Error
  imports Packet
begin

text \<open>
  \<^verbatim>\<open>src/crates/atecc608b/src/error.rs\<close>: the error values of the driver, their
  HAL-independent projection, and the two byte encodings that carry them to the host
  (the chip's own status byte, and the sub-code of every other kind).
\<close>

datatype ChipError =
  CheckMacOrVerifyFailed
| ParseError
| EccFault
| SelfTestFailed
| HealthTestFailed
| ExecutionError
| WatchdogAboutToExpire
| CommandCrcError
| Unknown u8

datatype 'e AteccError =
  Hal 'e
| WakeFailed
| SelfTestFailure
| BadCrc
| Chip ChipError
| Timeout
| MalformedResponse
| BufferTooSmall

datatype AteccErrorKind =
  KindHal
| KindWakeFailed
| KindSelfTestFailure
| KindBadCrc
| KindChip ChipError
| KindTimeout
| KindMalformedResponse
| KindBufferTooSmall

fun kind :: "'e AteccError \<Rightarrow> AteccErrorKind" where
  "kind (Hal _) = KindHal"
| "kind WakeFailed = KindWakeFailed"
| "kind SelfTestFailure = KindSelfTestFailure"
| "kind BadCrc = KindBadCrc"
| "kind (Chip err) = KindChip err"
| "kind Timeout = KindTimeout"
| "kind MalformedResponse = KindMalformedResponse"
| "kind BufferTooSmall = KindBufferTooSmall"

section \<open>Sub-codes of the communication errors\<close>

definition ATECC_ERR_SUB_HAL :: u8 where "ATECC_ERR_SUB_HAL = 0x01"
definition ATECC_ERR_SUB_WAKE_FAILED :: u8 where "ATECC_ERR_SUB_WAKE_FAILED = 0x02"
definition ATECC_ERR_SUB_SELF_TEST_FAILURE :: u8 where "ATECC_ERR_SUB_SELF_TEST_FAILURE = 0x03"
definition ATECC_ERR_SUB_BAD_CRC :: u8 where "ATECC_ERR_SUB_BAD_CRC = 0x04"
definition ATECC_ERR_SUB_TIMEOUT :: u8 where "ATECC_ERR_SUB_TIMEOUT = 0x05"
definition ATECC_ERR_SUB_MALFORMED_RESPONSE :: u8 where "ATECC_ERR_SUB_MALFORMED_RESPONSE = 0x06"
definition ATECC_ERR_SUB_BUFFER_TOO_SMALL :: u8 where "ATECC_ERR_SUB_BUFFER_TOO_SMALL = 0x07"

lemmas sub_code_consts [simp] = ATECC_ERR_SUB_HAL_def ATECC_ERR_SUB_WAKE_FAILED_def ATECC_ERR_SUB_SELF_TEST_FAILURE_def ATECC_ERR_SUB_BAD_CRC_def ATECC_ERR_SUB_TIMEOUT_def ATECC_ERR_SUB_MALFORMED_RESPONSE_def ATECC_ERR_SUB_BUFFER_TOO_SMALL_def

fun as_sub_code :: "AteccErrorKind \<Rightarrow> u8" where
  "as_sub_code KindHal = ATECC_ERR_SUB_HAL"
| "as_sub_code KindWakeFailed = ATECC_ERR_SUB_WAKE_FAILED"
| "as_sub_code KindSelfTestFailure = ATECC_ERR_SUB_SELF_TEST_FAILURE"
| "as_sub_code KindBadCrc = ATECC_ERR_SUB_BAD_CRC"
| "as_sub_code KindTimeout = ATECC_ERR_SUB_TIMEOUT"
| "as_sub_code KindMalformedResponse = ATECC_ERR_SUB_MALFORMED_RESPONSE"
| "as_sub_code KindBufferTooSmall = ATECC_ERR_SUB_BUFFER_TOO_SMALL"
| "as_sub_code (KindChip _) = 0x00"

definition from_sub_code :: "u8 \<Rightarrow> AteccErrorKind option" where
  "from_sub_code byte =
     (if byte = ATECC_ERR_SUB_HAL then Some KindHal
      else if byte = ATECC_ERR_SUB_WAKE_FAILED then Some KindWakeFailed
      else if byte = ATECC_ERR_SUB_SELF_TEST_FAILURE then Some KindSelfTestFailure
      else if byte = ATECC_ERR_SUB_BAD_CRC then Some KindBadCrc
      else if byte = ATECC_ERR_SUB_TIMEOUT then Some KindTimeout
      else if byte = ATECC_ERR_SUB_MALFORMED_RESPONSE then Some KindMalformedResponse
      else if byte = ATECC_ERR_SUB_BUFFER_TOO_SMALL then Some KindBufferTooSmall
      else None)"

section \<open>Status bytes of the chip\<close>

definition from_status_byte :: "u8 \<Rightarrow> ChipError option" where
  "from_status_byte byte =
     (if byte = 0x00 then None
      else if byte = 0x01 then Some CheckMacOrVerifyFailed
      else if byte = 0x03 then Some ParseError
      else if byte = 0x05 then Some EccFault
      else if byte = 0x07 then Some SelfTestFailed
      else if byte = 0x08 then Some HealthTestFailed
      else if byte = 0x0F then Some ExecutionError
      else if byte = 0xEE then Some WatchdogAboutToExpire
      else if byte = 0xFF then Some CommandCrcError
      else Some (Unknown byte))"

fun as_status_byte :: "ChipError \<Rightarrow> u8" where
  "as_status_byte CheckMacOrVerifyFailed = 0x01"
| "as_status_byte ParseError = 0x03"
| "as_status_byte EccFault = 0x05"
| "as_status_byte SelfTestFailed = 0x07"
| "as_status_byte HealthTestFailed = 0x08"
| "as_status_byte ExecutionError = 0x0F"
| "as_status_byte WatchdogAboutToExpire = 0xEE"
| "as_status_byte CommandCrcError = 0xFF"
| "as_status_byte (Unknown byte) = byte"

section \<open>The encodings are codecs\<close>

text \<open>
  The sub-code is meant for every kind but \<open>KindChip\<close>. A chip error is canonical when
  it can come out of \<open>from_status_byte\<close>: \<open>Unknown\<close> of an assigned byte cannot.
\<close>

fun has_sub_code :: "AteccErrorKind \<Rightarrow> bool" where
  "has_sub_code (KindChip _) = False"
| "has_sub_code _ = True"

definition assigned_status :: "u8 list" where
  "assigned_status = [0x00, 0x01, 0x03, 0x05, 0x07, 0x08, 0x0F, 0xEE, 0xFF]"

fun chip_canonical :: "ChipError \<Rightarrow> bool" where
  "chip_canonical (Unknown b) = (b \<notin> set assigned_status)"
| "chip_canonical _ = True"

lemma from_status_byte_None [simp]: "from_status_byte b = None \<longleftrightarrow> b = 0"
  by (simp add: from_status_byte_def)

lemma from_status_byte_0 [simp]: "from_status_byte 0 = None"
  by simp

lemma from_status_byte_canonical: "from_status_byte b = Some e \<Longrightarrow> chip_canonical e"
  by (auto simp: from_status_byte_def assigned_status_def split: if_splits)

interpretation sub_code: byte_codec as_sub_code from_sub_code has_sub_code
proof
  fix x show "has_sub_code x \<Longrightarrow> from_sub_code (as_sub_code x) = Some x"
    by (cases x) (simp_all add: from_sub_code_def)
next
  fix b x show "from_sub_code b = Some x \<Longrightarrow> as_sub_code x = b"
    by (auto simp: from_sub_code_def split: if_splits)
qed

interpretation status_byte: byte_codec as_status_byte from_status_byte chip_canonical
proof
  fix x show "chip_canonical x \<Longrightarrow> from_status_byte (as_status_byte x) = Some x"
    by (cases x) (simp_all add: from_status_byte_def assigned_status_def)
next
  fix b x show "from_status_byte b = Some x \<Longrightarrow> as_status_byte x = b"
    by (auto simp: from_status_byte_def split: if_splits)
qed

end
