(* ===== verification/Driver.thy ===== *)
theory Driver
  imports Atecc_Error
begin

text \<open>
  The transport of the secure element: the HAL trait (\<^verbatim>\<open>hal.rs\<close>), the wake,
  idle and sleep sequences (\<^verbatim>\<open>wake.rs\<close>) and the command skeleton with its
  polling loop (\<^verbatim>\<open>driver.rs\<close>), all under
  \<^verbatim>\<open>src/crates/atecc608b/src\<close>.

  A HAL backend is a value of the record \<open>AteccHal\<close> over an arbitrary backend state;
  nothing is assumed of it. A read reports the byte each cell of the caller's buffer
  holds afterwards, so that, as with a Rust slice, it cannot change the buffer's length.
  A channel is the \<open>Atecc\<close> it borrows: its \<open>closed\<close> flag only decides whether a
  warning is logged when the handle is dropped.
\<close>

section \<open>Constants (opcodes.rs)\<close>

definition I2C_ADDRESS :: u8 where "I2C_ADDRESS = 0x60"
definition WORD_ADDRESS_SLEEP :: u8 where "WORD_ADDRESS_SLEEP = 0x01"
definition WORD_ADDRESS_IDLE :: u8 where "WORD_ADDRESS_IDLE = 0x02"
definition WORD_ADDRESS_COMMAND :: u8 where "WORD_ADDRESS_COMMAND = 0x03"
definition WAKE_LOW_DURATION_US :: u32 where "WAKE_LOW_DURATION_US = 60"
definition WAKE_DELAY_US :: u32 where "WAKE_DELAY_US = 4500"
definition WAKE_RESPONSE_OK :: bytes where "WAKE_RESPONSE_OK = [0x04, 0x11, 0x33, 0x43]"
definition WAKE_RESPONSE_SELFTEST_FAIL :: bytes where
  "WAKE_RESPONSE_SELFTEST_FAIL = [0x04, 0x07, 0xC4, 0x40]"
definition POLLING_PERIOD_MS :: u32 where "POLLING_PERIOD_MS = 2"
definition POLLING_MAX_MS :: u32 where "POLLING_MAX_MS = 2500"
definition STATUS_RESPONSE_LEN :: nat where "STATUS_RESPONSE_LEN = 4"

section \<open>The HAL trait and the driver handle\<close>

record ('h, 'e) AteccHal =
  i2c_write :: "u8 \<Rightarrow> bytes \<Rightarrow> ('h, 'e, unit) act"
  i2c_read :: "u8 \<Rightarrow> nat \<Rightarrow> ('h, 'e, nat \<Rightarrow> u8) act"
  pulse_sda_low :: "u32 \<Rightarrow> ('h, 'e, unit) act"
  delay_us :: "u32 \<Rightarrow> 'h \<Rightarrow> 'h"
  delay_ms :: "u32 \<Rightarrow> 'h \<Rightarrow> 'h"

record 'h Atecc =
  hal :: 'h
  device_addr :: u8

type_synonym ('h, 'e, 'a) chan = "('h Atecc, 'e AteccError, 'a) act"

definition Atecc_with_address :: "'h \<Rightarrow> u8 \<Rightarrow> 'h Atecc" where
  "Atecc_with_address h addr = \<lparr>hal = h, device_addr = addr\<rparr>"

definition Atecc_new :: "'h \<Rightarrow> 'h Atecc" where
  "Atecc_new h = Atecc_with_address h I2C_ADDRESS"

text \<open>\<open>hal.i2c_read(addr, &mut [0u8; n])\<close> with the HAL error converted by \<open>?\<close>.\<close>

definition read_exact :: "('h, 'e) AteccHal \<Rightarrow> u8 \<Rightarrow> nat \<Rightarrow> ('h, 'e AteccError, bytes) act" where
  "read_exact H addr n =
     and_then (map_err Hal (i2c_read H addr n)) (\<lambda>cell. return_ok (map cell [0..<n]))"

section \<open>Wake, idle and sleep (wake.rs)\<close>

definition wake :: "('h, 'e) AteccHal \<Rightarrow> u8 \<Rightarrow> ('h, 'e AteccError, unit) act" where
  "wake H addr =
     and_then (map_err Hal (pulse_sda_low H WAKE_LOW_DURATION_US)) (\<lambda>_.
     and_then (modify (delay_us H WAKE_DELAY_US)) (\<lambda>_.
     and_then (read_exact H addr 4) (\<lambda>response.
       if response = WAKE_RESPONSE_OK then return_ok ()
       else if response = WAKE_RESPONSE_SELFTEST_FAIL then return_err SelfTestFailure
       else return_err WakeFailed)))"

definition idle :: "('h, 'e) AteccHal \<Rightarrow> u8 \<Rightarrow> ('h, 'e AteccError, unit) act" where
  "idle H addr = map_err Hal (i2c_write H addr [WORD_ADDRESS_IDLE])"

definition sleep :: "('h, 'e) AteccHal \<Rightarrow> u8 \<Rightarrow> ('h, 'e AteccError, unit) act" where
  "sleep H addr = map_err Hal (i2c_write H addr [WORD_ADDRESS_SLEEP])"

section \<open>The channel and the command skeleton (driver.rs)\<close>

text \<open>An operation on \<open>(&mut self.driver.hal, self.driver.device_addr)\<close>.\<close>

definition on_hal :: "(u8 \<Rightarrow> ('h, 'e AteccError, 'a) act) \<Rightarrow> ('h, 'e, 'a) chan" where
  "on_hal m s = (case m (device_addr s) (hal s) of (r, h) \<Rightarrow> (r, s\<lparr>hal := h\<rparr>))"

definition open_channel :: "('h, 'e) AteccHal \<Rightarrow> ('h, 'e, unit) chan" where
  "open_channel H = on_hal (wake H)"

definition close :: "('h, 'e) AteccHal \<Rightarrow> ('h, 'e, unit) chan" where
  "close H = on_hal (idle H)"

definition close_to_sleep :: "('h, 'e) AteccHal \<Rightarrow> ('h, 'e, unit) chan" where
  "close_to_sleep H = on_hal (sleep H)"

definition refresh :: "('h, 'e) AteccHal \<Rightarrow> ('h, 'e, unit) chan" where
  "refresh H = on_hal (wake H)"

fun map_build_error :: "PacketBuildError \<Rightarrow> 'e AteccError" where
  "map_build_error (DataTooLong _ _) = BufferTooSmall"
| "map_build_error (OutputBufferTooSmall _ _) = BufferTooSmall"

fun map_parse_error :: "PacketParseError \<Rightarrow> 'e AteccError" where
  "map_parse_error TooShort = MalformedResponse"
| "map_parse_error (LengthMismatch _ _) = MalformedResponse"
| "map_parse_error PacketBadCrc = BadCrc"

definition u32_saturating_add :: "u32 \<Rightarrow> u32 \<Rightarrow> u32" where
  "u32_saturating_add a b = (if unat a + unat b < 2 ^ 32 then a + b else - 1)"

text \<open>The two reads of a loop iteration: the count byte, then the rest of the frame.\<close>

definition fetch_frame ::
  "('h, 'e) AteccHal \<Rightarrow> u8 \<Rightarrow> nat \<Rightarrow> bytes \<Rightarrow> u8 \<Rightarrow> ('h, 'e AteccError, nat \<times> bytes) act" where
  "fetch_frame H addr max_buf_len response_buf count =
     (let total = unat count in
      if total < 4 \<or> total > max_buf_len then return_err MalformedResponse
      else and_then (read_exact H addr (total - 1)) (\<lambda>rest.
             return_ok (total, copy_at (response_buf[0 := count]) 1 rest)))"

lemma unat_elapsed_step:
  assumes "elapsed < POLLING_MAX_MS"
  shows "unat (u32_saturating_add elapsed POLLING_PERIOD_MS) = unat elapsed + 2"
proof -
  have "unat elapsed < 2500" using assms by (simp add: word_less_nat_alt POLLING_MAX_MS_def)
  then show ?thesis
    by (simp add: u32_saturating_add_def POLLING_PERIOD_MS_def unat_word_ariths)
qed

function poll_loop ::
  "('h, 'e) AteccHal \<Rightarrow> u8 \<Rightarrow> nat \<Rightarrow> bytes \<Rightarrow> u32 \<Rightarrow> ('h, 'e AteccError, nat \<times> bytes) act" where
  "poll_loop H addr max_buf_len response_buf elapsed_ms h =
     (case i2c_read H addr 1 h of
        (Inr cell, h) \<Rightarrow> fetch_frame H addr max_buf_len response_buf (cell 0) h
      | (Inl _, h) \<Rightarrow>
          if elapsed_ms \<ge> POLLING_MAX_MS then (Inl Timeout, h)
          else poll_loop H addr max_buf_len response_buf
                 (u32_saturating_add elapsed_ms POLLING_PERIOD_MS)
                 (delay_ms H POLLING_PERIOD_MS h))"
  by pat_completeness auto
termination
proof (relation "measure (\<lambda>(_, _, _, _, elapsed, _). 2500 - unat elapsed)", goal_cases)
  case (2 H addr max_buf_len response_buf elapsed h x1 y)
  then have "elapsed < POLLING_MAX_MS" by simp
  moreover from this have "unat elapsed < 2500"
    by (simp add: word_less_nat_alt POLLING_MAX_MS_def)
  ultimately show ?case by (simp add: unat_elapsed_step)
qed simp

declare poll_loop.simps [simp del]

definition poll_for_response :: "('h, 'e) AteccHal \<Rightarrow> bytes \<Rightarrow> ('h, 'e, nat \<times> bytes) chan" where
  "poll_for_response H response_buf =
     on_hal (\<lambda>addr. poll_loop H addr (min (length response_buf) MAX_RESPONSE_SIZE) response_buf 0)"

definition run_command ::
  "('h, 'e) AteccHal \<Rightarrow> u8 \<Rightarrow> u8 \<Rightarrow> u16 \<Rightarrow> bytes \<Rightarrow> u32 \<Rightarrow> bytes \<Rightarrow> ('h, 'e, nat \<times> bytes) chan" where
  "run_command H opcode param1 param2 data expected_exec_ms response_buf =
     (let tx = (replicate MAX_PACKET_SIZE 0)[0 := WORD_ADDRESS_COMMAND] in
      and_then (map_err map_build_error
                  (of_result (build_command_frame opcode param1 param2 data (drop 1 tx))))
        (\<lambda>(frame_len, frame_buf).
           let tx = take 1 tx @ frame_buf; total_tx = 1 + frame_len in
           and_then (on_hal (\<lambda>addr. map_err Hal (i2c_write H addr (take total_tx tx)))) (\<lambda>_.
           and_then (on_hal (\<lambda>_. modify (delay_ms H expected_exec_ms))) (\<lambda>_.
             poll_for_response H response_buf))))"

definition execute_command ::
  "('h, 'e) AteccHal \<Rightarrow> u8 \<Rightarrow> u8 \<Rightarrow> u16 \<Rightarrow> bytes \<Rightarrow> u32 \<Rightarrow> bytes \<Rightarrow> ('h, 'e, bytes) chan" where
  "execute_command H opcode param1 param2 data expected_exec_ms response_buf =
     and_then (run_command H opcode param1 param2 data expected_exec_ms response_buf)
       (\<lambda>(response_len, response_buf).
          and_then (map_err map_parse_error
                      (of_result (parse_response_frame (take response_len response_buf))))
            (\<lambda>frame. case frame of
               Payload _ \<Rightarrow> return_ok (slice response_buf 1 (response_len - 2))
             | Status status_byte \<Rightarrow>
                 (case from_status_byte status_byte of
                    Some e \<Rightarrow> return_err (Chip e)
                  | None \<Rightarrow> return_err MalformedResponse)))"

definition execute_command_status ::
  "('h, 'e) AteccHal \<Rightarrow> u8 \<Rightarrow> u8 \<Rightarrow> u16 \<Rightarrow> bytes \<Rightarrow> u32 \<Rightarrow> ('h, 'e, unit) chan" where
  "execute_command_status H opcode param1 param2 data expected_exec_ms =
     and_then (run_command H opcode param1 param2 data expected_exec_ms
                 (replicate STATUS_RESPONSE_LEN 0))
       (\<lambda>(response_len, response_buf).
          if response_len \<noteq> STATUS_RESPONSE_LEN then return_err MalformedResponse
          else and_then (map_err map_parse_error
                           (of_result (parse_response_frame (take response_len response_buf))))
            (\<lambda>frame. case frame of
               Status status_byte \<Rightarrow>
                 if status_byte = 0x00 then return_ok ()
                 else return_err (Chip (case from_status_byte status_byte of
                                          Some e \<Rightarrow> e | None \<Rightarrow> Unknown status_byte))
             | Payload _ \<Rightarrow> return_err MalformedResponse))"


section \<open>Frame lemmas\<close>

lemma keeps_device_addr_on_hal [intro, simp]: "keeps device_addr (on_hal m)"
  by (rule keepsI) (auto simp: on_hal_def split: prod.splits)

lemma keeps_device_addr_command [intro, simp]:
  "keeps device_addr (open_channel H)" "keeps device_addr (close H)"
  "keeps device_addr (close_to_sleep H)" "keeps device_addr (refresh H)"
  "keeps device_addr (poll_for_response H buf)"
  "keeps device_addr (run_command H op p1 p2 data ms buf)"
  by (auto simp: open_channel_def close_def close_to_sleep_def refresh_def poll_for_response_def
      run_command_def Let_def intro!: keeps_and_then keeps_case_prod)

text \<open>The loop only reads and waits: what these keep, the loop keeps.\<close>

lemma poll_loop_invariant:
  assumes read: "\<And>n h. 0 < n \<Longrightarrow> I h \<Longrightarrow> I (snd (i2c_read H addr n h))"
    and wait: "\<And>h. I h \<Longrightarrow> I (delay_ms H POLLING_PERIOD_MS h)" and "I h"
  shows "I (snd (poll_loop H addr m buf elapsed h))"
  using assms
proof (induction H addr m buf elapsed h rule: poll_loop.induct)
  case (1 H addr m buf elapsed h)
  obtain r h1 where r: "i2c_read H addr 1 h = (r, h1)" by fastforce
  with "1.prems"(1) [of 1 h] "1.prems"(3) have i: "I h1" by simp
  show ?case
  proof (cases r)
    case (Inl e)
    with 1 r i show ?thesis by (simp add: poll_loop.simps [of H addr m buf elapsed h])
  next
    case (Inr cell)
    with r i "1.prems"(1) [of "unat (cell 0) - 1" h1] show ?thesis
      by (simp add: poll_loop.simps [of H addr m buf elapsed h] fetch_frame_def read_exact_def Let_def and_then_def
          map_err_def return_ok_def return_err_def case_prod_beta split: sum.split)
  qed
qed

lemma keeps_case_ResponseFrame [intro]:
  "(\<And>p. keeps q (f p)) \<Longrightarrow> (\<And>b. keeps q (g b)) \<Longrightarrow>
     keeps q (case r of Payload p \<Rightarrow> f p | Status b \<Rightarrow> g b)"
  by (cases r) auto

lemma keeps_device_addr_execute [intro, simp]:
  "keeps device_addr (execute_command H op p1 p2 data ms buf)"
  "keeps device_addr (execute_command_status H op p1 p2 data ms)"
  by (auto simp: execute_command_def execute_command_status_def
      intro!: keeps_and_then keeps_case_prod keeps_case_ResponseFrame keeps_case_option keeps_if
        keeps_map_err)

section \<open>The polling loop\<close>

text \<open>One unsuccessful iteration: a read that the chip refuses, then the delay.\<close>

definition poll_round :: "('h, 'e) AteccHal \<Rightarrow> u8 \<Rightarrow> 'h \<Rightarrow> 'h" where
  "poll_round H addr h = delay_ms H POLLING_PERIOD_MS (snd (i2c_read H addr 1 h))"

definition refuses :: "('h, 'e) AteccHal \<Rightarrow> u8 \<Rightarrow> 'h \<Rightarrow> bool" where
  "refuses H addr h = isl (fst (i2c_read H addr 1 h))"

lemma poll_loop_round:
  assumes "refuses H addr h" and "unat elapsed < 2500"
  shows "poll_loop H addr m buf elapsed h = poll_loop H addr m buf (elapsed + 2) (poll_round H addr h)"
proof -
  have lt: "\<not> POLLING_MAX_MS \<le> elapsed" using assms(2)
    by (simp add: POLLING_MAX_MS_def word_le_nat_alt)
  have "u32_saturating_add elapsed POLLING_PERIOD_MS = elapsed + 2"
    using assms(2) by (simp add: u32_saturating_add_def POLLING_PERIOD_MS_def)
  moreover obtain e h' where "i2c_read H addr 1 h = (Inl e, h')"
    using assms(1) by (cases "i2c_read H addr 1 h") (auto simp: refuses_def isl_def)
  ultimately show ?thesis using lt
    by (subst poll_loop.simps) (simp add: poll_round_def)
qed

lemma poll_loop_rounds:
  assumes "\<forall>i<k. refuses H addr ((poll_round H addr ^^ i) h)" and "unat elapsed + 2 * k \<le> 2500"
  shows "poll_loop H addr m buf elapsed h =
    poll_loop H addr m buf (elapsed + of_nat (2 * k)) ((poll_round H addr ^^ k) h)"
  using assms
proof (induction k arbitrary: elapsed h)
  case (Suc k)
  have e: "unat (elapsed + 2) = unat elapsed + 2"
    using Suc.prems(2) by (simp add: unat_word_ariths)
  have r: "\<forall>i<k. refuses H addr ((poll_round H addr ^^ i) (poll_round H addr h))"
  proof (intro allI impI)
    fix i assume "i < k"
    with Suc.prems(1) have "refuses H addr ((poll_round H addr ^^ Suc i) h)" by blast
    then show "refuses H addr ((poll_round H addr ^^ i) (poll_round H addr h))"
      by (simp add: funpow_swap1)
  qed
  have "poll_loop H addr m buf elapsed h = poll_loop H addr m buf (elapsed + 2) (poll_round H addr h)"
    using Suc.prems by (intro poll_loop_round) auto
  also have "\<dots> = poll_loop H addr m buf (elapsed + 2 + of_nat (2 * k))
      ((poll_round H addr ^^ k) (poll_round H addr h))"
    using Suc.prems(2) e r by (intro Suc.IH) auto
  finally show ?case by (simp add: funpow_swap1 algebra_simps)
qed simp

lemma poll_loop_ready:
  assumes "\<forall>i<k. refuses H addr ((poll_round H addr ^^ i) h)" and "k \<le> 1250"
    and "i2c_read H addr 1 ((poll_round H addr ^^ k) h) = (Inr cell, h')"
  shows "poll_loop H addr m buf 0 h = fetch_frame H addr m buf (cell 0) h'"
  using poll_loop_rounds [OF assms(1), of 0 m buf] assms(2,3)
  by (simp add: poll_loop.simps [of _ _ _ _ _ "(poll_round H addr ^^ k) h"])

lemma poll_loop_timeout:
  assumes "\<forall>i\<le>1250. refuses H addr ((poll_round H addr ^^ i) h)"
  shows "poll_loop H addr m buf 0 h =
    (Inl Timeout, snd (i2c_read H addr 1 ((poll_round H addr ^^ 1250) h)))"
proof -
  let ?h = "(poll_round H addr ^^ 1250) h"
  have "poll_loop H addr m buf 0 h = poll_loop H addr m buf (0 + of_nat (2 * 1250)) ?h"
    using assms by (intro poll_loop_rounds) auto
  moreover have "refuses H addr ?h" using assms by blast
  then obtain e h' where "i2c_read H addr 1 ?h = (Inl e, h')"
    by (cases "i2c_read H addr 1 ?h") (auto simp: refuses_def isl_def)
  ultimately show ?thesis
    by (simp add: poll_loop.simps [of _ _ _ _ _ ?h] POLLING_MAX_MS_def)
qed

lemma read_exact_length:
  "read_exact H addr n h = (Inr bs, h') \<Longrightarrow> length bs = n"
  by (auto simp: read_exact_def and_then_eq_Inr return_ok_def)

lemma fetch_frame_bounds:
  assumes "fetch_frame H addr m buf count h = (Inr (n, buf'), h')" and "m \<le> length buf"
  shows "4 \<le> n \<and> n \<le> m \<and> length buf' = length buf \<and> n = unat (buf' ! 0)"
proof -
  from assms(1) obtain rest where n: "n = unat count" "4 \<le> n" "n \<le> m"
    and r: "read_exact H addr (n - 1) h = (Inr rest, h')"
    and b: "buf' = copy_at (buf[0 := count]) 1 rest"
    by (auto simp: fetch_frame_def Let_def and_then_eq_Inr return_ok_def return_err_def
        split: if_splits)
  have "length rest = n - 1" using r by (rule read_exact_length)
  with n b assms(2) show ?thesis by (cases buf) (auto simp: copy_at_def)
qed

lemma poll_loop_bounds:
  assumes "poll_loop H addr m buf elapsed h = (Inr (n, buf'), h')" and "m \<le> length buf"
  shows "4 \<le> n \<and> n \<le> m \<and> length buf' = length buf \<and> n = unat (buf' ! 0)"
  using assms
proof (induction H addr m buf elapsed h rule: poll_loop.induct)
  case (1 H addr m buf elapsed h)
  show ?case
  proof (cases "i2c_read H addr 1 h")
    case (Pair r h1)
    show ?thesis
    proof (cases r)
      case (Inl e)
      with 1 Pair show ?thesis
        by (simp add: poll_loop.simps [of H addr m buf elapsed h] split: if_splits)
    next
      case (Inr cell)
      with 1 Pair show ?thesis
        by (intro fetch_frame_bounds [of H addr m buf "cell 0" h1])
          (simp_all add: poll_loop.simps [of H addr m buf elapsed h])
    qed
  qed
qed


section \<open>Running a command\<close>

lemma run_command_ok:
  assumes "length data \<le> 155"
  shows "run_command H op p1 p2 data ms buf =
    and_then (on_hal (\<lambda>addr. map_err Hal
        (i2c_write H addr (WORD_ADDRESS_COMMAND # command_frame op p1 p2 data)))) (\<lambda>_.
    and_then (on_hal (\<lambda>_. modify (delay_ms H ms))) (\<lambda>_. poll_for_response H buf))"
proof -
  obtain rest :: bytes where tx: "(replicate MAX_PACKET_SIZE 0)[0 := WORD_ADDRESS_COMMAND] =
      WORD_ADDRESS_COMMAND # rest" and l: "length rest = 162"
    by (cases "replicate MAX_PACKET_SIZE (0::u8)")
      (auto simp: MAX_PACKET_SIZE_def dest: arg_cong [of _ _ length])
  have "build_command_frame op p1 p2 data rest =
      Inr (7 + length data, command_frame op p1 p2 data @ drop (7 + length data) rest)"
    using assms l by (intro build_command_frame_ok) (auto simp: packet_sizes)
  then show ?thesis
    unfolding run_command_def Let_def tx by (simp add: map_err_of_result and_then_of_result)
qed

lemma run_command_too_long:
  "155 < length data \<Longrightarrow> run_command H op p1 p2 data ms buf s = (Inl BufferTooSmall, s)"
  by (simp add: run_command_def Let_def packet_sizes build_command_frame_def of_result_def
      map_err_def and_then_def)

lemma on_hal_eq:
  "on_hal m s = (r, t) \<longleftrightarrow> (\<exists>h. m (device_addr s) (hal s) = (r, h) \<and> t = s\<lparr>hal := h\<rparr>)"
  by (auto simp: on_hal_def split: prod.splits)

lemma poll_for_response_bounds:
  assumes "poll_for_response H buf s = (Inr (n, buf'), t)"
  shows "4 \<le> n \<and> n \<le> length buf' \<and> n \<le> 155 \<and> length buf' = length buf"
proof -
  from assms obtain h where
    "poll_loop H (device_addr s) (min (length buf) MAX_RESPONSE_SIZE) buf 0 (hal s) = (Inr (n, buf'), h)"
    by (auto simp: poll_for_response_def on_hal_eq)
  from poll_loop_bounds [OF this] show ?thesis by (simp add: MAX_RESPONSE_SIZE_def)
qed

lemma run_command_bounds:
  assumes "run_command H op p1 p2 data ms buf s = (Inr (n, buf'), t)"
  shows "4 \<le> n \<and> n \<le> length buf' \<and> n \<le> 155 \<and> length buf' = length buf"
proof (cases "length data \<le> 155")
  case True
  with assms show ?thesis
    by (auto simp: run_command_ok and_then_eq_Inr dest!: poll_for_response_bounds)
next
  case False
  with assms show ?thesis by (simp add: run_command_too_long)
qed

text \<open>A chip status is reported only by a parsed status frame, never by the transport.\<close>

lemma read_exact_not_Chip: "read_exact H addr n h \<noteq> (Inl (Chip e), h')"
  by (auto simp: read_exact_def and_then_def map_err_def return_ok_def split: prod.splits sum.splits)

lemma poll_loop_not_Chip: "poll_loop H addr m buf elapsed h \<noteq> (Inl (Chip e), h')"
proof (induction H addr m buf elapsed h rule: poll_loop.induct)
  case (1 H addr m buf elapsed h)
  then show ?case
    by (subst poll_loop.simps)
      (auto simp: fetch_frame_def Let_def return_err_def return_ok_def and_then_eq_Inl
        read_exact_not_Chip split: prod.splits sum.splits)
qed

lemma run_command_not_Chip: "run_command H op p1 p2 data ms buf s \<noteq> (Inl (Chip e), t)"
proof (cases "length data \<le> 155")
  case True
  then show ?thesis
    by (auto simp: run_command_ok and_then_eq_Inl poll_for_response_def on_hal_eq modify_def
        poll_loop_not_Chip map_err_def split: prod.splits sum.splits)
qed (simp add: run_command_too_long)

lemma slice_of_take_response_frame:
  assumes "take n buf = response_frame p" and "n \<le> length buf"
  shows "slice buf 1 (n - 2) = p"
proof -
  have n: "n = 3 + length p"
    using arg_cong [OF assms(1), of length] assms(2) by simp
  have "slice buf 1 (n - 2) = slice (take n buf) 1 (n - 2)"
    by (simp add: slice_def n drop_take)
  then show ?thesis using slice_response_frame [of p] by (simp add: assms(1) n [symmetric]) (simp add: n)
qed

lemma map_parse_error_not_Chip [simp]: "map_parse_error e \<noteq> Chip c" "Chip c \<noteq> map_parse_error e"
  by (cases e; simp)+

lemma execute_command_eq:
  "execute_command H op p1 p2 data ms buf s =
     (case run_command H op p1 p2 data ms buf s of
        (Inl e, t) \<Rightarrow> (Inl e, t)
      | (Inr (n, buf'), t) \<Rightarrow>
         (case parse_response_frame (take n buf') of
            Inl e \<Rightarrow> (Inl (map_parse_error e), t)
          | Inr (Payload _) \<Rightarrow> (Inr (slice buf' 1 (n - 2)), t)
          | Inr (Status b) \<Rightarrow>
             (Inl (case from_status_byte b of Some e \<Rightarrow> Chip e | None \<Rightarrow> MalformedResponse), t)))"
  by (simp add: execute_command_def and_then_def and_then_of_result map_err_of_result of_result_def
      return_ok_def return_err_def split: prod.split sum.split ResponseFrame.split option.split)

lemma parse_response_frameE:
  assumes "parse_response_frame f = Inr r"
  obtains p where "2 \<le> length p" "r = Payload p" "f = response_frame p"
    | b where "r = Status b" "f = response_frame [b]"
proof -
  from assms obtain p where p: "1 \<le> length p" "length p < 253" "f = response_frame p"
    by (rule parse_response_frame_accepts)
  with assms have r: "r = (if length p = 1 then Status (p ! 0) else Payload p)"
    using parse_response_frame_ok [of p] by simp
  show thesis
  proof (cases "length p = 1")
    case True
    then obtain b where "p = [b]" by (cases p) auto
    with r p show thesis by (intro that(2) [of b]) auto
  next
    case False
    with r p show thesis by (intro that(1) [of p]) auto
  qed
qed

lemma execute_command_cases:
  assumes "execute_command H op p1 p2 data ms buf s = (r, t)"
  obtains (transport) e where "run_command H op p1 p2 data ms buf s = (Inl e, t)" "r = Inl e"
    | (unparsed) n buf' e where "run_command H op p1 p2 data ms buf s = (Inr (n, buf'), t)"
        "parse_response_frame (take n buf') = Inl e" "r = Inl (map_parse_error e)"
    | (payload) n buf' p where "run_command H op p1 p2 data ms buf s = (Inr (n, buf'), t)"
        "take n buf' = response_frame p" "2 \<le> length p" "r = Inr p"
    | (status) n buf' b where "run_command H op p1 p2 data ms buf s = (Inr (n, buf'), t)"
        "take n buf' = response_frame [b]"
        "r = Inl (case from_status_byte b of Some e \<Rightarrow> Chip e | None \<Rightarrow> MalformedResponse)"
proof (cases "run_command H op p1 p2 data ms buf s")
  case (Pair rr t')
  show thesis
  proof (cases rr)
    case (Inl e)
    with Pair assms show thesis by (intro transport [of e]) (auto simp: execute_command_eq)
  next
    case (Inr nb)
    then obtain n buf' where run: "run_command H op p1 p2 data ms buf s = (Inr (n, buf'), t')"
      using Pair by (cases nb) auto
    show thesis
    proof (cases "parse_response_frame (take n buf')")
      case (Inl e)
      with run assms show thesis by (intro unparsed [of n buf' e]) (auto simp: execute_command_eq)
    next
      case (Inr f)
      then show thesis
      proof (cases rule: parse_response_frameE)
        case (1 p)
        moreover have "slice buf' 1 (n - 2) = p"
          using run_command_bounds [OF run] 1 by (intro slice_of_take_response_frame) auto
        ultimately show thesis using run assms Inr
          by (intro payload [of n buf' p]) (auto simp: execute_command_eq)
      next
        case (2 b)
        then show thesis using run assms Inr
          by (intro status [of n buf' b]) (auto simp: execute_command_eq)
      qed
    qed
  qed
qed

lemma execute_command_Inr:
  "execute_command H op p1 p2 data ms buf s = (Inr p, t) \<longleftrightarrow>
     (\<exists>n buf'. run_command H op p1 p2 data ms buf s = (Inr (n, buf'), t) \<and>
        take n buf' = response_frame p \<and> 2 \<le> length p)" (is "?L \<longleftrightarrow> ?R")
proof
  assume ?L
  then show ?R by (cases rule: execute_command_cases) auto
next
  assume ?R
  then obtain n buf' where r: "run_command H op p1 p2 data ms buf s = (Inr (n, buf'), t)"
    and f: "take n buf' = response_frame p" and p: "2 \<le> length p" by blast
  have b: "n \<le> length buf'" "n \<le> 155" using run_command_bounds [OF r] by auto
  have "n = 3 + length p" using arg_cong [OF f, of length] b by simp
  with b have "length p < 253" by simp
  then show ?L using r slice_of_take_response_frame [OF f b(1)] parse_response_frame_ok [of p] p
    by (simp add: execute_command_eq f)
qed

lemma execute_command_Chip:
  "execute_command H op p1 p2 data ms buf s = (Inl (Chip e), t) \<longleftrightarrow>
     (\<exists>n buf' b. run_command H op p1 p2 data ms buf s = (Inr (n, buf'), t) \<and>
        take n buf' = response_frame [b] \<and> from_status_byte b = Some e)" (is "?L \<longleftrightarrow> ?R")
proof
  assume ?L
  then show ?R
    by (cases rule: execute_command_cases)
      (auto simp: run_command_not_Chip split: option.splits)
next
  assume ?R
  then show ?L using parse_response_frame_ok [of "[_]"] by (auto simp: execute_command_eq)
qed

lemma execute_command_status_eq:
  "execute_command_status H op p1 p2 data ms s =
     (case run_command H op p1 p2 data ms (replicate 4 0) s of
        (Inl e, t) \<Rightarrow> (Inl e, t)
      | (Inr (n, buf'), t) \<Rightarrow>
         (case parse_response_frame buf' of
            Inl e \<Rightarrow> (Inl (map_parse_error e), t)
          | Inr (Payload _) \<Rightarrow> (Inl MalformedResponse, t)
          | Inr (Status b) \<Rightarrow>
             (case from_status_byte b of Some e \<Rightarrow> (Inl (Chip e), t) | None \<Rightarrow> (Inr (), t))))"
proof (cases "run_command H op p1 p2 data ms (replicate 4 0) s")
  case (Pair r t)
  show ?thesis
  proof (cases r)
    case (Inr nb)
    then obtain n buf' where run: "run_command H op p1 p2 data ms (replicate 4 0) s = (Inr (n, buf'), t)"
      using Pair by (cases nb) auto
    from run_command_bounds [OF this] have "n = 4" "take 4 buf' = buf'" by simp_all
    then show ?thesis using run
      by (simp add: execute_command_status_def STATUS_RESPONSE_LEN_def and_then_def
          and_then_of_result map_err_of_result of_result_def return_ok_def return_err_def
          split: prod.split sum.split ResponseFrame.split option.split)
  qed (use Pair in \<open>simp add: execute_command_status_def STATUS_RESPONSE_LEN_def and_then_def\<close>)
qed

lemma execute_command_status_Inr:
  "execute_command_status H op p1 p2 data ms s = (Inr (), t) \<longleftrightarrow>
     run_command H op p1 p2 data ms (replicate 4 0) s = (Inr (4, response_frame [0]), t)"
    (is "?L \<longleftrightarrow> ?R")
proof
  assume ?L
  then obtain n buf' where r: "run_command H op p1 p2 data ms (replicate 4 0) s = (Inr (n, buf'), t)"
    and q: "parse_response_frame buf' = Inr (Status 0)"
    by (auto simp: execute_command_status_eq
        split: prod.splits sum.splits ResponseFrame.splits option.splits)
  from q have "buf' = response_frame [0]" by (cases rule: parse_response_frameE) auto
  with r run_command_bounds [OF r] show ?R by simp
next
  assume ?R
  then show ?L using parse_response_frame_ok [of "[0]"] by (simp add: execute_command_status_eq)
qed

lemma execute_command_status_Chip:
  "execute_command_status H op p1 p2 data ms s = (Inl (Chip e), t) \<longleftrightarrow>
     (\<exists>b. run_command H op p1 p2 data ms (replicate 4 0) s = (Inr (4, response_frame [b]), t) \<and>
        from_status_byte b = Some e)"
    (is "?L \<longleftrightarrow> ?R")
proof
  assume ?L
  then obtain n buf' b where r: "run_command H op p1 p2 data ms (replicate 4 0) s = (Inr (n, buf'), t)"
    and q: "parse_response_frame buf' = Inr (Status b)" and b: "from_status_byte b = Some e"
    by (auto simp: execute_command_status_eq run_command_not_Chip
        split: prod.splits sum.splits ResponseFrame.splits option.splits)
  from q have "buf' = response_frame [b]" by (cases rule: parse_response_frameE) auto
  with r b run_command_bounds [OF r] show ?R by auto
next
  assume ?R
  then show ?L using parse_response_frame_ok [of "[_]"] by (auto simp: execute_command_status_eq)
qed

lemma fetch_frame_delivers:
  assumes "i2c_read H addr (2 + length p) h = (Inr cell, h')"
    and "map cell [0..<2 + length p] = tl (response_frame p)"
    and "1 \<le> length p" and "3 + length p \<le> m" and "m \<le> length buf" and "length p \<le> 152"
  shows "\<exists>buf'. fetch_frame H addr m buf (of_nat (3 + length p)) h = (Inr (3 + length p, buf'), h') \<and>
    take (3 + length p) buf' = response_frame p"
proof -
  have u: "unat (of_nat (3 + length p) :: u8) = 3 + length p"
    using assms(6) by (intro unat_of_nat_u8) simp
  let ?buf = "copy_at (buf[0 := of_nat (3 + length p)]) 1 (tl (response_frame p))"
  have "read_exact H addr (3 + length p - 1) h = (Inr (tl (response_frame p)), h')"
    using assms(1,2) by (simp add: read_exact_def and_then_def map_err_def return_ok_def)
  then have "fetch_frame H addr m buf (of_nat (3 + length p)) h = (Inr (3 + length p, ?buf), h')"
    using assms(3,4) unfolding fetch_frame_def Let_def u
    by (cases p) (simp_all add: and_then_def return_ok_def)
  moreover have "take (3 + length p) ?buf = response_frame p"
  proof -
    obtain b bs where "buf = b # bs" using assms(4,5) by (cases buf) auto
    moreover obtain r where r: "response_frame p = of_nat (3 + length p) # r"
      by (simp add: response_frame_def with_crc_def add.commute)
    moreover have "length r = 2 + length p" using arg_cong [OF r, of length] by simp
    ultimately show ?thesis by (simp add: copy_at_def r numeral_3_eq_3)
  qed
  ultimately show ?thesis by blast
qed

lemma run_command_answers:
  assumes "length data \<le> 155"
    and "i2c_write H addr (WORD_ADDRESS_COMMAND # command_frame op p1 p2 data) h0 = (Inr (), h1)"
    and "k \<le> 1250" and "\<forall>i<k. refuses H addr ((poll_round H addr ^^ i) (delay_ms H ms h1))"
    and "i2c_read H addr 1 ((poll_round H addr ^^ k) (delay_ms H ms h1)) = (Inr c, h2)"
    and "c 0 = of_nat (3 + length p)"
    and "i2c_read H addr (2 + length p) h2 = (Inr cell, h3)"
    and "map cell [0..<2 + length p] = tl (response_frame p)"
    and "1 \<le> length p" and "length p \<le> 152" and "3 + length p \<le> length buf"
  shows "\<exists>buf'. run_command H op p1 p2 data ms buf \<lparr>hal = h0, device_addr = addr\<rparr> =
      (Inr (3 + length p, buf'), \<lparr>hal = h3, device_addr = addr\<rparr>) \<and>
    take (3 + length p) buf' = response_frame p"
proof -
  let ?m = "min (length buf) MAX_RESPONSE_SIZE"
  obtain buf' where b: "fetch_frame H addr ?m buf (of_nat (3 + length p)) h2 =
      (Inr (3 + length p, buf'), h3)" "take (3 + length p) buf' = response_frame p"
    using fetch_frame_delivers [OF assms(7,8), of ?m buf] assms(9-11)
    by (auto simp: MAX_RESPONSE_SIZE_def)
  have "poll_loop H addr ?m buf 0 (delay_ms H ms h1) = (Inr (3 + length p, buf'), h3)"
    using poll_loop_ready [OF assms(4,3,5), of ?m buf] b(1) by (simp only: assms(6))
  with assms(2) b(2) show ?thesis
    by (simp add: run_command_ok [OF assms(1)] on_hal_def map_err_def modify_def and_then_def poll_for_response_def)
qed

section \<open>A scripted backend\<close>

text \<open>
  A concrete backend in the manner of the crate's integration tests: a read takes the
  next canned reply (\<open>None\<close> is a refused read, as is reading past the end) and every
  operation is recorded.
\<close>

datatype HalOp =
  I2cWrite u8 bytes
| I2cRead u8 nat
| PulseSdaLow u32
| DelayUs u32
| DelayMs u32

record scripted =
  replies :: "bytes option list"
  trace :: "HalOp list"

definition record_op :: "HalOp \<Rightarrow> scripted \<Rightarrow> scripted" where
  "record_op oper s = s\<lparr>trace := trace s @ [oper]\<rparr>"

definition canned :: "bytes \<Rightarrow> nat \<Rightarrow> u8" where
  "canned bs i = (if i < length bs then bs ! i else 0)"

definition scripted_read :: "u8 \<Rightarrow> nat \<Rightarrow> (scripted, unit, nat \<Rightarrow> u8) act" where
  "scripted_read addr n s =
     (let s' = record_op (I2cRead addr n) s in
      case replies s of
        Some bs # rs \<Rightarrow> (Inr (canned bs), s'\<lparr>replies := rs\<rparr>)
      | None # rs \<Rightarrow> (Inl (), s'\<lparr>replies := rs\<rparr>)
      | [] \<Rightarrow> (Inl (), s'))"

definition scripted_hal :: "(scripted, unit) AteccHal" where
  "scripted_hal =
     \<lparr>i2c_write = (\<lambda>addr data s. (Inr (), record_op (I2cWrite addr data) s)),
      i2c_read = scripted_read,
      pulse_sda_low = (\<lambda>us s. (Inr (), record_op (PulseSdaLow us) s)),
      delay_us = (\<lambda>us. record_op (DelayUs us)),
      delay_ms = (\<lambda>ms. record_op (DelayMs ms))\<rparr>"

definition scripted_chip :: "bytes option list \<Rightarrow> scripted" where
  "scripted_chip rs = \<lparr>replies = rs, trace = []\<rparr>"

lemmas scripted_defs = scripted_hal_def scripted_read_def scripted_chip_def record_op_def canned_def

lemma scripted_delivers:
  assumes "replies h = Some bs # rs"
  shows "i2c_read scripted_hal addr n h = (Inr (canned bs), snd (scripted_read addr n h))"
    and "replies (snd (scripted_read addr n h)) = rs"
  using assms by (simp_all add: scripted_hal_def scripted_read_def Let_def record_op_def)

lemma scripted_silent:
  "replies h = [] \<Longrightarrow> refuses scripted_hal addr h"
  "replies h = [] \<Longrightarrow> replies (poll_round scripted_hal addr h) = []"
  by (simp_all add: refuses_def poll_round_def scripted_defs Let_def)

lemma scripted_silent_rounds:
  "replies h = [] \<Longrightarrow> replies ((poll_round scripted_hal addr ^^ i) h) = []"
  by (induction i) (auto simp: scripted_silent)

section \<open>Properties\<close>

text \<open>
  C19. A command round trip over an arbitrary backend. The command frame is written after
  the command word address, the driver waits the nominal time, and the chip refuses up
  to 1250 polls before it delivers the response frame of a payload \<open>p\<close> (count byte,
  then the rest). Then \<open>execute_command\<close> returns exactly \<open>p\<close>, having performed no
  other bus operation.
\<close>

theorem execute_command_round_trip:
  assumes "length data \<le> 155"
    and "i2c_write H addr (0x03 # command_frame op p1 p2 data) h0 = (Inr (), h1)"
    and "k \<le> 1250" and "\<forall>i<k. refuses H addr ((poll_round H addr ^^ i) (delay_ms H ms h1))"
    and "i2c_read H addr 1 ((poll_round H addr ^^ k) (delay_ms H ms h1)) = (Inr c, h2)"
    and "c 0 = of_nat (3 + length p)"
    and "i2c_read H addr (2 + length p) h2 = (Inr cell, h3)"
    and "map cell [0..<2 + length p] = tl (response_frame p)"
    and "2 \<le> length p" and "length p \<le> 152" and "3 + length p \<le> length buf"
  shows "execute_command H op p1 p2 data ms buf \<lparr>hal = h0, device_addr = addr\<rparr> =
    (Inr p, \<lparr>hal = h3, device_addr = addr\<rparr>)"
  using run_command_answers [OF assms(1-3) [folded WORD_ADDRESS_COMMAND_def] assms(4-8) _ assms(10,11)] assms(9)
  by (auto simp: execute_command_Inr)

theorem execute_command_round_trip_witness:
  "let p = [0x00, 0x00, 0x60, 0x02];
       s = scripted_chip [None, None, Some [7], Some (tl (response_frame p))]
   in fst (execute_command scripted_hal 0x30 0 0 [] 5 (replicate 7 0)
             \<lparr>hal = s, device_addr = 0x60\<rparr>) = Inr p"
proof -
  let ?p = "[0x00, 0x00, 0x60, 0x02] :: bytes"
  let ?h0 = "scripted_chip [None, None, Some [7], Some (tl (response_frame ?p))]"
  let ?h1 = "record_op (I2cWrite 0x60 (0x03 # command_frame 0x30 0 0 [])) ?h0"
  let ?w = "delay_ms scripted_hal 5 ?h1"
  let ?r = "(poll_round scripted_hal 0x60 ^^ 2) ?w"
  have r2: "replies ?r = [Some [7], Some (tl (response_frame ?p))]"
    and busy: "\<forall>i<2. refuses scripted_hal 0x60 ((poll_round scripted_hal 0x60 ^^ i) ?w)"
    by (simp_all add: numeral_2_eq_2 less_Suc_eq all_conj_distrib poll_round_def refuses_def
        scripted_defs Let_def)
  let ?h2 = "snd (scripted_read 0x60 1 ?r)"
  have c: "i2c_read scripted_hal 0x60 1 ?r = (Inr (canned [7]), ?h2)"
    and h2: "replies ?h2 = [Some (tl (response_frame ?p))]"
    by (rule scripted_delivers [OF r2])+
  let ?h3 = "snd (scripted_read 0x60 (2 + length ?p) ?h2)"
  have d: "i2c_read scripted_hal 0x60 (2 + length ?p) ?h2 = (Inr (canned (tl (response_frame ?p))), ?h3)"
    by (rule scripted_delivers(1) [OF h2])
  have m: "map (canned (tl (response_frame ?p))) [0..<2 + length ?p] = tl (response_frame ?p)"
    by (rule nth_equalityI) (auto simp: canned_def)
  have "execute_command scripted_hal 0x30 0 0 [] 5 (replicate 7 0) \<lparr>hal = ?h0, device_addr = 0x60\<rparr> =
      (Inr ?p, \<lparr>hal = ?h3, device_addr = 0x60\<rparr>)"
    by (rule execute_command_round_trip [OF _ _ _ busy c _ d m])
      (simp_all add: scripted_hal_def canned_def)
  then show ?thesis by (simp add: Let_def)
qed

text \<open>
  C20. A chip that never answers: when every poll is refused, the loop gives up with
  \<open>Timeout\<close> after exactly 1251 reads and 1250 waits of 2 ms, whatever the backend. The
  loop is total: its termination is part of its definition.
\<close>

theorem poll_for_response_timeout:
  assumes "\<forall>i\<le>1250. refuses H addr ((poll_round H addr ^^ i) h)"
  shows "poll_for_response H buf \<lparr>hal = h, device_addr = addr\<rparr> =
    (Inl Timeout,
     \<lparr>hal = snd (i2c_read H addr 1 ((poll_round H addr ^^ 1250) h)), device_addr = addr\<rparr>)"
  using poll_loop_timeout [OF assms] by (simp add: poll_for_response_def on_hal_def)

theorem poll_for_response_timeout_witness:
  "fst (poll_for_response scripted_hal [0, 0, 0, 0] \<lparr>hal = scripted_chip [], device_addr = 0x60\<rparr>) =
     Inl Timeout"
proof -
  have "\<forall>i\<le>1250. refuses scripted_hal 0x60 ((poll_round scripted_hal 0x60 ^^ i) (scripted_chip []))"
    by (simp add: scripted_silent scripted_silent_rounds scripted_chip_def)
  from poll_for_response_timeout [OF this] show ?thesis by simp
qed

text \<open>
  C21. What the outcomes of a command mean. A payload is returned exactly when the bytes
  read are the response frame of that payload, a chip error exactly when they are a
  one-byte status frame carrying that error's byte. A command that answers with a status
  only succeeds exactly on the success frame and reports a chip error exactly on the frame
  of another status, that of its byte. So neither data nor a chip verdict is ever taken from a
  frame whose length byte or CRC is wrong.
\<close>

theorem execute_command_outcomes:
  "(execute_command H op p1 p2 data ms buf s = (Inr p, t) \<longleftrightarrow>
     (\<exists>n buf'. run_command H op p1 p2 data ms buf s = (Inr (n, buf'), t) \<and>
        take n buf' = response_frame p \<and> 2 \<le> length p)) \<and>
   (execute_command H op p1 p2 data ms buf s = (Inl (Chip e), t) \<longleftrightarrow>
     (\<exists>n buf' b. run_command H op p1 p2 data ms buf s = (Inr (n, buf'), t) \<and>
        take n buf' = response_frame [b] \<and> from_status_byte b = Some e)) \<and>
   (execute_command_status H op p1 p2 data ms s = (Inr (), t) \<longleftrightarrow>
     run_command H op p1 p2 data ms (replicate 4 0) s = (Inr (4, response_frame [0]), t)) \<and>
   (execute_command_status H op p1 p2 data ms s = (Inl (Chip e), t) \<longleftrightarrow>
     (\<exists>b. run_command H op p1 p2 data ms (replicate 4 0) s = (Inr (4, response_frame [b]), t) \<and>
        from_status_byte b = Some e))"
  by (simp only: execute_command_Inr execute_command_Chip execute_command_status_Inr execute_command_status_Chip)

end
