(* ===== verification/Atecc_Commands.thy ===== *)
theory Atecc_Commands
  imports Driver
begin

text \<open>
  The typed commands of the secure element: \<^verbatim>\<open>slot.rs\<close>, the opcodes and
  execution times of \<^verbatim>\<open>opcodes.rs\<close>, and every module of
  \<^verbatim>\<open>src/crates/atecc608b/src/command\<close>. Each method of the channel is one
  definition over the skeleton of theory \<open>Driver\<close>. The lemmas give the wire frame each
  command sends, the exact size of what each returns, and the addressing bit fields.
\<close>

unbundle bit_operations_syntax

section \<open>Slots (slot.rs)\<close>

datatype Slot = Slot (slot_as_u8: u8)

definition SLOT_COUNT :: u8 where "SLOT_COUNT = 16"

definition Slot_new :: "u8 \<Rightarrow> Slot option" where
  "Slot_new index = (if index < SLOT_COUNT then Some (Slot index) else None)"

text \<open>The constructor for constants: \<open>None\<close> is the failed assertion, which stops the compiler.\<close>

definition Slot_const_new :: "u8 \<Rightarrow> Slot option" where
  "Slot_const_new index = (if \<not> index < SLOT_COUNT then None else Some (Slot index))"

definition slot_param2 :: "Slot \<Rightarrow> u16" where
  "slot_param2 slot = ucast (slot_as_u8 slot)"

section \<open>Opcodes and nominal execution times (opcodes.rs)\<close>

definition OP_INFO :: u8 where "OP_INFO = 0x30"
definition OP_RANDOM :: u8 where "OP_RANDOM = 0x1B"
definition OP_READ :: u8 where "OP_READ = 0x02"
definition OP_WRITE :: u8 where "OP_WRITE = 0x12"
definition OP_LOCK :: u8 where "OP_LOCK = 0x17"
definition OP_NONCE :: u8 where "OP_NONCE = 0x16"
definition OP_GENKEY :: u8 where "OP_GENKEY = 0x40"
definition OP_SIGN :: u8 where "OP_SIGN = 0x41"
definition OP_VERIFY :: u8 where "OP_VERIFY = 0x45"
definition OP_PRIVWRITE :: u8 where "OP_PRIVWRITE = 0x46"
definition OP_COUNTER :: u8 where "OP_COUNTER = 0x24"
definition OP_CHECKMAC :: u8 where "OP_CHECKMAC = 0x28"
definition OP_GENDIG :: u8 where "OP_GENDIG = 0x15"

definition EXEC_TIME_INFO_MS :: u32 where "EXEC_TIME_INFO_MS = 5"
definition EXEC_TIME_RANDOM_MS :: u32 where "EXEC_TIME_RANDOM_MS = 23"
definition EXEC_TIME_READ_MS :: u32 where "EXEC_TIME_READ_MS = 5"
definition EXEC_TIME_WRITE_MS :: u32 where "EXEC_TIME_WRITE_MS = 45"
definition EXEC_TIME_LOCK_MS :: u32 where "EXEC_TIME_LOCK_MS = 35"
definition EXEC_TIME_NONCE_MS :: u32 where "EXEC_TIME_NONCE_MS = 20"
definition EXEC_TIME_GENKEY_MS :: u32 where "EXEC_TIME_GENKEY_MS = 215"
definition EXEC_TIME_SIGN_MS :: u32 where "EXEC_TIME_SIGN_MS = 220"
definition EXEC_TIME_VERIFY_MS :: u32 where "EXEC_TIME_VERIFY_MS = 295"
definition EXEC_TIME_PRIVWRITE_MS :: u32 where "EXEC_TIME_PRIVWRITE_MS = 50"
definition EXEC_TIME_COUNTER_MS :: u32 where "EXEC_TIME_COUNTER_MS = 25"
definition EXEC_TIME_CHECKMAC_MS :: u32 where "EXEC_TIME_CHECKMAC_MS = 40"
definition EXEC_TIME_GENDIG_MS :: u32 where "EXEC_TIME_GENDIG_MS = 25"

lemmas opcode_defs = OP_INFO_def OP_RANDOM_def OP_READ_def OP_WRITE_def OP_LOCK_def OP_NONCE_def
  OP_GENKEY_def OP_SIGN_def OP_VERIFY_def OP_PRIVWRITE_def OP_COUNTER_def OP_CHECKMAC_def
  OP_GENDIG_def

text \<open>\<open>payload.try_into().map_err(|_| MalformedResponse)\<close> for an array of \<open>n\<close> bytes.\<close>

definition try_into_array :: "nat \<Rightarrow> bytes \<Rightarrow> 'e AteccError + bytes" where
  "try_into_array n payload =
     (if length payload \<noteq> n then Inl MalformedResponse else Inr payload)"

section \<open>Info and Random\<close>

definition INFO_MODE_REVISION :: u8 where "INFO_MODE_REVISION = 0x00"

definition info_revision :: "('h, 'e) AteccHal \<Rightarrow> ('h, 'e, bytes) chan" where
  "info_revision H =
     and_then (execute_command H OP_INFO INFO_MODE_REVISION 0x0000 [] EXEC_TIME_INFO_MS
                 (replicate 7 0))
       (\<lambda>payload. if length payload \<noteq> 4 then return_err MalformedResponse
                  else return_ok (copy_at (replicate 4 0) 0 payload))"

definition RANDOM_OUTPUT_LEN :: nat where "RANDOM_OUTPUT_LEN = 32"

definition random :: "('h, 'e) AteccHal \<Rightarrow> ('h, 'e, bytes) chan" where
  "random H =
     and_then (execute_command H OP_RANDOM 0x00 0x0000 [] EXEC_TIME_RANDOM_MS (replicate 35 0))
       (\<lambda>payload. if length payload \<noteq> RANDOM_OUTPUT_LEN then return_err MalformedResponse
                  else return_ok (copy_at (replicate RANDOM_OUTPUT_LEN 0) 0 payload))"

section \<open>CheckMac\<close>

definition CHECKMAC_CHALLENGE_SIZE :: nat where "CHECKMAC_CHALLENGE_SIZE = 32"
definition CHECKMAC_CLIENT_RESPONSE_SIZE :: nat where "CHECKMAC_CLIENT_RESPONSE_SIZE = 32"
definition CHECKMAC_OTHER_DATA_SIZE :: nat where "CHECKMAC_OTHER_DATA_SIZE = 13"
definition CHECKMAC_DATA_SIZE :: nat where
  "CHECKMAC_DATA_SIZE =
     CHECKMAC_CHALLENGE_SIZE + CHECKMAC_CLIENT_RESPONSE_SIZE + CHECKMAC_OTHER_DATA_SIZE"
definition CHECKMAC_MODE_CHALLENGE :: u8 where "CHECKMAC_MODE_CHALLENGE = 0x00"

lemmas checkmac_sizes = CHECKMAC_CHALLENGE_SIZE_def CHECKMAC_CLIENT_RESPONSE_SIZE_def
  CHECKMAC_OTHER_DATA_SIZE_def CHECKMAC_DATA_SIZE_def

text \<open>
  The \<open>match result\<close> that CheckMac and Verify share: success is \<open>true\<close>, the chip's
  mismatch status is \<open>false\<close>, any other error stays an error.
\<close>

definition verdict :: "'e AteccError + unit \<Rightarrow> 'e AteccError + bool" where
  "verdict result =
     (case result of
        Inr _ \<Rightarrow> Inr True
      | Inl e \<Rightarrow> (case e of Chip CheckMacOrVerifyFailed \<Rightarrow> Inr False | _ \<Rightarrow> Inl e))"

definition checkmac ::
  "('h, 'e) AteccHal \<Rightarrow> Slot \<Rightarrow> bytes \<Rightarrow> bytes \<Rightarrow> bytes \<Rightarrow> ('h, 'e, bool) chan" where
  "checkmac H slot challenge client_resp other_data =
     (let data = replicate CHECKMAC_DATA_SIZE 0;
          data = copy_at data 0 challenge;
          data = copy_at data CHECKMAC_CHALLENGE_SIZE client_resp;
          data = copy_at data (CHECKMAC_CHALLENGE_SIZE + CHECKMAC_CLIENT_RESPONSE_SIZE) other_data
      in and_then (attempt (execute_command_status H OP_CHECKMAC CHECKMAC_MODE_CHALLENGE
                              (slot_param2 slot) data EXEC_TIME_CHECKMAC_MS))
           (\<lambda>result. of_result (verdict result)))"

section \<open>Counter\<close>

definition COUNTER_MODE_READ :: u8 where "COUNTER_MODE_READ = 0x00"
definition COUNTER_MODE_INCREMENT :: u8 where "COUNTER_MODE_INCREMENT = 0x01"

datatype CounterId = Counter0 | Counter1

fun counter_as_param2 :: "CounterId \<Rightarrow> u16" where
  "counter_as_param2 Counter0 = 0x0000"
| "counter_as_param2 Counter1 = 0x0001"

definition counter_internal ::
  "('h, 'e) AteccHal \<Rightarrow> u8 \<Rightarrow> CounterId \<Rightarrow> ('h, 'e, u32) chan" where
  "counter_internal H mode counter =
     and_then (execute_command H OP_COUNTER mode (counter_as_param2 counter) []
                 EXEC_TIME_COUNTER_MS (replicate (1 + 4 + 2) 0)) (\<lambda>payload.
     and_then (of_result (try_into_array 4 payload)) (\<lambda>bytes.
       return_ok (u32_from_le_bytes bytes)))"

definition counter_read :: "('h, 'e) AteccHal \<Rightarrow> CounterId \<Rightarrow> ('h, 'e, u32) chan" where
  "counter_read H counter = counter_internal H COUNTER_MODE_READ counter"

definition counter_increment :: "('h, 'e) AteccHal \<Rightarrow> CounterId \<Rightarrow> ('h, 'e, u32) chan" where
  "counter_increment H counter = counter_internal H COUNTER_MODE_INCREMENT counter"

section \<open>GenDig and GenKey\<close>

datatype GenDigZone = GenDigConfig | GenDigOtp | GenDigData

fun gendig_as_param1 :: "GenDigZone \<Rightarrow> u8" where
  "gendig_as_param1 GenDigConfig = 0x00"
| "gendig_as_param1 GenDigOtp = 0x01"
| "gendig_as_param1 GenDigData = 0x02"

definition gendig :: "('h, 'e) AteccHal \<Rightarrow> GenDigZone \<Rightarrow> u16 \<Rightarrow> ('h, 'e, unit) chan" where
  "gendig H zone key_id =
     execute_command_status H OP_GENDIG (gendig_as_param1 zone) key_id [] EXEC_TIME_GENDIG_MS"

definition PUBLIC_KEY_SIZE :: nat where "PUBLIC_KEY_SIZE = 64"
definition GENKEY_MODE_CREATE :: u8 where "GENKEY_MODE_CREATE = 0x04"
definition GENKEY_MODE_PUBLIC :: u8 where "GENKEY_MODE_PUBLIC = 0x00"

definition genkey_internal :: "('h, 'e) AteccHal \<Rightarrow> u8 \<Rightarrow> Slot \<Rightarrow> ('h, 'e, bytes) chan" where
  "genkey_internal H mode slot =
     and_then (execute_command H OP_GENKEY mode (slot_param2 slot) [] EXEC_TIME_GENKEY_MS
                 (replicate (1 + PUBLIC_KEY_SIZE + 2) 0)) (\<lambda>payload.
       of_result (try_into_array PUBLIC_KEY_SIZE payload))"

definition genkey_create :: "('h, 'e) AteccHal \<Rightarrow> Slot \<Rightarrow> ('h, 'e, bytes) chan" where
  "genkey_create H slot = genkey_internal H GENKEY_MODE_CREATE slot"

definition genkey_public :: "('h, 'e) AteccHal \<Rightarrow> Slot \<Rightarrow> ('h, 'e, bytes) chan" where
  "genkey_public H slot = genkey_internal H GENKEY_MODE_PUBLIC slot"

section \<open>Lock\<close>

definition LOCK_MODE_CONFIG_ZONE_VERIFY_CRC :: u8 where "LOCK_MODE_CONFIG_ZONE_VERIFY_CRC = 0x00"
definition LOCK_MODE_DATA_ZONE_NO_CRC :: u8 where "LOCK_MODE_DATA_ZONE_NO_CRC = 0x81"
definition LOCK_MODE_SLOT_NO_CRC_BASE :: u8 where "LOCK_MODE_SLOT_NO_CRC_BASE = 0x82"

definition lock_config_zone :: "('h, 'e) AteccHal \<Rightarrow> u16 \<Rightarrow> ('h, 'e, unit) chan" where
  "lock_config_zone H expected_crc =
     execute_command_status H OP_LOCK LOCK_MODE_CONFIG_ZONE_VERIFY_CRC expected_crc []
       EXEC_TIME_LOCK_MS"

definition lock_data_zone :: "('h, 'e) AteccHal \<Rightarrow> ('h, 'e, unit) chan" where
  "lock_data_zone H =
     execute_command_status H OP_LOCK LOCK_MODE_DATA_ZONE_NO_CRC 0x0000 [] EXEC_TIME_LOCK_MS"

definition lock_slot_mode :: "Slot \<Rightarrow> u8" where
  "lock_slot_mode slot = LOCK_MODE_SLOT_NO_CRC_BASE OR push_bit 2 (slot_as_u8 slot AND 0x0F)"

definition lock_slot :: "('h, 'e) AteccHal \<Rightarrow> Slot \<Rightarrow> ('h, 'e, unit) chan" where
  "lock_slot H slot =
     execute_command_status H OP_LOCK (lock_slot_mode slot) 0x0000 [] EXEC_TIME_LOCK_MS"

section \<open>Nonce\<close>

definition NONCE_NUMIN_SIZE :: nat where "NONCE_NUMIN_SIZE = 20"
definition NONCE_NUMOUT_SIZE :: nat where "NONCE_NUMOUT_SIZE = 32"
definition NONCE_PASSTHROUGH_SIZE :: nat where "NONCE_PASSTHROUGH_SIZE = 32"
definition NONCE_MODE_RANDOM :: u8 where "NONCE_MODE_RANDOM = 0x00"
definition NONCE_MODE_PASSTHROUGH :: u8 where "NONCE_MODE_PASSTHROUGH = 0x03"
definition NONCE_TARGET_TEMPKEY :: u8 where "NONCE_TARGET_TEMPKEY = 0x00"
definition NONCE_TARGET_MSGDIGBUF :: u8 where "NONCE_TARGET_MSGDIGBUF = 0x40"

datatype NonceTarget = TempKey | MsgDigBuf

fun nonce_as_param1_bits :: "NonceTarget \<Rightarrow> u8" where
  "nonce_as_param1_bits TempKey = NONCE_TARGET_TEMPKEY"
| "nonce_as_param1_bits MsgDigBuf = NONCE_TARGET_MSGDIGBUF"

definition nonce_random :: "('h, 'e) AteccHal \<Rightarrow> bytes \<Rightarrow> ('h, 'e, bytes) chan" where
  "nonce_random H num_in =
     and_then (execute_command H OP_NONCE NONCE_MODE_RANDOM 0x0000 num_in EXEC_TIME_NONCE_MS
                 (replicate (1 + NONCE_NUMOUT_SIZE + 2) 0)) (\<lambda>payload.
       of_result (try_into_array NONCE_NUMOUT_SIZE payload))"

definition nonce_passthrough ::
  "('h, 'e) AteccHal \<Rightarrow> NonceTarget \<Rightarrow> bytes \<Rightarrow> ('h, 'e, unit) chan" where
  "nonce_passthrough H target value =
     execute_command_status H OP_NONCE (NONCE_MODE_PASSTHROUGH OR nonce_as_param1_bits target)
       0x0000 value EXEC_TIME_NONCE_MS"

section \<open>PrivWrite\<close>

definition PRIVWRITE_CLEARTEXT_SIZE :: nat where "PRIVWRITE_CLEARTEXT_SIZE = 36"
definition PRIVWRITE_MODE_CLEARTEXT :: u8 where "PRIVWRITE_MODE_CLEARTEXT = 0x00"

definition privwrite_cleartext ::
  "('h, 'e) AteccHal \<Rightarrow> Slot \<Rightarrow> bytes \<Rightarrow> ('h, 'e, unit) chan" where
  "privwrite_cleartext H slot private_key =
     execute_command_status H OP_PRIVWRITE PRIVWRITE_MODE_CLEARTEXT (slot_param2 slot)
       (copy_at (replicate PRIVWRITE_CLEARTEXT_SIZE 0) 4 private_key) EXEC_TIME_PRIVWRITE_MS"

section \<open>Read and Write\<close>

datatype Zone = ZoneConfig | ZoneOtp | ZoneData

fun zone_as_param1_bits :: "Zone \<Rightarrow> u8" where
  "zone_as_param1_bits ZoneConfig = 0x00"
| "zone_as_param1_bits ZoneOtp = 0x01"
| "zone_as_param1_bits ZoneData = 0x02"

definition CONFIG_ZONE_BLOCK_COUNT :: nat where "CONFIG_ZONE_BLOCK_COUNT = 4"
definition CONFIG_ZONE_SIZE :: nat where "CONFIG_ZONE_SIZE = 128"
definition BLOCK_SIZE :: nat where "BLOCK_SIZE = 32"
definition WORD_SIZE :: nat where "WORD_SIZE = 4"
definition ENCRYPTED_WRITE_MAC_SIZE :: nat where "ENCRYPTED_WRITE_MAC_SIZE = 32"
definition ENCRYPTED_WRITE_DATA_SIZE :: nat where
  "ENCRYPTED_WRITE_DATA_SIZE = BLOCK_SIZE + ENCRYPTED_WRITE_MAC_SIZE"
definition PARAM1_FLAG_32_BYTES :: u8 where "PARAM1_FLAG_32_BYTES = 0x80"
definition PARAM1_FLAG_ENCRYPTED :: u8 where "PARAM1_FLAG_ENCRYPTED = 0x40"

definition config_or_otp_address :: "u8 \<Rightarrow> u8 \<Rightarrow> u16" where
  "config_or_otp_address block offset_words =
     (let block_bits = push_bit 3 (ucast (block AND 0x03));
          offset_bits = ucast (offset_words AND 0x07)
      in block_bits OR offset_bits)"

definition data_address :: "Slot \<Rightarrow> u8 \<Rightarrow> u8 \<Rightarrow> u16" where
  "data_address slot block offset_words =
     (let block_bits = push_bit 8 (ucast block);
          slot_bits = push_bit 3 (ucast (slot_as_u8 slot AND 0x1F));
          offset_bits = ucast (offset_words AND 0x07)
      in block_bits OR slot_bits OR offset_bits)"

definition read_param1 :: "Zone \<Rightarrow> bool \<Rightarrow> u8" where
  "read_param1 zone is_32_bytes =
     (let flag = if is_32_bytes then PARAM1_FLAG_32_BYTES else 0
      in zone_as_param1_bits zone OR flag)"

definition write_param1 :: "Zone \<Rightarrow> bool \<Rightarrow> bool \<Rightarrow> u8" where
  "write_param1 zone is_32_bytes encrypted =
     (let p1 = zone_as_param1_bits zone;
          p1 = (if is_32_bytes then p1 OR PARAM1_FLAG_32_BYTES else p1);
          p1 = (if encrypted then p1 OR PARAM1_FLAG_ENCRYPTED else p1)
      in p1)"

definition read_4 :: "('h, 'e) AteccHal \<Rightarrow> Zone \<Rightarrow> u16 \<Rightarrow> ('h, 'e, bytes) chan" where
  "read_4 H zone address =
     and_then (execute_command H OP_READ (read_param1 zone False) address [] EXEC_TIME_READ_MS
                 (replicate (1 + WORD_SIZE + 2) 0)) (\<lambda>payload.
       of_result (try_into_array WORD_SIZE payload))"

definition read_32 :: "('h, 'e) AteccHal \<Rightarrow> Zone \<Rightarrow> u16 \<Rightarrow> ('h, 'e, bytes) chan" where
  "read_32 H zone address =
     and_then (execute_command H OP_READ (read_param1 zone True) address [] EXEC_TIME_READ_MS
                 (replicate (1 + BLOCK_SIZE + 2) 0)) (\<lambda>payload.
       of_result (try_into_array BLOCK_SIZE payload))"

fun read_config_blocks ::
  "('h, 'e) AteccHal \<Rightarrow> nat list \<Rightarrow> bytes \<Rightarrow> ('h, 'e, bytes) chan" where
  "read_config_blocks H [] out = return_ok out"
| "read_config_blocks H (block # blocks) out =
     and_then (read_32 H ZoneConfig (config_or_otp_address (of_nat block) 0)) (\<lambda>chunk.
       read_config_blocks H blocks (copy_at out (block * BLOCK_SIZE) chunk))"

definition read_config_zone :: "('h, 'e) AteccHal \<Rightarrow> bytes \<Rightarrow> ('h, 'e, bytes) chan" where
  "read_config_zone H out = read_config_blocks H [0..<CONFIG_ZONE_BLOCK_COUNT] out"

definition read_slot_word ::
  "('h, 'e) AteccHal \<Rightarrow> Slot \<Rightarrow> u8 \<Rightarrow> u8 \<Rightarrow> ('h, 'e, bytes) chan" where
  "read_slot_word H slot block offset_words =
     read_4 H ZoneData (data_address slot block offset_words)"

definition read_slot_block :: "('h, 'e) AteccHal \<Rightarrow> Slot \<Rightarrow> u8 \<Rightarrow> ('h, 'e, bytes) chan" where
  "read_slot_block H slot block = read_32 H ZoneData (data_address slot block 0)"

definition write_4 :: "('h, 'e) AteccHal \<Rightarrow> Zone \<Rightarrow> u16 \<Rightarrow> bytes \<Rightarrow> ('h, 'e, unit) chan" where
  "write_4 H zone address data =
     execute_command_status H OP_WRITE (write_param1 zone False False) address data
       EXEC_TIME_WRITE_MS"

definition write_32 :: "('h, 'e) AteccHal \<Rightarrow> Zone \<Rightarrow> u16 \<Rightarrow> bytes \<Rightarrow> ('h, 'e, unit) chan" where
  "write_32 H zone address data =
     execute_command_status H OP_WRITE (write_param1 zone True False) address data
       EXEC_TIME_WRITE_MS"

definition write_32_encrypted ::
  "('h, 'e) AteccHal \<Rightarrow> Zone \<Rightarrow> u16 \<Rightarrow> bytes \<Rightarrow> ('h, 'e, unit) chan" where
  "write_32_encrypted H zone address ciphertext_and_mac =
     execute_command_status H OP_WRITE (write_param1 zone True True) address ciphertext_and_mac
       EXEC_TIME_WRITE_MS"

definition write_slot_word ::
  "('h, 'e) AteccHal \<Rightarrow> Slot \<Rightarrow> u8 \<Rightarrow> u8 \<Rightarrow> bytes \<Rightarrow> ('h, 'e, unit) chan" where
  "write_slot_word H slot block offset_words data =
     write_4 H ZoneData (data_address slot block offset_words) data"

definition write_slot_block ::
  "('h, 'e) AteccHal \<Rightarrow> Slot \<Rightarrow> u8 \<Rightarrow> bytes \<Rightarrow> ('h, 'e, unit) chan" where
  "write_slot_block H slot block data = write_32 H ZoneData (data_address slot block 0) data"

section \<open>Sign and Verify\<close>

definition SIGNATURE_SIZE :: nat where "SIGNATURE_SIZE = 64"
definition SIGN_MODE_EXTERNAL_FROM_MSGDIGBUF :: u8 where "SIGN_MODE_EXTERNAL_FROM_MSGDIGBUF = 0xA0"

definition sign_external :: "('h, 'e) AteccHal \<Rightarrow> Slot \<Rightarrow> ('h, 'e, bytes) chan" where
  "sign_external H slot =
     and_then (execute_command H OP_SIGN SIGN_MODE_EXTERNAL_FROM_MSGDIGBUF (slot_param2 slot) []
                 EXEC_TIME_SIGN_MS (replicate (1 + SIGNATURE_SIZE + 2) 0)) (\<lambda>payload.
       of_result (try_into_array SIGNATURE_SIZE payload))"

definition VERIFY_EXTERNAL_DATA_SIZE :: nat where
  "VERIFY_EXTERNAL_DATA_SIZE = SIGNATURE_SIZE + PUBLIC_KEY_SIZE"
definition VERIFY_MODE_EXTERNAL :: u8 where "VERIFY_MODE_EXTERNAL = 0x02"
definition VERIFY_KEY_P256 :: u16 where "VERIFY_KEY_P256 = 0x0004"

definition verify_external ::
  "('h, 'e) AteccHal \<Rightarrow> bytes \<Rightarrow> bytes \<Rightarrow> ('h, 'e, bool) chan" where
  "verify_external H signature public_key =
     (let data = replicate VERIFY_EXTERNAL_DATA_SIZE 0;
          data = copy_at data 0 signature;
          data = copy_at data SIGNATURE_SIZE public_key
      in and_then (attempt (execute_command_status H OP_VERIFY VERIFY_MODE_EXTERNAL
                              VERIFY_KEY_P256 data EXEC_TIME_VERIFY_MS))
           (\<lambda>result. of_result (verdict result)))"

lemmas command_defs = info_revision_def random_def checkmac_def counter_internal_def
  counter_read_def counter_increment_def gendig_def genkey_internal_def genkey_create_def
  genkey_public_def lock_config_zone_def lock_data_zone_def lock_slot_def nonce_random_def
  nonce_passthrough_def privwrite_cleartext_def read_4_def read_32_def read_slot_word_def
  read_slot_block_def write_4_def write_32_def write_32_encrypted_def write_slot_word_def
  write_slot_block_def sign_external_def verify_external_def

lemmas reply_sizes = RANDOM_OUTPUT_LEN_def PUBLIC_KEY_SIZE_def NONCE_NUMIN_SIZE_def
  NONCE_NUMOUT_SIZE_def NONCE_PASSTHROUGH_SIZE_def PRIVWRITE_CLEARTEXT_SIZE_def
  CONFIG_ZONE_BLOCK_COUNT_def CONFIG_ZONE_SIZE_def BLOCK_SIZE_def WORD_SIZE_def
  ENCRYPTED_WRITE_MAC_SIZE_def ENCRYPTED_WRITE_DATA_SIZE_def SIGNATURE_SIZE_def
  VERIFY_EXTERNAL_DATA_SIZE_def

section \<open>Commands leave the device address alone\<close>

lemma keeps_device_addr_commands [simp, intro]:
  "keeps device_addr (info_revision H)" "keeps device_addr (random H)"
  "keeps device_addr (checkmac H slot challenge resp other)"
  "keeps device_addr (counter_internal H mode c)" "keeps device_addr (counter_read H c)"
  "keeps device_addr (counter_increment H c)" "keeps device_addr (gendig H zone k)"
  "keeps device_addr (genkey_create H slot)" "keeps device_addr (genkey_public H slot)"
  "keeps device_addr (lock_config_zone H crc)" "keeps device_addr (lock_data_zone H)"
  "keeps device_addr (lock_slot H slot)" "keeps device_addr (nonce_random H n)"
  "keeps device_addr (nonce_passthrough H target v)" "keeps device_addr (privwrite_cleartext H slot key)"
  "keeps device_addr (read_4 H z a)" "keeps device_addr (read_32 H z a)"
  "keeps device_addr (write_4 H z a d)" "keeps device_addr (write_32 H z a d)"
  "keeps device_addr (write_32_encrypted H z a d)" "keeps device_addr (sign_external H slot)"
  "keeps device_addr (verify_external H sig pk)"
  by (auto simp: command_defs Let_def intro!: keeps_and_then keeps_attempt keeps_if)

section \<open>Commands with a reply of known size\<close>

text \<open>
  The contract of a command declared to return \<open>[u8; n]\<close>: whatever the bus does, a
  successful call yields \<open>n\<close> bytes, so indexing and copying its result cannot panic.
\<close>

locale sized_reply =
  fixes cmd :: "('h, 'e, bytes) chan" and n :: nat
  assumes reply_size: "cmd s = (Inr bs, t) \<Longrightarrow> length bs = n"
begin

lemma reply_nth_in_range: "cmd s = (Inr bs, t) \<Longrightarrow> i < n \<Longrightarrow> bs ! i \<in> set bs"
  by (simp add: reply_size)

lemma reply_copy_size:
  "cmd s = (Inr bs, t) \<Longrightarrow> a + n \<le> length dst \<Longrightarrow> length (copy_at dst a bs) = length dst"
  by (simp add: reply_size)

lemma reply_not_empty: "cmd s = (Inr bs, t) \<Longrightarrow> 0 < n \<Longrightarrow> bs \<noteq> []"
  using reply_size by force

end

lemma try_into_array_Inr [simp]: "try_into_array n p = Inr bs \<longleftrightarrow> length p = n \<and> bs = p"
  by (auto simp: try_into_array_def)

lemma sized_reply_try_into:
  "sized_reply (and_then m (\<lambda>payload. of_result (try_into_array n payload))) n"
  by unfold_locales (auto simp: and_then_eq_Inr of_result_def)

lemma sized_reply_copied:
  "sized_reply (and_then m (\<lambda>payload. if length payload \<noteq> n then return_err MalformedResponse
       else return_ok (copy_at (replicate n 0) 0 payload))) n"
  by unfold_locales (auto simp: and_then_eq_Inr return_ok_def return_err_def split: if_splits)

interpretation info_reply: sized_reply "info_revision H" 4 for H
  unfolding info_revision_def by (rule sized_reply_copied)

interpretation random_reply: sized_reply "random H" 32 for H
  unfolding random_def RANDOM_OUTPUT_LEN_def by (rule sized_reply_copied)

interpretation genkey_create_reply: sized_reply "genkey_create H slot" 64 for H slot
  unfolding genkey_create_def genkey_internal_def PUBLIC_KEY_SIZE_def by (rule sized_reply_try_into)

interpretation genkey_public_reply: sized_reply "genkey_public H slot" 64 for H slot
  unfolding genkey_public_def genkey_internal_def PUBLIC_KEY_SIZE_def by (rule sized_reply_try_into)

interpretation nonce_reply: sized_reply "nonce_random H num_in" 32 for H num_in
  unfolding nonce_random_def NONCE_NUMOUT_SIZE_def by (rule sized_reply_try_into)

interpretation sign_reply: sized_reply "sign_external H slot" 64 for H slot
  unfolding sign_external_def SIGNATURE_SIZE_def by (rule sized_reply_try_into)

interpretation read_4_reply: sized_reply "read_4 H zone address" 4 for H zone address
  unfolding read_4_def WORD_SIZE_def by (rule sized_reply_try_into)

interpretation read_32_reply: sized_reply "read_32 H zone address" 32 for H zone address
  unfolding read_32_def BLOCK_SIZE_def by (rule sized_reply_try_into)

lemma copy_at_whole [simp]: "length src = n \<Longrightarrow> copy_at (replicate n x) 0 src = src"
  by (simp add: copy_at_def)

section \<open>What commands put on the bus\<close>

text \<open>
  A backend wrapped so that its state also holds every buffer the driver writes. The
  driver is polymorphic in its backend, so what it does over the wrapped one is what it
  does over the original, with the writes made visible.
\<close>

type_synonym 'h logged = "'h \<times> bytes list"

definition log_writes :: "('h, 'e) AteccHal \<Rightarrow> ('h logged, 'e) AteccHal" where
  "log_writes H =
     \<lparr>i2c_write = (\<lambda>addr data (h, lg). case i2c_write H addr data h of (r, h') \<Rightarrow> (r, h', lg @ [data])),
      i2c_read = (\<lambda>addr n (h, lg). case i2c_read H addr n h of (r, h') \<Rightarrow> (r, h', lg)),
      pulse_sda_low = (\<lambda>us (h, lg). case pulse_sda_low H us h of (r, h') \<Rightarrow> (r, h', lg)),
      delay_us = (\<lambda>us (h, lg). (delay_us H us h, lg)),
      delay_ms = (\<lambda>ms (h, lg). (delay_ms H ms h, lg))\<rparr>"

definition bus_log :: "'h logged Atecc \<Rightarrow> bytes list" where
  "bus_log s = snd (hal s)"

lemma log_writes_sel [simp]:
  "snd (snd (i2c_write (log_writes H) addr data hl)) = snd hl @ [data]"
  "snd (snd (i2c_read (log_writes H) addr n hl)) = snd hl"
  "snd (snd (pulse_sda_low (log_writes H) us hl)) = snd hl"
  "snd (delay_us (log_writes H) us hl) = snd hl" "snd (delay_ms (log_writes H) ms hl) = snd hl"
  by (simp_all add: log_writes_def split: prod.splits)

lemma read_exact_log [simp]: "snd (snd (read_exact (log_writes H) addr n hl)) = snd hl"
  by (simp add: read_exact_def and_then_def map_err_def return_ok_def case_prod_beta split: sum.split)

lemma wake_log [simp]: "snd (snd (wake (log_writes H) addr hl)) = snd hl"
  by (simp add: wake_def and_then_def map_err_def modify_def return_ok_def return_err_def
      case_prod_beta split: sum.split)

lemma poll_loop_log [simp]:
  "snd (snd (poll_loop (log_writes H) addr m buf elapsed hl)) = snd hl"
  by (rule poll_loop_invariant [where I = "\<lambda>h. snd h = snd hl"]) simp_all

lemma keeps_bus_log_on_hal:
  "(\<And>addr hl. snd (snd (m addr hl)) = snd hl) \<Longrightarrow> keeps bus_log (on_hal m)"
  by (simp add: keeps_def bus_log_def on_hal_def case_prod_beta)

lemma open_channel_log [intro, simp]: "keeps bus_log (open_channel (log_writes H))"
  and poll_log [intro, simp]: "keeps bus_log (poll_for_response (log_writes H) buf)"
  by (simp_all add: open_channel_def poll_for_response_def keeps_bus_log_on_hal)

definition idle_token :: bytes where "idle_token = [WORD_ADDRESS_IDLE]"

lemma close_log [intro]: "emits bus_log (\<lambda>x. x = idle_token) (close (log_writes H))"
  by (auto simp: emits_def bus_log_def close_def on_hal_def idle_def map_err_def case_prod_beta
      idle_token_def split: sum.split)

text \<open>The buffer a command puts on the bus.\<close>

definition command_packet :: "u8 \<Rightarrow> u8 \<Rightarrow> u16 \<Rightarrow> bytes \<Rightarrow> bytes" where
  "command_packet op p1 p2 data = WORD_ADDRESS_COMMAND # command_frame op p1 p2 data"

lemma run_command_log:
  "bus_log (snd (run_command (log_writes H) op p1 p2 data ms buf s)) =
     bus_log s @ (if length data \<le> 155 then [command_packet op p1 p2 data] else [])"
proof (cases "length data \<le> 155")
  case True
  let ?w = "on_hal (\<lambda>addr. map_err Hal (i2c_write (log_writes H) addr (command_packet op p1 p2 data)))"
  obtain r t where w: "?w s = (r, t)" by fastforce
  have t: "bus_log t = bus_log s @ [command_packet op p1 p2 data]"
    using arg_cong [OF w, of "\<lambda>x. bus_log (snd x)"]
    by (simp add: on_hal_def bus_log_def case_prod_beta map_err_def split: sum.splits)
  have "keeps bus_log (and_then (on_hal (\<lambda>_. modify (delay_ms (log_writes H) ms)))
      (\<lambda>_. poll_for_response (log_writes H) buf))"
    by (intro keeps_and_then keeps_bus_log_on_hal poll_log) (simp add: modify_def)
  from keepsD [OF this, of t] show ?thesis using True w t
    by (cases r) (simp_all add: run_command_ok command_packet_def [symmetric] and_then_def)
qed (simp add: run_command_too_long)

lemma execute_command_log:
  "bus_log (snd (execute_command (log_writes H) op p1 p2 data ms buf s)) =
     bus_log s @ (if length data \<le> 155 then [command_packet op p1 p2 data] else [])"
  and execute_command_status_log:
  "bus_log (snd (execute_command_status (log_writes H) op p1 p2 data ms s)) =
     bus_log s @ (if length data \<le> 155 then [command_packet op p1 p2 data] else [])"
  using run_command_log [of H op p1 p2 data ms buf s]
    run_command_log [of H op p1 p2 data ms "replicate 4 0" s]
  by (auto simp: execute_command_eq execute_command_status_eq
      split: prod.splits sum.splits ResponseFrame.splits option.splits)

lemma emits_execute [intro]:
  "P (command_packet op p1 p2 data) \<Longrightarrow> emits bus_log P (execute_command (log_writes H) op p1 p2 data ms buf)"
  "P (command_packet op p1 p2 data) \<Longrightarrow> emits bus_log P (execute_command_status (log_writes H) op p1 p2 data ms)"
  by (simp_all add: emits_def execute_command_log execute_command_status_log)


lemma emits_commands:
  "P (command_packet OP_RANDOM 0 0 []) \<Longrightarrow> emits bus_log P (random (log_writes H))"
  "P (command_packet OP_COUNTER 0 (counter_as_param2 c) []) \<Longrightarrow>
     emits bus_log P (counter_read (log_writes H) c)"
  "P (command_packet OP_COUNTER 1 (counter_as_param2 c) []) \<Longrightarrow>
     emits bus_log P (counter_increment (log_writes H) c)"
  "(\<And>d. P (command_packet OP_CHECKMAC 0 (slot_param2 slot) d)) \<Longrightarrow>
     emits bus_log P (checkmac (log_writes H) slot challenge resp other)"
  "P (command_packet OP_NONCE 0 0 num_in) \<Longrightarrow> emits bus_log P (nonce_random (log_writes H) num_in)"
  "P (command_packet OP_NONCE (3 OR nonce_as_param1_bits target) 0 v) \<Longrightarrow>
     emits bus_log P (nonce_passthrough (log_writes H) target v)"
  "P (command_packet OP_GENDIG (gendig_as_param1 gz) k []) \<Longrightarrow>
     emits bus_log P (gendig (log_writes H) gz k)"
  "P (command_packet OP_GENKEY 4 (slot_param2 slot) []) \<Longrightarrow>
     emits bus_log P (genkey_create (log_writes H) slot)"
  "P (command_packet OP_GENKEY 0 (slot_param2 slot) []) \<Longrightarrow>
     emits bus_log P (genkey_public (log_writes H) slot)"
  "P (command_packet OP_SIGN 0xA0 (slot_param2 slot) []) \<Longrightarrow>
     emits bus_log P (sign_external (log_writes H) slot)"
  "P (command_packet OP_READ (read_param1 z False) a []) \<Longrightarrow> emits bus_log P (read_4 (log_writes H) z a)"
  "P (command_packet OP_READ (read_param1 z True) a []) \<Longrightarrow> emits bus_log P (read_32 (log_writes H) z a)"
  "P (command_packet OP_WRITE (write_param1 z False False) a d) \<Longrightarrow>
     emits bus_log P (write_4 (log_writes H) z a d)"
  "P (command_packet OP_WRITE (write_param1 z True False) a d) \<Longrightarrow>
     emits bus_log P (write_32 (log_writes H) z a d)"
  "P (command_packet OP_WRITE (write_param1 z True True) a d) \<Longrightarrow>
     emits bus_log P (write_32_encrypted (log_writes H) z a d)"
  "P (command_packet OP_LOCK 0 crc []) \<Longrightarrow> emits bus_log P (lock_config_zone (log_writes H) crc)"
  "P (command_packet OP_LOCK 0x81 0 []) \<Longrightarrow> emits bus_log P (lock_data_zone (log_writes H))"
  "P (command_packet OP_LOCK (lock_slot_mode slot) 0 []) \<Longrightarrow> emits bus_log P (lock_slot (log_writes H) slot)"
  by (auto simp: command_defs Let_def INFO_MODE_REVISION_def COUNTER_MODE_READ_def
      COUNTER_MODE_INCREMENT_def CHECKMAC_MODE_CHALLENGE_def NONCE_MODE_RANDOM_def
      NONCE_MODE_PASSTHROUGH_def GENKEY_MODE_CREATE_def GENKEY_MODE_PUBLIC_def
      SIGN_MODE_EXTERNAL_FROM_MSGDIGBUF_def LOCK_MODE_CONFIG_ZONE_VERIFY_CRC_def
      LOCK_MODE_DATA_ZONE_NO_CRC_def
      intro!: emits_and_then emits_attempt emits_execute emits_if)

section \<open>Verdicts of CheckMac and Verify\<close>

lemma verdict_Inr: "verdict r = Inr b \<longleftrightarrow>
    (if b then r = Inr () else r = Inl (Chip CheckMacOrVerifyFailed))"
  by (auto simp: verdict_def split: sum.splits AteccError.splits ChipError.splits)

lemma from_status_byte_mismatch:
  "from_status_byte b = Some CheckMacOrVerifyFailed \<longleftrightarrow> b = 1"
  using status_byte.from_byte_iff [of CheckMacOrVerifyFailed b] by simp

lemma status_verdict:
  "and_then (attempt (execute_command_status H op p1 p2 data ms)) (\<lambda>r. of_result (verdict r)) s =
     (Inr b, t) \<longleftrightarrow>
   run_command H op p1 p2 data ms (replicate 4 0) s =
     (Inr (4, response_frame [if b then 0 else 1]), t)"
  by (auto simp: and_then_eq_Inr attempt_eq_Inr of_result_def verdict_Inr execute_command_status_Inr
      execute_command_status_Chip from_status_byte_mismatch split: if_splits)

lemma checkmac_data:
  assumes "length challenge = 32" and "length resp = 32" and "length other = 13"
  shows "copy_at (copy_at (copy_at (replicate 77 0) 0 challenge) 32 resp) 64 other =
    challenge @ resp @ other"
  using assms by (simp add: copy_at_def)

lemma checkmac_verdict:
  assumes "length challenge = 32" and "length resp = 32" and "length other = 13"
  shows "checkmac H slot challenge resp other s = (Inr b, t) \<longleftrightarrow>
    run_command H OP_CHECKMAC 0x00 (slot_param2 slot) (challenge @ resp @ other)
      EXEC_TIME_CHECKMAC_MS (replicate 4 0) s = (Inr (4, response_frame [if b then 0 else 1]), t)"
  using checkmac_data [OF assms]
  by (simp add: checkmac_def Let_def checkmac_sizes CHECKMAC_MODE_CHALLENGE_def status_verdict)

section \<open>Addresses and the configuration zone\<close>

lemma and_low_mask:
  "x AND 0x03 = take_bit 2 x" "x AND 0x07 = take_bit 3 x" "x AND 0x0F = take_bit 4 x"
  "x AND 0x1F = take_bit 5 x" for x :: "'a::len word"
  by (simp_all add: take_bit_eq_mask mask_eq_exp_minus_1)

lemma data_address_fields:
  "ucast (drop_bit 8 (data_address slot block offset)) = block"
  "ucast (drop_bit 3 (data_address slot block offset)) AND 0x1F = slot_as_u8 slot AND 0x1F"
  "ucast (data_address slot block offset) AND 0x07 = offset AND 0x07"
  by (rule bit_word_eqI; auto simp: data_address_def bit_simps and_low_mask dest: bit_imp_le_length)+

lemma config_address_fields:
  "ucast (drop_bit 3 (config_or_otp_address block offset)) = block AND 0x03"
  "ucast (config_or_otp_address block offset) AND 0x07 = offset AND 0x07"
  by (rule bit_word_eqI;
      auto simp: config_or_otp_address_def bit_simps and_low_mask dest: bit_imp_le_length)+

lemma read_config_blocks_out:
  assumes "read_config_blocks H bs out s = (Inr out', t)" and "\<forall>b\<in>set bs. b * 32 + 32 \<le> length out"
  shows "length out' = length out"
  using assms
proof (induction bs arbitrary: out s)
  case (Cons b bs)
  then obtain chunk s' where r: "read_32 H ZoneConfig (config_or_otp_address (of_nat b) 0) s = (Inr chunk, s')"
    and k: "read_config_blocks H bs (copy_at out (b * 32) chunk) s' = (Inr out', t)"
    by (auto simp: and_then_eq_Inr BLOCK_SIZE_def)
  have "length (copy_at out (b * 32) chunk) = length out"
    using read_32_reply.reply_size [OF r] Cons.prems(2) by simp
  with Cons.IH [OF k] Cons.prems(2) show ?case by simp
qed (simp add: return_ok_def)

lemma lock_slot_mode_fields:
  "drop_bit 2 (lock_slot_mode slot) AND 0x0F = slot_as_u8 slot AND 0x0F"
  "lock_slot_mode slot AND 0x03 = 0x02" "bit (lock_slot_mode slot) 7"
proof -
  have base: "bit LOCK_MODE_SLOT_NO_CRC_BASE n \<longleftrightarrow> n = 1 \<or> n = 7" for n
  proof -
    have e: "LOCK_MODE_SLOT_NO_CRC_BASE = push_bit 1 1 OR push_bit 7 1"
      by (simp add: LOCK_MODE_SLOT_NO_CRC_BASE_def)
    show ?thesis unfolding e bit_or_iff bit_push_bit_iff bit_1_iff by auto
  qed
  show "drop_bit 2 (lock_slot_mode slot) AND 0x0F = slot_as_u8 slot AND 0x0F"
    by (rule bit_word_eqI) (auto simp: lock_slot_mode_def and_low_mask bit_simps base)
  show "bit (lock_slot_mode slot) 7"
    by (simp add: lock_slot_mode_def bit_or_iff base)
  have two: "(0x02 :: u8) = push_bit 1 1" by simp
  show "lock_slot_mode slot AND 0x03 = 0x02"
    unfolding two lock_slot_mode_def and_low_mask
    by (rule bit_word_eqI)
      (auto simp only: bit_take_bit_iff bit_or_iff bit_push_bit_iff base bit_1_iff
        possible_bit_word)
qed

lemma sized_case:
  "sized_reply cmd n \<Longrightarrow> (case fst (cmd s) of Inr bs \<Rightarrow> length bs = n | Inl _ \<Rightarrow> True)"
  by (cases "cmd s") (auto simp: sized_reply_def split: sum.split)

section \<open>Properties\<close>

text \<open>
  C32. Reply sizes, for every backend and every state: each command that promises an
  array of \<open>n\<close> bytes returns exactly \<open>n\<close> bytes when it succeeds, so the callers that
  index into or copy from the result never run past its end; reading the configuration
  zone fills all 128 bytes of the caller's array.
\<close>

theorem command_reply_sizes:
  "(case fst (info_revision H s) of Inr bs \<Rightarrow> length bs = 4 | Inl _ \<Rightarrow> True) \<and>
   (case fst (random H s) of Inr bs \<Rightarrow> length bs = 32 | Inl _ \<Rightarrow> True) \<and>
   (case fst (nonce_random H num_in s) of Inr bs \<Rightarrow> length bs = 32 | Inl _ \<Rightarrow> True) \<and>
   (case fst (genkey_create H slot s) of Inr bs \<Rightarrow> length bs = 64 | Inl _ \<Rightarrow> True) \<and>
   (case fst (genkey_public H slot s) of Inr bs \<Rightarrow> length bs = 64 | Inl _ \<Rightarrow> True) \<and>
   (case fst (sign_external H slot s) of Inr bs \<Rightarrow> length bs = 64 | Inl _ \<Rightarrow> True) \<and>
   (case fst (read_slot_word H slot block off s) of Inr bs \<Rightarrow> length bs = 4 | Inl _ \<Rightarrow> True) \<and>
   (case fst (read_slot_block H slot block s) of Inr bs \<Rightarrow> length bs = 32 | Inl _ \<Rightarrow> True) \<and>
   (case fst (read_config_zone H (replicate 128 0) s) of Inr bs \<Rightarrow> length bs = 128 | Inl _ \<Rightarrow> True)"
proof -
  have "case fst (read_config_zone H (replicate 128 0) s) of Inr bs \<Rightarrow> length bs = 128 | Inl _ \<Rightarrow> True"
    using read_config_blocks_out [of H "[0..<4]" "replicate 128 0" s]
    by (cases "read_config_zone H (replicate 128 0) s")
      (auto simp: read_config_zone_def CONFIG_ZONE_BLOCK_COUNT_def split: sum.split)
  then show ?thesis unfolding read_slot_word_def read_slot_block_def
    by (intro conjI; assumption?) (intro sized_case info_reply.sized_reply_axioms
        random_reply.sized_reply_axioms nonce_reply.sized_reply_axioms
        genkey_create_reply.sized_reply_axioms genkey_public_reply.sized_reply_axioms
        sign_reply.sized_reply_axioms read_4_reply.sized_reply_axioms
        read_32_reply.sized_reply_axioms)+
qed

text \<open>
  The verdict of CheckMac: the command sends challenge, response and other-data in
  that order to the key slot and answers \<open>true\<close> exactly when the chip returns its
  success frame, \<open>false\<close> exactly on the chip's mismatch status. No bus error, timeout or
  damaged frame is ever reported as a verdict.
\<close>

theorem checkmac_verdict_iff:
  assumes "length challenge = 32" and "length resp = 32" and "length other = 13"
  shows "checkmac H slot challenge resp other s = (Inr b, t) \<longleftrightarrow>
    run_command H 0x28 0x00 (ucast (slot_as_u8 slot)) (challenge @ resp @ other) 40 (replicate 4 0) s =
      (Inr (4, response_frame [if b then 0 else 1]), t)"
  unfolding checkmac_verdict [OF assms] OP_CHECKMAC_def EXEC_TIME_CHECKMAC_MS_def slot_param2_def ..

theorem checkmac_verdict_iff_witness:
  "let s = \<lparr>hal = scripted_chip [Some [4], Some (tl (response_frame [1]))], device_addr = 0x60\<rparr>
   in fst (checkmac scripted_hal (Slot 3) (replicate 32 1) (replicate 32 2) (replicate 13 0) s) =
        Inr False"
proof -
  let ?s = "\<lparr>hal = scripted_chip [Some [4], Some (tl (response_frame [1]))], device_addr = 0x60\<rparr>"
  let ?data = "replicate 32 1 @ replicate 32 2 @ replicate 13 (0::u8)"
  let ?run = "run_command scripted_hal 0x28 0x00 (ucast (slot_as_u8 (Slot 3))) ?data 40 (replicate 4 0) ?s"
  have "fst ?run = Inr (4, response_frame [1])" by code_simp
  then have "?run = (Inr (4, response_frame [if False then 0 else 1]), snd ?run)"
    by (simp add: prod_eq_iff)
  then have "checkmac scripted_hal (Slot 3) (replicate 32 1) (replicate 32 2) (replicate 13 0) ?s =
      (Inr False, snd ?run)"
    by (subst checkmac_verdict_iff) simp_all
  then show ?thesis by (simp add: Let_def)
qed

text \<open>
  Zone addresses and lock modes are unambiguous: from the address word of a read or
  write the block, slot and word offset can be read back (up to the field widths the
  chip has), and the mode byte of a slot lock carries the slot number beside its two
  fixed fields. Distinct slots, blocks or words therefore never share an address.
\<close>

theorem address_fields:
  "ucast (drop_bit 8 (data_address slot block off)) = block \<and>
   ucast (drop_bit 3 (data_address slot block off)) AND 0x1F = slot_as_u8 slot AND 0x1F \<and>
   ucast (data_address slot block off) AND 0x07 = off AND 0x07 \<and>
   ucast (drop_bit 3 (config_or_otp_address block off)) = block AND 0x03 \<and>
   ucast (config_or_otp_address block off) AND 0x07 = off AND 0x07 \<and>
   drop_bit 2 (lock_slot_mode slot) AND 0x0F = slot_as_u8 slot AND 0x0F \<and>
   lock_slot_mode slot AND 0x03 = 0x02 \<and> bit (lock_slot_mode slot) 7"
  by (intro conjI data_address_fields config_address_fields lock_slot_mode_fields)

end
