(* ===== verification/Pin_Crypto.thy ===== *)
theory Pin_Crypto
  imports Atecc_Commands
begin

text \<open>
  \<^verbatim>\<open>src/crates/hsm-crypto-service/src/pin.rs\<close> and
  \<^verbatim>\<open>encrypted_write.rs\<close>: the hashes stored for PIN and PUK, the host side of
  CheckMac and the host side of the encrypted write. SHA-256 comes from the \<open>sha2\<close>
  crate and is the parameter \<open>sha256\<close>; a sequence of \<open>update\<close> calls hashes the
  concatenation of their arguments.
\<close>

unbundle bit_operations_syntax

type_synonym hash = "bytes \<Rightarrow> bytes"

section \<open>PIN and PUK (pin.rs)\<close>

definition HASH_LEN :: nat where "HASH_LEN = 32"
definition PIN_LEN :: nat where "PIN_LEN = 4"
definition PUK_LEN :: nat where "PUK_LEN = 8"

definition ascii :: "string \<Rightarrow> bytes" where
  "ascii = map (\<lambda>c. of_nat (of_char c))"

definition PIN_SALT_DOMAIN :: bytes where "PIN_SALT_DOMAIN = ascii ''pico-hsm-rs-pin-salt-v1''"
definition PUK_SALT_DOMAIN :: bytes where "PUK_SALT_DOMAIN = ascii ''pico-hsm-rs-puk-salt-v1''"

datatype FormatError = NonDigit nat | OutOfRange

definition is_ascii_digit :: "u8 \<Rightarrow> bool" where
  "is_ascii_digit byte \<longleftrightarrow> 0x30 \<le> byte \<and> byte \<le> 0x39"

fun validate_from :: "nat \<Rightarrow> bytes \<Rightarrow> FormatError + unit" where
  "validate_from position [] = Inr ()"
| "validate_from position (byte # code) =
     (if \<not> is_ascii_digit byte then Inl (NonDigit position)
      else validate_from (position + 1) code)"

definition validate_digits :: "bytes \<Rightarrow> FormatError + unit" where
  "validate_digits code = validate_from 0 code"

definition pin_salt :: "hash \<Rightarrow> bytes \<Rightarrow> bytes" where
  "pin_salt sha256 chip_serial = sha256 (PIN_SALT_DOMAIN @ chip_serial)"

definition puk_salt :: "hash \<Rightarrow> bytes \<Rightarrow> bytes" where
  "puk_salt sha256 chip_serial = sha256 (PUK_SALT_DOMAIN @ chip_serial)"

definition pin_hash :: "hash \<Rightarrow> bytes \<Rightarrow> bytes \<Rightarrow> bytes" where
  "pin_hash sha256 pin salt = sha256 (pin @ salt)"

definition puk_hash :: "hash \<Rightarrow> bytes \<Rightarrow> bytes \<Rightarrow> bytes" where
  "puk_hash sha256 puk salt = sha256 (puk @ salt)"

definition checkmac_message :: "bytes \<Rightarrow> bytes \<Rightarrow> bytes \<Rightarrow> bytes \<Rightarrow> bytes" where
  "checkmac_message slot_value challenge other_data chip_serial =
     slot_value @ challenge @ slice other_data 0 4 @ replicate 8 0 @ slice other_data 4 7 @
     slice chip_serial 8 9 @ slice other_data 7 11 @ slice chip_serial 0 2 @
     slice other_data 11 13"

definition checkmac_response :: "hash \<Rightarrow> bytes \<Rightarrow> bytes \<Rightarrow> bytes \<Rightarrow> bytes \<Rightarrow> bytes" where
  "checkmac_response sha256 slot_value challenge other_data chip_serial =
     sha256 (checkmac_message slot_value challenge other_data chip_serial)"

definition checkmac_other_data :: "u8 \<Rightarrow> bytes \<Rightarrow> bytes" where
  "checkmac_other_data key_id chip_serial =
     (replicate 13 0)[0 := 0x28, 1 := 0x00, 2 := key_id, 3 := 0x00,
        7 := chip_serial ! 0, 8 := chip_serial ! 0, 9 := chip_serial ! 1,
        10 := chip_serial ! 2, 11 := chip_serial ! 3, 12 := 0x00]"

section \<open>Encrypted writes (encrypted_write.rs)\<close>

definition CHIP_SERIAL_LEN :: nat where "CHIP_SERIAL_LEN = 9"
definition SLOT_VALUE_LEN :: nat where "SLOT_VALUE_LEN = 32"
definition ZONE_DATA :: u8 where "ZONE_DATA = 0x02"

definition derive_session_key :: "hash \<Rightarrow> bytes \<Rightarrow> bytes \<Rightarrow> u8 \<Rightarrow> bytes \<Rightarrow> bytes" where
  "derive_session_key sha256 io_key nonce_input io_slot chip_serial =
     (let param1 = ZONE_DATA; param2_lo = io_slot; param2_hi = 0x00 in
      sha256 (io_key @ [OP_GENDIG, param1, param2_lo, param2_hi] @ slice chip_serial 8 9 @
              slice chip_serial 0 2 @ replicate 25 0 @ nonce_input))"

definition encrypt_payload :: "bytes \<Rightarrow> bytes \<Rightarrow> bytes" where
  "encrypt_payload plaintext session_key = map2 (\<lambda>p s. p XOR s) plaintext session_key"

definition write_mac :: "hash \<Rightarrow> bytes \<Rightarrow> bytes \<Rightarrow> Slot \<Rightarrow> u8 \<Rightarrow> bytes \<Rightarrow> bytes" where
  "write_mac sha256 session_key plaintext target_slot target_block chip_serial =
     (let param1 = ZONE_DATA OR 0x80 OR 0x40;
          address = data_address target_slot target_block 0;
          param2_lo = ucast (address AND 0xFF);
          param2_hi = ucast (drop_bit 8 address)
      in sha256 (session_key @ [OP_WRITE, param1, param2_lo, param2_hi] @ slice chip_serial 8 9 @
                 slice chip_serial 0 2 @ replicate 25 0 @ plaintext))"

definition build_encrypted_write_payload :: "bytes \<Rightarrow> bytes \<Rightarrow> bytes" where
  "build_encrypted_write_payload ciphertext mac =
     copy_at (copy_at (replicate 64 0) 0 ciphertext) 32 mac"

section \<open>Digits\<close>

lemma validate_from_Inr: "validate_from i code = Inr () \<longleftrightarrow> list_all is_ascii_digit code"
  by (induction i code rule: validate_from.induct) auto

lemma validate_digits_Inr [simp]: "validate_digits code = Inr u \<longleftrightarrow> list_all is_ascii_digit code"
  by (simp add: validate_digits_def validate_from_Inr)

lemma validate_from_Inl:
  "validate_from i code = Inl e \<longleftrightarrow>
     (\<exists>n<length code. \<not> is_ascii_digit (code ! n) \<and> (\<forall>m<n. is_ascii_digit (code ! m)) \<and>
        e = NonDigit (i + n))"
proof (induction i code rule: validate_from.induct)
  case (2 i b code)
  show ?case
  proof (cases "is_ascii_digit b")
    case True
    have "(\<exists>n<length (b # code). \<not> is_ascii_digit ((b # code) ! n) \<and>
        (\<forall>m<n. is_ascii_digit ((b # code) ! m)) \<and> e = NonDigit (i + n)) \<longleftrightarrow>
      (\<exists>n<length code. \<not> is_ascii_digit (code ! n) \<and> (\<forall>m<n. is_ascii_digit (code ! m)) \<and>
        e = NonDigit (i + 1 + n))" (is "?A \<longleftrightarrow> ?B")
    proof
      assume ?A
      then obtain n where n: "n < length (b # code)" "\<not> is_ascii_digit ((b # code) ! n)"
        "\<forall>m<n. is_ascii_digit ((b # code) ! m)" "e = NonDigit (i + n)" by blast
      with True obtain k where "n = Suc k" by (cases n) auto
      with n show ?B by (intro exI [of _ k]) force
    next
      assume ?B
      then obtain n where "n < length code" "\<not> is_ascii_digit (code ! n)"
        "\<forall>m<n. is_ascii_digit (code ! m)" "e = NonDigit (i + 1 + n)" by blast
      with True show ?A by (intro exI [of _ "Suc n"]) (auto simp: less_Suc_eq_0_disj)
    qed
    with 2 True show ?thesis by simp
  next
    case False
    then have "\<forall>m<n. is_ascii_digit ((b # code) ! m) \<Longrightarrow> n = 0" for n
      by (cases n) auto
    with False show ?thesis by fastforce
  qed
qed simp

section \<open>Encrypted payloads\<close>

lemma encrypt_payload_length [simp]:
  "length (encrypt_payload p k) = min (length p) (length k)"
  by (simp add: encrypt_payload_def)

lemma encrypt_payload_nth:
  "i < length p \<Longrightarrow> i < length k \<Longrightarrow> encrypt_payload p k ! i = p ! i XOR k ! i"
  by (simp add: encrypt_payload_def)

lemma encrypt_payload_involutive:
  assumes "length p = length k"
  shows "encrypt_payload (encrypt_payload p k) k = p"
  using assms by (intro nth_equalityI) (auto simp: encrypt_payload_nth xor.assoc)

lemma build_payload_eq:
  assumes "length c = 32" and "length m = 32"
  shows "build_encrypted_write_payload c m = c @ m"
  using assms by (simp add: build_encrypted_write_payload_def copy_at_def)

lemma checkmac_other_data_eq:
  "checkmac_other_data key_id sn =
     [0x28, 0x00, key_id, 0x00, 0, 0, 0, sn ! 0, sn ! 0, sn ! 1, sn ! 2, sn ! 3, 0x00]"
  by (simp add: checkmac_other_data_def numeral_eq_Suc)

lemma length_checkmac_other_data [simp]: "length (checkmac_other_data key_id sn) = 13"
  by (simp add: checkmac_other_data_eq)

lemma slice_nth_2: "Suc a < length xs \<Longrightarrow> slice xs a (2 + a) = [xs ! a, xs ! Suc a]"
  by (rule nth_equalityI) (auto simp: less_Suc_eq numeral_2_eq_2)

lemma slice_nth_1: "a < length xs \<Longrightarrow> slice xs a (Suc a) = [xs ! a]"
  by (rule nth_equalityI) auto

lemma checkmac_message_eq:
  assumes "length sn = 9"
  shows "checkmac_message v c (checkmac_other_data key_id sn) sn =
    v @ c @ [0x28, 0x00, key_id, 0x00] @ replicate 8 0 @ replicate 3 0 @ [sn ! 8] @
    [sn ! 0, sn ! 0, sn ! 1, sn ! 2] @ [sn ! 0, sn ! 1] @ [sn ! 3, 0]"
proof -
  have "slice sn 8 9 = [sn ! 8]" "slice sn 0 2 = [sn ! 0, sn ! 1]"
    using slice_nth_1 [of 8 sn] slice_nth_2 [of 0 sn] assms by (simp_all add: numeral_2_eq_2)
  moreover have "slice (checkmac_other_data key_id sn) 0 4 = [0x28, 0x00, key_id, 0x00]"
    "slice (checkmac_other_data key_id sn) 4 7 = replicate 3 0"
    "slice (checkmac_other_data key_id sn) 7 11 = [sn ! 0, sn ! 0, sn ! 1, sn ! 2]"
    "slice (checkmac_other_data key_id sn) 11 13 = [sn ! 3, 0]"
    by (simp_all add: checkmac_other_data_eq slice_def numeral_eq_Suc)
  ultimately show ?thesis by (simp add: checkmac_message_def)
qed

section \<open>Properties\<close>

text \<open>
  The format check of PINs and PUKs accepts exactly the codes made of ASCII digits,
  and rejects any other code with the position of its first byte that is not a digit.
\<close>

theorem validate_digits_exact:
  "(validate_digits code = Inr () \<longleftrightarrow> (\<forall>b. b \<in> set code \<longrightarrow> 0x30 \<le> b \<and> b \<le> 0x39)) \<and>
   (validate_digits code = Inl e \<longleftrightarrow>
      (\<exists>n < length code. \<not> is_ascii_digit (code ! n) \<and> list_all is_ascii_digit (take n code) \<and>
         e = NonDigit n))"
proof -
  have "(\<forall>m < n. is_ascii_digit (code ! m)) \<longleftrightarrow> list_all is_ascii_digit (take n code)" if "n < length code" for n
    using that by (auto simp: list_all_length)
  then have "validate_digits code = Inl e \<longleftrightarrow>
      (\<exists>n < length code. \<not> is_ascii_digit (code ! n) \<and> list_all is_ascii_digit (take n code) \<and> e = NonDigit n)"
    unfolding validate_digits_def validate_from_Inl by auto
  moreover have "validate_digits code = Inr () \<longleftrightarrow> (\<forall>b. b \<in> set code \<longrightarrow> 0x30 \<le> b \<and> b \<le> 0x39)"
    by (simp add: list_all_iff Ball_def is_ascii_digit_def)
  ultimately show ?thesis by blast
qed

theorem validate_digits_exact_witness:
  "validate_digits (ascii ''12a4'') = Inl (NonDigit 2) \<and>
   (\<exists>n < length (ascii ''12a4''). \<not> is_ascii_digit (ascii ''12a4'' ! n) \<and> NonDigit 2 = NonDigit n)"
proof -
  have v: "validate_digits (ascii ''12a4'') = Inl (NonDigit 2)" by code_simp
  with validate_digits_exact [of "ascii ''12a4''" "NonDigit 2"] show ?thesis by blast
qed

text \<open>
  The payload of an encrypted write, for any hash of 32 bytes. It has 64 bytes: the
  first half, decrypted with the session key, is the value to store; the second half is
  the MAC.
\<close>

theorem encrypted_write_layout:
  assumes "\<And>m. length (sha256 m) = 32" and "length plaintext = 32"
  shows "let k = derive_session_key sha256 io_key nonce_input io_slot sn;
             mac = write_mac sha256 k plaintext slot block sn;
             w = build_encrypted_write_payload (encrypt_payload plaintext k) mac
         in length w = 64 \<and> encrypt_payload (take 32 w) k = plaintext \<and> drop 32 w = mac"
proof -
  define k where "k = derive_session_key sha256 io_key nonce_input io_slot sn"
  define mac where "mac = write_mac sha256 k plaintext slot block sn"
  have l: "length k = 32" "length mac = 32"
    using assms(1) by (simp_all add: k_def mac_def derive_session_key_def write_mac_def Let_def)
  have "build_encrypted_write_payload (encrypt_payload plaintext k) mac = encrypt_payload plaintext k @ mac"
    using assms(2) l by (intro build_payload_eq) simp_all
  then show ?thesis
    using assms(2) l encrypt_payload_involutive [of plaintext k]
    by (simp add: k_def [symmetric] mac_def [symmetric] Let_def)
qed

theorem encrypted_write_layout_witness:
  "let h = (\<lambda>m. replicate 32 (of_nat (length m)));
       k = derive_session_key h (replicate 32 1) (replicate 32 2) 8 (replicate 9 3);
       mac = write_mac h k (replicate 32 4) (Slot 5) 0 (replicate 9 3)
   in encrypt_payload (take 32 (build_encrypted_write_payload (encrypt_payload (replicate 32 4) k) mac)) k =
      replicate 32 4"
  using encrypted_write_layout [of "\<lambda>m. replicate 32 (of_nat (length m))" "replicate 32 4"]
  by (simp add: Let_def)

end
