(* ===== verification/Pin_Session.thy ===== *)
theory Pin_Session
  imports Hsm_Prelude
begin

text \<open>
  \<^verbatim>\<open>src/crates/hsm-crypto-service/src/session.rs\<close>: the PIN session, a timestamp
  of the last activity with a 30 s inactivity timeout.
\<close>

definition SESSION_TIMEOUT_MS :: u64 where "SESSION_TIMEOUT_MS = 30000"

record Session =
  last_activity_ms :: "u64 option"

definition Session_new :: Session where
  "Session_new = \<lparr>last_activity_ms = None\<rparr>"

definition Session_open :: "u64 \<Rightarrow> Session \<Rightarrow> Session" where
  "Session_open now_ms self = self\<lparr>last_activity_ms := Some now_ms\<rparr>"

definition Session_close :: "Session \<Rightarrow> Session" where
  "Session_close self = self\<lparr>last_activity_ms := None\<rparr>"

definition Session_touch :: "u64 \<Rightarrow> Session \<Rightarrow> Session" where
  "Session_touch now_ms self =
     (if last_activity_ms self \<noteq> None then self\<lparr>last_activity_ms := Some now_ms\<rparr> else self)"

definition u64_saturating_sub :: "u64 \<Rightarrow> u64 \<Rightarrow> u64" where
  "u64_saturating_sub a b = (if b \<le> a then a - b else 0)"

definition Session_is_active :: "Session \<Rightarrow> u64 \<Rightarrow> bool" where
  "Session_is_active self now_ms =
     (case last_activity_ms self of
        None \<Rightarrow> False
      | Some last_ms \<Rightarrow> u64_saturating_sub now_ms last_ms < SESSION_TIMEOUT_MS)"

lemmas session_defs = Session_new_def Session_open_def Session_close_def Session_touch_def

lemma unat_saturating_sub: "unat (u64_saturating_sub a b) = unat a - unat b"
  by (simp add: u64_saturating_sub_def unat_sub word_le_nat_alt)

lemma Session_is_active_iff:
  "Session_is_active s now \<longleftrightarrow>
     (\<exists>t. last_activity_ms s = Some t \<and> unat now < unat t + 30000)"
  by (auto simp: Session_is_active_def word_less_nat_alt unat_saturating_sub SESSION_TIMEOUT_MS_def
      split: option.splits)

lemma Session_is_active_new [simp]: "\<not> Session_is_active Session_new now"
  and Session_is_active_close [simp]: "\<not> Session_is_active (Session_close s) now"
  by (simp_all add: Session_is_active_iff session_defs)

lemma Session_is_active_open [simp]:
  "Session_is_active (Session_open t s) now \<longleftrightarrow> unat now < unat t + 30000"
  by (simp add: Session_is_active_iff session_defs)

lemma Session_is_active_touch:
  "Session_is_active (Session_touch t s) now \<longleftrightarrow>
     last_activity_ms s \<noteq> None \<and> unat now < unat t + 30000"
  by (auto simp: Session_is_active_iff session_defs)

end
