(* ===== verification/Crypto_Service.thy ===== *)
theory Crypto_Service
  imports Pin_Crypto Pin_Session
begin

text \<open>
  \<^verbatim>\<open>src/crates/hsm-crypto-service/src\<close>: \<^verbatim>\<open>error.rs\<close>,
  \<^verbatim>\<open>slots.rs\<close> and every method of \<open>CryptoService\<close> in
  \<^verbatim>\<open>service.rs\<close>.

  The code the service is generic over or imports is gathered in the record \<open>Env\<close>: the
  HAL, the clock and SHA-256. The clock may depend on the state of the backend, because
  time passes while the bus is in use; nothing is assumed of it. A method is a
  result-and-state computation on \<open>CryptoService\<close>: what it did before an error stays
  done.
\<close>

unbundle bit_operations_syntax

section \<open>Errors (error.rs) and slot policy (slots.rs)\<close>

datatype 'e CryptoServiceError =
  AteccFailure "'e AteccError"
| InvalidFormat FormatError
| PinIncorrect (pin_incorrect_tries: u8)
| PinBlocked
| PukIncorrect (puk_incorrect_tries: u8)
| Bricked
| PinRequired
| NotProvisioned
| InvalidSlot Slot
| EmergencyResetNotPermitted u8 u8

fun atecc_kind :: "'e CryptoServiceError \<Rightarrow> AteccErrorKind option" where
  "atecc_kind (AteccFailure err) = Some (kind err)"
| "atecc_kind _ = None"

definition SLOT_PIN_HASH :: Slot where "SLOT_PIN_HASH = Slot 5"
definition SLOT_PUK_HASH :: Slot where "SLOT_PUK_HASH = Slot 6"
definition SLOT_IO_KEY :: Slot where "SLOT_IO_KEY = Slot 8"

lemma service_slots: "map Slot_const_new [5, 6, 8] = map Some [SLOT_PIN_HASH, SLOT_PUK_HASH, SLOT_IO_KEY]"
  by (simp add: Slot_const_new_def SLOT_COUNT_def SLOT_PIN_HASH_def SLOT_PUK_HASH_def SLOT_IO_KEY_def)

definition PIN_MAX_RETRIES :: u8 where "PIN_MAX_RETRIES = 5"
definition PUK_MAX_RETRIES :: u8 where "PUK_MAX_RETRIES = 10"
definition PIN_DEFAULT :: bytes where "PIN_DEFAULT = ascii ''0000''"

section \<open>State\<close>

record ('h, 'e, 'c) Env =
  env_hal :: "('h, 'e) AteccHal"
  now_ms :: "'c \<Rightarrow> 'h \<Rightarrow> u64"
  sha256 :: hash

record ('h, 'c) CryptoService =
  atecc :: "'h Atecc"
  clock :: 'c
  session :: Session
  serial :: "bytes option"

record DeviceInfo =
  revision :: bytes
  info_serial :: bytes
  info_is_provisioned :: bool

record PinStatus =
  pin_tries_remaining :: u8
  puk_tries_remaining :: u8
  session_active :: bool

type_synonym ('h, 'e, 'c, 'a) svc = "(('h, 'c) CryptoService, 'e CryptoServiceError, 'a) act"

definition CryptoService_new :: "'h Atecc \<Rightarrow> 'c \<Rightarrow> ('h, 'c) CryptoService" where
  "CryptoService_new a c = \<lparr>atecc = a, clock = c, session = Session_new, serial = None\<rparr>"

definition clock_now :: "('h, 'e, 'c) Env \<Rightarrow> ('h, 'c) CryptoService \<Rightarrow> u64" where
  "clock_now E s = now_ms E (clock s) (hal (atecc s))"

text \<open>Work on \<open>self.atecc\<close>; \<open>?\<close> wraps the driver's error.\<close>

definition on_atecc :: "('h, 'e, 'a) chan \<Rightarrow> ('h, 'e, 'c, 'a) svc" where
  "on_atecc m s = (case m (atecc s) of (r, a) \<Rightarrow> (map_sum AteccFailure id r, s\<lparr>atecc := a\<rparr>))"

text \<open>
  \<open>let mut channel = open_channel()?; let r = body?; channel.close()?; r\<close>: an error in
  the body drops the channel without closing it.
\<close>

definition in_channel :: "('h, 'e, 'c) Env \<Rightarrow> ('h, 'e, 'a) chan \<Rightarrow> ('h, 'e, 'c, 'a) svc" where
  "in_channel E body =
     on_atecc (and_then (open_channel (env_hal E)) (\<lambda>_.
               and_then body (\<lambda>r.
               and_then (close (env_hal E)) (\<lambda>_. return_ok r))))"

text \<open>
  The variant that keeps the body's result aside, always closes, and only then looks at
  the result (\<open>close().await?; result?\<close>).
\<close>

definition in_channel_always_closed ::
  "('h, 'e, 'c) Env \<Rightarrow> ('h, 'e, 'a) chan \<Rightarrow> ('h, 'e, 'c, 'a) svc" where
  "in_channel_always_closed E body =
     on_atecc (and_then (open_channel (env_hal E)) (\<lambda>_.
               and_then (attempt body) (\<lambda>result.
               and_then (close (env_hal E)) (\<lambda>_. of_result result))))"

section \<open>Pure helpers\<close>

definition retries_remaining :: "u32 \<Rightarrow> u8 \<Rightarrow> u8" where
  "retries_remaining count batch_size =
     (let batch = ucast batch_size;
          remainder = count mod batch in
      if count = 0 then batch_size
      else if remainder = 0 then 0
      else if remainder = 1 then batch_size - 1
      else let remainder_u8 = ucast remainder in batch_size - remainder_u8)"

definition can_write_block_in_one_transfer :: "u8 \<Rightarrow> bool" where
  "can_write_block_in_one_transfer block \<longleftrightarrow> block = 1 \<or> block = 3"

definition writable_words_in_block :: "u8 \<Rightarrow> u8 list" where
  "writable_words_in_block block =
     (if block = 0 then [4, 5, 6, 7] else if block = 2 then [0, 1, 2, 3, 4, 6, 7] else [])"

definition refresh_bumps :: "u32 \<Rightarrow> u8 \<Rightarrow> u32" where
  "refresh_bumps current batch_size =
     (let batch = ucast batch_size;
          remainder = current mod batch in
      if remainder = 0 then 1 else if remainder = 1 then 0 else batch - remainder + 1)"

section \<open>Reading the chip\<close>

definition read_counter :: "('h, 'e, 'c) Env \<Rightarrow> CounterId \<Rightarrow> ('h, 'e, 'c, u32) svc" where
  "read_counter E counter = in_channel E (counter_read (env_hal E) counter)"

definition read_whole_config :: "('h, 'e, 'c) Env \<Rightarrow> ('h, 'e, 'c, bytes) svc" where
  "read_whole_config E = in_channel E (read_config_zone (env_hal E) (replicate 128 0))"

definition serial_of_config :: "bytes \<Rightarrow> bytes" where
  "serial_of_config config =
     copy_at (copy_at (replicate CHIP_SERIAL_LEN 0) 0 (slice config 0 4)) 4 (slice config 8 13)"

definition cached_serial :: "('h, 'e, 'c) Env \<Rightarrow> ('h, 'e, 'c, bytes) svc" where
  "cached_serial E =
     and_then (gets serial) (\<lambda>cached. case cached of
       Some sn \<Rightarrow> return_ok sn
     | None \<Rightarrow>
         and_then (read_whole_config E) (\<lambda>config.
           let sn = serial_of_config config in
           and_then (modify (\<lambda>s. s\<lparr>serial := Some sn\<rparr>)) (\<lambda>_. return_ok sn)))"

definition is_provisioned :: "('h, 'e, 'c) Env \<Rightarrow> ('h, 'e, 'c, bool) svc" where
  "is_provisioned E =
     and_then (read_whole_config E) (\<lambda>config.
       let config_locked = config ! 87 = 0x00; data_locked = config ! 86 = 0x00
       in return_ok (config_locked \<and> data_locked))"

definition service_info :: "('h, 'e, 'c) Env \<Rightarrow> ('h, 'e, 'c, DeviceInfo) svc" where
  "service_info E =
     and_then (in_channel E (info_revision (env_hal E))) (\<lambda>rev.
     and_then (cached_serial E) (\<lambda>sn.
     and_then (is_provisioned E) (\<lambda>prov.
       return_ok \<lparr>revision = rev, info_serial = sn, info_is_provisioned = prov\<rparr>)))"

definition get_pubkey :: "('h, 'e, 'c) Env \<Rightarrow> Slot \<Rightarrow> ('h, 'e, 'c, bytes) svc" where
  "get_pubkey E slot = in_channel E (genkey_public (env_hal E) slot)"

definition service_genkey_create :: "('h, 'e, 'c) Env \<Rightarrow> Slot \<Rightarrow> ('h, 'e, 'c, bytes) svc" where
  "service_genkey_create E slot = in_channel E (genkey_create (env_hal E) slot)"

definition read_config_slot :: "('h, 'e, 'c) Env \<Rightarrow> Slot \<Rightarrow> ('h, 'e, 'c, bytes) svc" where
  "read_config_slot E slot =
     and_then (read_whole_config E) (\<lambda>zone.
       let n = unat (slot_as_u8 slot); sc_off = 20 + 2 * n; kc_off = 96 + 2 * n
       in return_ok [zone ! sc_off, zone ! (sc_off + 1), zone ! kc_off, zone ! (kc_off + 1)])"

definition read_config_block :: "('h, 'e, 'c) Env \<Rightarrow> u8 \<Rightarrow> ('h, 'e, 'c, bytes) svc" where
  "read_config_block E block =
     (if block > 3 then return_err (InvalidFormat OutOfRange)
      else and_then (read_whole_config E) (\<lambda>zone.
             let start = unat block * 32 in return_ok (slice zone start (start + 32))))"

definition service_read_slot_block ::
  "('h, 'e, 'c) Env \<Rightarrow> Slot \<Rightarrow> u8 \<Rightarrow> ('h, 'e, 'c, bytes) svc" where
  "service_read_slot_block E slot block = in_channel E (read_slot_block (env_hal E) slot block)"

definition service_read_slot_word ::
  "('h, 'e, 'c) Env \<Rightarrow> Slot \<Rightarrow> u8 \<Rightarrow> u8 \<Rightarrow> ('h, 'e, 'c, bytes) svc" where
  "service_read_slot_word E slot block offset_words =
     in_channel E (read_slot_word (env_hal E) slot block offset_words)"

definition get_pin_status :: "('h, 'e, 'c) Env \<Rightarrow> ('h, 'e, 'c, PinStatus) svc" where
  "get_pin_status E =
     and_then (in_channel E
                 (and_then (counter_read (env_hal E) Counter0) (\<lambda>c0.
                  and_then (counter_read (env_hal E) Counter1) (\<lambda>c1. return_ok (c0, c1)))))
       (\<lambda>(c0, c1).
     and_then (gets (\<lambda>s. Session_is_active (session s) (clock_now E s))) (\<lambda>active.
       return_ok \<lparr>pin_tries_remaining = retries_remaining c0 PIN_MAX_RETRIES,
                  puk_tries_remaining = retries_remaining c1 PUK_MAX_RETRIES,
                  session_active = active\<rparr>))"

section \<open>Session\<close>

definition close_session :: "('h, 'c) CryptoService \<Rightarrow> ('h, 'c) CryptoService" where
  "close_session s = s\<lparr>session := Session_close (session s)\<rparr>"

definition is_session_active :: "('h, 'e, 'c) Env \<Rightarrow> ('h, 'c) CryptoService \<Rightarrow> bool" where
  "is_session_active E s = Session_is_active (session s) (clock_now E s)"

definition open_session_now :: "('h, 'e, 'c) Env \<Rightarrow> ('h, 'e, 'c, unit) svc" where
  "open_session_now E =
     and_then (gets (clock_now E)) (\<lambda>now.
       modify (\<lambda>s. s\<lparr>session := Session_open now (session s)\<rparr>))"

definition touch_session :: "u64 \<Rightarrow> ('h, 'e, 'c, unit) svc" where
  "touch_session now = modify (\<lambda>s. s\<lparr>session := Session_touch now (session s)\<rparr>)"

section \<open>Private workflows\<close>

definition checkmac_with_hash ::
  "('h, 'e, 'c) Env \<Rightarrow> Slot \<Rightarrow> bytes \<Rightarrow> bytes \<Rightarrow> ('h, 'e, 'c, bool) svc" where
  "checkmac_with_hash E slot expected_slot_value sn =
     (let H = env_hal E in
      on_atecc (and_then (open_channel H) (\<lambda>_.
                and_then (random H) (\<lambda>challenge.
                  let other_data = checkmac_other_data (slot_as_u8 slot) sn;
                      response = checkmac_response (sha256 E) expected_slot_value challenge
                                   other_data sn in
                and_then (attempt (checkmac H slot challenge response other_data)) (\<lambda>result.
                and_then (close H) (\<lambda>_. of_result result))))))"

text \<open>
  The increment loop of \<open>refresh_counter_batch\<close>: \<open>ExecutionError\<close> ends it with a
  closed channel and \<open>Ok\<close>, any other error closes and ignores the close's result.
\<close>

fun bump_counter :: "('h, 'e) AteccHal \<Rightarrow> CounterId \<Rightarrow> nat \<Rightarrow> ('h, 'e, unit) chan" where
  "bump_counter H counter 0 = close H"
| "bump_counter H counter (Suc n) =
     and_then (attempt (counter_increment H counter)) (\<lambda>result.
       case result of
         Inr _ \<Rightarrow> bump_counter H counter n
       | Inl e \<Rightarrow>
           if e = Chip ExecutionError then close H
           else and_then (attempt (close H)) (\<lambda>_. return_err e))"

definition refresh_counter_batch ::
  "('h, 'e, 'c) Env \<Rightarrow> CounterId \<Rightarrow> u8 \<Rightarrow> ('h, 'e, 'c, unit) svc" where
  "refresh_counter_batch E counter batch_size =
     (let H = env_hal E in
      on_atecc (and_then (open_channel H) (\<lambda>_.
                and_then (counter_read H counter) (\<lambda>current.
                  bump_counter H counter (unat (refresh_bumps current batch_size))))))"

definition write_slot_encrypted ::
  "('h, 'e, 'c) Env \<Rightarrow> Slot \<Rightarrow> bytes \<Rightarrow> bytes \<Rightarrow> bytes \<Rightarrow> ('h, 'e, 'c, unit) svc" where
  "write_slot_encrypted E target_slot plaintext io_key chip_serial =
     (let H = env_hal E in
      in_channel E
        (and_then (random H) (\<lambda>nonce_input.
         and_then (nonce_passthrough H TempKey nonce_input) (\<lambda>_.
           let io_slot = slot_as_u8 SLOT_IO_KEY in
         and_then (gendig H GenDigData (ucast io_slot)) (\<lambda>_.
           let session_key = derive_session_key (sha256 E) io_key nonce_input io_slot chip_serial;
               ciphertext = encrypt_payload plaintext session_key;
               mac = write_mac (sha256 E) session_key plaintext target_slot 0 chip_serial;
               payload = build_encrypted_write_payload ciphertext mac;
               address = data_address target_slot 0 0
           in write_32_encrypted H ZoneData address payload)))))"

definition random_puk_digits :: "bytes \<Rightarrow> bytes" where
  "random_puk_digits rnd = map2 (\<lambda>_ r. 0x30 + r mod 10) (replicate PUK_LEN (0x30 :: u8)) rnd"

definition generate_random_puk :: "('h, 'e, 'c) Env \<Rightarrow> ('h, 'e, 'c, bytes) svc" where
  "generate_random_puk E =
     and_then (in_channel E (random (env_hal E))) (\<lambda>rnd. return_ok (random_puk_digits rnd))"

section \<open>Configuration zone\<close>

fun write_words ::
  "('h, 'e) AteccHal \<Rightarrow> u8 \<Rightarrow> bytes \<Rightarrow> u8 list \<Rightarrow> ('h, 'e, unit) chan" where
  "write_words H block data [] = return_ok ()"
| "write_words H block data (word_offset # ws) =
     (let address = config_or_otp_address block word_offset;
          payload_off = unat word_offset * 4;
          chunk = slice data payload_off (payload_off + 4) in
      and_then (write_4 H ZoneConfig address chunk) (\<lambda>_. write_words H block data ws))"

definition write_config_block :: "('h, 'e, 'c) Env \<Rightarrow> u8 \<Rightarrow> bytes \<Rightarrow> ('h, 'e, 'c, unit) svc" where
  "write_config_block E block data =
     (if block > 3 then return_err (InvalidFormat OutOfRange)
      else in_channel E
        (if can_write_block_in_one_transfer block
         then write_32 (env_hal E) ZoneConfig (config_or_otp_address block 0) data
         else write_words (env_hal E) block data (writable_words_in_block block)))"

section \<open>PIN and PUK\<close>

definition check_format :: "bytes \<Rightarrow> ('h, 'e, 'c, unit) svc" where
  "check_format code = map_err InvalidFormat (of_result (validate_digits code))"

definition verify_pin :: "('h, 'e, 'c) Env \<Rightarrow> bytes \<Rightarrow> ('h, 'e, 'c, unit) svc" where
  "verify_pin E pin =
     and_then (check_format pin) (\<lambda>_.
     and_then (read_counter E Counter0) (\<lambda>count.
       let tries_left = retries_remaining count PIN_MAX_RETRIES in
       if tries_left = 0 then return_err PinBlocked
       else
     and_then (cached_serial E) (\<lambda>sn.
       let salt = pin_salt (sha256 E) sn;
           computed_pin_hash = pin_hash (sha256 E) pin salt in
     and_then (checkmac_with_hash E SLOT_PIN_HASH computed_pin_hash sn) (\<lambda>verified.
       if \<not> verified then
         and_then (read_counter E Counter0) (\<lambda>new_count.
           return_err (PinIncorrect (retries_remaining new_count PIN_MAX_RETRIES)))
       else
     and_then (refresh_counter_batch E Counter0 PIN_MAX_RETRIES) (\<lambda>_.
       open_session_now E)))))"

definition unblock_pin ::
  "('h, 'e, 'c) Env \<Rightarrow> bytes \<Rightarrow> bytes \<Rightarrow> bytes \<Rightarrow> ('h, 'e, 'c, unit) svc" where
  "unblock_pin E puk new_pin io_key =
     and_then (check_format puk) (\<lambda>_.
     and_then (check_format new_pin) (\<lambda>_.
     and_then (read_counter E Counter1) (\<lambda>count.
       let tries_left = retries_remaining count PUK_MAX_RETRIES in
       if tries_left = 0 then return_err Bricked
       else
     and_then (cached_serial E) (\<lambda>sn.
       let salt = puk_salt (sha256 E) sn;
           computed_puk_hash = puk_hash (sha256 E) puk salt in
     and_then (checkmac_with_hash E SLOT_PUK_HASH computed_puk_hash sn) (\<lambda>verified.
       if \<not> verified then
         and_then (read_counter E Counter1) (\<lambda>new_count.
           return_err (PukIncorrect (retries_remaining new_count PUK_MAX_RETRIES)))
       else
       let new_pin_hash = pin_hash (sha256 E) new_pin (pin_salt (sha256 E) sn) in
     and_then (write_slot_encrypted E SLOT_PIN_HASH new_pin_hash io_key sn) (\<lambda>_.
     and_then (refresh_counter_batch E Counter1 PUK_MAX_RETRIES) (\<lambda>_.
       refresh_counter_batch E Counter0 PIN_MAX_RETRIES)))))))"

definition set_pin ::
  "('h, 'e, 'c) Env \<Rightarrow> bytes \<Rightarrow> bytes \<Rightarrow> bytes \<Rightarrow> ('h, 'e, 'c, unit) svc" where
  "set_pin E old_pin new_pin io_key =
     and_then (check_format old_pin) (\<lambda>_.
     and_then (check_format new_pin) (\<lambda>_.
     and_then (read_counter E Counter0) (\<lambda>count.
       let tries_left = retries_remaining count PIN_MAX_RETRIES in
       if tries_left = 0 then return_err PinBlocked
       else
     and_then (cached_serial E) (\<lambda>sn.
       let old_pin_hash = pin_hash (sha256 E) old_pin (pin_salt (sha256 E) sn) in
     and_then (checkmac_with_hash E SLOT_PIN_HASH old_pin_hash sn) (\<lambda>verified.
       if \<not> verified then
         and_then (read_counter E Counter0) (\<lambda>new_count.
           return_err (PinIncorrect (retries_remaining new_count PIN_MAX_RETRIES)))
       else
       let new_pin_hash = pin_hash (sha256 E) new_pin (pin_salt (sha256 E) sn) in
     and_then (write_slot_encrypted E SLOT_PIN_HASH new_pin_hash io_key sn) (\<lambda>_.
     and_then (refresh_counter_batch E Counter0 PIN_MAX_RETRIES) (\<lambda>_.
       open_session_now E)))))))"

definition set_puk ::
  "('h, 'e, 'c) Env \<Rightarrow> bytes \<Rightarrow> bytes \<Rightarrow> bytes \<Rightarrow> ('h, 'e, 'c, unit) svc" where
  "set_puk E old_puk new_puk io_key =
     and_then (check_format old_puk) (\<lambda>_.
     and_then (check_format new_puk) (\<lambda>_.
     and_then (gets (clock_now E)) (\<lambda>now.
     and_then (gets (\<lambda>s. Session_is_active (session s) now)) (\<lambda>active.
       if \<not> active then return_err PinRequired
       else
     and_then (read_counter E Counter1) (\<lambda>count.
       if retries_remaining count PUK_MAX_RETRIES = 0 then return_err Bricked
       else
     and_then (cached_serial E) (\<lambda>sn.
       let old_puk_hash = puk_hash (sha256 E) old_puk (puk_salt (sha256 E) sn) in
     and_then (checkmac_with_hash E SLOT_PUK_HASH old_puk_hash sn) (\<lambda>verified.
       if \<not> verified then
         and_then (read_counter E Counter1) (\<lambda>new_count.
           return_err (PukIncorrect (retries_remaining new_count PUK_MAX_RETRIES)))
       else
       let new_puk_hash = puk_hash (sha256 E) new_puk (puk_salt (sha256 E) sn) in
     and_then (write_slot_encrypted E SLOT_PUK_HASH new_puk_hash io_key sn) (\<lambda>_.
     and_then (refresh_counter_batch E Counter1 PUK_MAX_RETRIES) (\<lambda>_.
       touch_session now)))))))))"

fun regenerate_keys :: "('h, 'e) AteccHal \<Rightarrow> u8 list \<Rightarrow> ('h, 'e, unit) chan" where
  "regenerate_keys H [] = return_ok ()"
| "regenerate_keys H (slot_idx # idxs) =
     and_then (genkey_create H (Slot slot_idx)) (\<lambda>_. regenerate_keys H idxs)"

definition emergency_reset :: "('h, 'e, 'c) Env \<Rightarrow> bytes \<Rightarrow> ('h, 'e, 'c, bytes) svc" where
  "emergency_reset E io_key =
     and_then (read_counter E Counter0) (\<lambda>c0.
     and_then (read_counter E Counter1) (\<lambda>c1.
       let pin_left = retries_remaining c0 PIN_MAX_RETRIES;
           puk_left = retries_remaining c1 PUK_MAX_RETRIES in
       if pin_left \<noteq> 0 \<or> puk_left \<noteq> 0
       then return_err (EmergencyResetNotPermitted pin_left puk_left)
       else
     and_then (cached_serial E) (\<lambda>sn.
     and_then (in_channel E (regenerate_keys (env_hal E) [0, 1, 2, 3, 4, 7])) (\<lambda>_.
     and_then (generate_random_puk E) (\<lambda>new_puk.
       let new_puk_hash = puk_hash (sha256 E) new_puk (puk_salt (sha256 E) sn) in
     and_then (write_slot_encrypted E SLOT_PUK_HASH new_puk_hash io_key sn) (\<lambda>_.
     and_then (refresh_counter_batch E Counter1 PUK_MAX_RETRIES) (\<lambda>_.
       let default_hash = pin_hash (sha256 E) PIN_DEFAULT (pin_salt (sha256 E) sn) in
     and_then (write_slot_encrypted E SLOT_PIN_HASH default_hash io_key sn) (\<lambda>_.
     and_then (refresh_counter_batch E Counter0 PIN_MAX_RETRIES) (\<lambda>_.
       return_ok new_puk)))))))))"

section \<open>Locks and provisioning\<close>

definition service_lock_config_zone :: "('h, 'e, 'c) Env \<Rightarrow> u16 \<Rightarrow> ('h, 'e, 'c, unit) svc" where
  "service_lock_config_zone E expected_crc =
     in_channel_always_closed E (lock_config_zone (env_hal E) expected_crc)"

definition service_lock_data_zone :: "('h, 'e, 'c) Env \<Rightarrow> ('h, 'e, 'c, unit) svc" where
  "service_lock_data_zone E = in_channel_always_closed E (lock_data_zone (env_hal E))"

definition service_lock_slot :: "('h, 'e, 'c) Env \<Rightarrow> Slot \<Rightarrow> ('h, 'e, 'c, unit) svc" where
  "service_lock_slot E slot = in_channel_always_closed E (lock_slot (env_hal E) slot)"

definition provision_slot :: "('h, 'e, 'c) Env \<Rightarrow> Slot \<Rightarrow> bytes \<Rightarrow> ('h, 'e, 'c, unit) svc" where
  "provision_slot E slot value =
     (let allowed = slot = SLOT_PIN_HASH \<or> slot = SLOT_PUK_HASH \<or> slot = SLOT_IO_KEY in
      if \<not> allowed then return_err (InvalidSlot slot)
      else in_channel E (write_32 (env_hal E) ZoneData (data_address slot 0 0) value))"

definition provision_initial_puk :: "('h, 'e, 'c) Env \<Rightarrow> ('h, 'e, 'c, bytes) svc" where
  "provision_initial_puk E =
     and_then (cached_serial E) (\<lambda>sn.
     and_then (generate_random_puk E) (\<lambda>new_puk.
     and_then (provision_slot E SLOT_PUK_HASH
                 (puk_hash (sha256 E) new_puk (puk_salt (sha256 E) sn))) (\<lambda>_.
       return_ok new_puk)))"

definition provision_initial_pin :: "('h, 'e, 'c) Env \<Rightarrow> ('h, 'e, 'c, unit) svc" where
  "provision_initial_pin E =
     and_then (cached_serial E) (\<lambda>sn.
       provision_slot E SLOT_PIN_HASH (pin_hash (sha256 E) PIN_DEFAULT (pin_salt (sha256 E) sn)))"

definition provision_initial_io_key :: "('h, 'e, 'c) Env \<Rightarrow> ('h, 'e, 'c, bytes) svc" where
  "provision_initial_io_key E =
     and_then (in_channel E (random (env_hal E))) (\<lambda>io_key.
     and_then (provision_slot E SLOT_IO_KEY io_key) (\<lambda>_. return_ok io_key))"

section \<open>Signing\<close>

definition service_sign :: "('h, 'e, 'c) Env \<Rightarrow> Slot \<Rightarrow> bytes \<Rightarrow> ('h, 'e, 'c, bytes) svc" where
  "service_sign E slot digest =
     and_then (gets (clock_now E)) (\<lambda>now.
     and_then (gets (\<lambda>s. Session_is_active (session s) now)) (\<lambda>active.
       if \<not> active then return_err PinRequired
       else
     and_then (in_channel E
                 (and_then (nonce_passthrough (env_hal E) MsgDigBuf digest) (\<lambda>_.
                    sign_external (env_hal E) slot))) (\<lambda>signature.
     and_then (touch_session now) (\<lambda>_. return_ok signature))))"

section \<open>What the methods leave alone\<close>

lemmas keeps_intros = keeps_and_then keeps_attempt keeps_map_err keeps_if keeps_case_sum
  keeps_case_option keeps_case_prod keeps_ok keeps_err keeps_of_result keeps_gets

text \<open>
  The host-side part of the service state, everything but the chip handle and the cached
  serial number.
\<close>

definition host_state :: "('h, 'c) CryptoService \<Rightarrow> 'c \<times> Session" where
  "host_state s = (clock s, session s)"

lemma keeps_on_atecc [simp, intro]:
  "keeps host_state (on_atecc m)" "keeps session (on_atecc m)" "keeps clock (on_atecc m)"
  "keeps serial (on_atecc m)"
  by (simp_all add: keeps_def on_atecc_def host_state_def split: prod.split)

lemma keeps_in_channel [simp, intro]:
  "keeps host_state (in_channel E m)" "keeps session (in_channel E m)" "keeps serial (in_channel E m)"
  "keeps host_state (in_channel_always_closed E m)" "keeps session (in_channel_always_closed E m)"
  "keeps serial (in_channel_always_closed E m)"
  by (simp_all add: in_channel_def in_channel_always_closed_def)

lemma keeps_check_format [simp, intro]: "keeps p (check_format code)"
  by (auto simp: check_format_def intro!: keeps_intros)

lemma keeps_host_reads [simp, intro]:
  "keeps host_state (read_counter E c)" "keeps host_state (read_whole_config E)"
  "keeps host_state (checkmac_with_hash E slot v sn)"
  "keeps host_state (refresh_counter_batch E c b)" "keeps host_state (generate_random_puk E)"
  "keeps host_state (write_slot_encrypted E slot p k sn)"
  by (auto simp: read_counter_def read_whole_config_def checkmac_with_hash_def
      refresh_counter_batch_def generate_random_puk_def write_slot_encrypted_def Let_def
      intro!: keeps_intros)

lemma keeps_host_cached_serial [simp, intro]: "keeps host_state (cached_serial E)"
  by (auto simp: cached_serial_def Let_def host_state_def intro!: keeps_intros keeps_modify)

lemma keeps_host_operations [simp, intro]:
  "keeps host_state (service_info E)" "keeps host_state (get_pubkey E slot)"
  "keeps host_state (service_genkey_create E slot)" "keeps host_state (read_config_slot E slot)"
  "keeps host_state (read_config_block E block)" "keeps host_state (write_config_block E block d)"
  "keeps host_state (service_read_slot_block E slot block)"
  "keeps host_state (service_read_slot_word E slot block off)" "keeps host_state (get_pin_status E)"
  "keeps host_state (service_lock_config_zone E crc)" "keeps host_state (service_lock_data_zone E)"
  "keeps host_state (service_lock_slot E slot)" "keeps host_state (provision_slot E slot v)"
  by (auto simp: service_info_def is_provisioned_def get_pubkey_def service_genkey_create_def
      read_config_slot_def read_config_block_def write_config_block_def service_read_slot_block_def
      service_read_slot_word_def get_pin_status_def service_lock_config_zone_def
      service_lock_data_zone_def service_lock_slot_def provision_slot_def Let_def
      intro!: keeps_intros)

lemma keeps_host_workflows [simp, intro]:
  "keeps host_state (provision_initial_puk E)" "keeps host_state (provision_initial_pin E)"
  "keeps host_state (provision_initial_io_key E)" "keeps host_state (unblock_pin E puk pin k)"
  "keeps host_state (emergency_reset E k)"
  by (auto simp: provision_initial_puk_def provision_initial_pin_def provision_initial_io_key_def
      unblock_pin_def emergency_reset_def Let_def intro!: keeps_intros)

lemma host_keeps_session: "keeps host_state m \<Longrightarrow> keeps session m"
  by (auto simp: keeps_def host_state_def)

section \<open>Sessions open only on a confirmed PIN\<close>

text \<open>
  A run of the PIN check: the counter still grants an attempt, and the chip confirmed
  the MAC computed from the PIN's hash.
\<close>

definition pin_confirmed ::
  "('h, 'e, 'c) Env \<Rightarrow> bytes \<Rightarrow> ('h, 'c) CryptoService \<Rightarrow> bytes \<Rightarrow> ('h, 'c) CryptoService \<Rightarrow> bool" where
  "pin_confirmed E pin s sn t \<longleftrightarrow>
     list_all is_ascii_digit pin \<and>
     (\<exists>count s1 s2. read_counter E Counter0 s = (Inr count, s1) \<and>
        retries_remaining count PIN_MAX_RETRIES \<noteq> 0 \<and> cached_serial E s1 = (Inr sn, s2) \<and>
        checkmac_with_hash E SLOT_PIN_HASH
          (pin_hash (sha256 E) pin (pin_salt (sha256 E) sn)) sn s2 = (Inr True, t))"

lemma check_format_Inr [simp]:
  "check_format code s = (Inr u, t) \<longleftrightarrow> list_all is_ascii_digit code \<and> t = s"
  by (auto simp: check_format_def map_err_eq_Inr of_result_def)

lemma open_session_now_eq:
  "open_session_now E s = (Inr (), s\<lparr>session := Session_open (clock_now E s) (session s)\<rparr>)"
  by (simp add: open_session_now_def and_then_def gets_def modify_def)

lemma return_err_not_Inr [simp]: "return_err e s \<noteq> (Inr a, t)"
  by (simp add: return_err_def)

lemma verify_pin_Inr:
  "verify_pin E pin s = (Inr (), t) \<longleftrightarrow>
     (\<exists>sn s1 s2. pin_confirmed E pin s sn s1 \<and>
        refresh_counter_batch E Counter0 PIN_MAX_RETRIES s1 = (Inr (), s2) \<and>
        t = s2\<lparr>session := Session_open (clock_now E s2) (session s2)\<rparr>)"
  by (auto simp: verify_pin_def pin_confirmed_def and_then_eq_Inr Let_def open_session_now_eq
      split: if_splits) blast+

lemma set_pin_Inr:
  "set_pin E old_pin new_pin io_key s = (Inr (), t) \<longleftrightarrow>
     list_all is_ascii_digit new_pin \<and>
     (\<exists>sn s1 s2 s3. pin_confirmed E old_pin s sn s1 \<and>
        write_slot_encrypted E SLOT_PIN_HASH
          (pin_hash (sha256 E) new_pin (pin_salt (sha256 E) sn)) io_key sn s1 = (Inr (), s2) \<and>
        refresh_counter_batch E Counter0 PIN_MAX_RETRIES s2 = (Inr (), s3) \<and>
        t = s3\<lparr>session := Session_open (clock_now E s3) (session s3)\<rparr>)"
  by (auto simp: set_pin_def pin_confirmed_def and_then_eq_Inr Let_def open_session_now_eq
      split: if_splits) blast+

text \<open>On every error path of the two, the host state is as before.\<close>

definition keeps_on_error :: "('s \<Rightarrow> 'v) \<Rightarrow> ('s, 'e, 'a) act \<Rightarrow> bool" where
  "keeps_on_error p m \<longleftrightarrow> (\<forall>s e t. m s = (Inl e, t) \<longrightarrow> p t = p s)"

lemma keeps_on_error_tail:
  assumes "keeps p m" and "\<And>a. keeps_on_error p (f a)"
  shows "keeps_on_error p (and_then m f)"
  using assms unfolding keeps_on_error_def and_then_eq_Inl by (metis keepsE)

lemma keeps_on_error_keeps: "keeps p m \<Longrightarrow> keeps_on_error p m"
  unfolding keeps_on_error_def by (metis keepsE)

lemma keeps_on_error_open [simp]: "keeps_on_error p (open_session_now E)"
  by (simp add: keeps_on_error_def open_session_now_eq)

lemma keeps_on_error_touch [simp]: "keeps_on_error p (touch_session now)"
  by (simp add: keeps_on_error_def touch_session_def modify_def)

lemma keeps_on_error_if:
  "keeps_on_error p m \<Longrightarrow> keeps_on_error p n \<Longrightarrow> keeps_on_error p (if b then m else n)"
  by simp

lemma errors_keep_host_state:
  "keeps_on_error host_state (verify_pin E pin)"
  "keeps_on_error host_state (set_pin E pin new_pin k)"
  "keeps_on_error host_state (set_puk E puk new_puk k)"
  unfolding verify_pin_def set_pin_def set_puk_def Let_def
  by (intro keeps_on_error_tail keeps_on_error_if keeps_on_error_open keeps_on_error_touch
      keeps_host_reads keeps_host_cached_serial keeps_check_format keeps_gets
      | rule keeps_on_error_keeps, intro keeps_intros keeps_host_reads)+

section \<open>Retry arithmetic\<close>

lemma unat_mod_u32: "unat (a mod b) = unat a mod unat (b :: u32)"
  by (simp add: unat_mod_distrib)

lemma unat_ucast_u8_u32: "unat (ucast (b :: u8) :: u32) = unat b"
  using unat_u8_less [of b] by (simp add: unsigned_ucast_eq take_bit_nat_eq_self)

lemma unat_retries_remaining:
  assumes "2 \<le> unat b"
  shows "unat (retries_remaining c b) =
    (if c = 0 then unat b else (unat b - unat c mod unat b) mod unat b)"
proof -
  let ?r = "c mod ucast b"
  have ub: "unat (ucast b :: u32) = unat b" by (rule unat_ucast_u8_u32)
  have r: "unat ?r = unat c mod unat b" by (simp add: unat_mod_u32 ub)
  have lt: "unat ?r < unat b" using assms r by simp
  have b255: "unat b < 256" by (rule unat_u8_less)
  have r8: "unat (ucast ?r :: u8) = unat ?r"
    using lt b255 by (simp add: unsigned_ucast_eq take_bit_nat_eq_self)
  have r0: "?r = 0 \<longleftrightarrow> unat ?r = 0" and r1: "?r = 1 \<longleftrightarrow> unat ?r = 1"
    by (simp_all add: word_unat_eq_iff)
  have sub: "unat (b - x) = unat b - unat x" if "unat x \<le> unat b" for x
    using that by (simp add: unat_sub word_le_nat_alt)
  show ?thesis
  proof (cases "c = 0 \<or> unat ?r = 0")
    case True
    then show ?thesis using r r0 by (auto simp: retries_remaining_def Let_def)
  next
    case False
    then have "unat (retries_remaining c b) = unat b - unat ?r"
      using r0 r1 sub [of 1] sub [of "ucast ?r"] assms lt r8
      by (auto simp: retries_remaining_def Let_def)
    then show ?thesis using False r lt by simp
  qed
qed

lemma unat_refresh_bumps:
  assumes "2 \<le> unat b"
  shows "unat (refresh_bumps c b) =
    (let r = unat c mod unat b in if r = 0 then 1 else if r = 1 then 0 else unat b - r + 1)"
proof -
  let ?r = "c mod ucast b" and ?b = "ucast b :: u32"
  have ub: "unat ?b = unat b" by (rule unat_ucast_u8_u32)
  have r: "unat ?r = unat c mod unat b" by (simp add: unat_mod_u32 ub)
  have lt: "unat ?r < unat b" using assms r by simp
  have r0: "?r = 0 \<longleftrightarrow> unat ?r = 0" and r1: "?r = 1 \<longleftrightarrow> unat ?r = 1"
    by (simp_all add: word_unat_eq_iff)
  have "unat (?b - ?r) = unat b - unat ?r" using lt ub by (simp add: unat_sub word_le_nat_alt)
  then have "unat (?b - ?r + 1) = unat b - unat ?r + 1"
    using unat_u8_less [of b] by (simp add: unat_word_ariths)
  then show ?thesis using r r0 r1 by (auto simp: refresh_bumps_def Let_def)
qed

lemma refresh_bumps_target:
  assumes "2 \<le> unat b"
  shows "(unat c + unat (refresh_bumps c b)) mod unat b = 1" and "unat (refresh_bumps c b) < unat b"
proof -
  let ?r = "unat c mod unat b"
  have c: "unat c = unat b * (unat c div unat b) + ?r" by simp
  have lt: "?r < unat b" using assms by simp
  show "unat (refresh_bumps c b) < unat b"
    using lt assms by (auto simp: unat_refresh_bumps Let_def)
  have "(?r + unat (refresh_bumps c b)) mod unat b = 1"
  proof (cases "2 \<le> ?r")
    case True
    then have "?r + unat (refresh_bumps c b) = unat b + 1"
      using lt by (simp add: unat_refresh_bumps [OF assms] Let_def)
    then show ?thesis using assms by (simp add: mod_Suc)
  next
    case False
    then have "?r = 0 \<or> ?r = 1" by linarith
    then show ?thesis using assms by (auto simp: unat_refresh_bumps [OF assms] Let_def)
  qed
  then show "(unat c + unat (refresh_bumps c b)) mod unat b = 1" by (simp add: mod_add_left_eq)
qed

section \<open>Signing and the recovery path\<close>

lemma service_sign_eq:
  "service_sign E slot digest s =
     (if \<not> is_session_active E s then (Inl PinRequired, s)
      else case in_channel E (and_then (nonce_passthrough (env_hal E) MsgDigBuf digest)
                                (\<lambda>_. sign_external (env_hal E) slot)) s of
        (Inl e, t) \<Rightarrow> (Inl e, t)
      | (Inr sig, t) \<Rightarrow> (Inr sig, t\<lparr>session := Session_touch (clock_now E s) (session t)\<rparr>))"
  by (simp add: service_sign_def is_session_active_def and_then_def gets_def return_err_def
      touch_session_def modify_def return_ok_def split: prod.split sum.split)

lemma in_channel_Inr:
  "in_channel E body s = (Inr r, t) \<longleftrightarrow>
     (\<exists>a1 a2 a3. open_channel (env_hal E) (atecc s) = (Inr (), a1) \<and> body a1 = (Inr r, a2) \<and>
        close (env_hal E) a2 = (Inr (), a3) \<and> t = s\<lparr>atecc := a3\<rparr>)"
proof -
  have "in_channel E body s = (Inr r, t) \<longleftrightarrow>
      (\<exists>a. and_then (open_channel (env_hal E)) (\<lambda>_. and_then body (\<lambda>r.
              and_then (close (env_hal E)) (\<lambda>_. return_ok r))) (atecc s) = (Inr r, a) \<and>
           t = s\<lparr>atecc := a\<rparr>)"
    by (auto simp: in_channel_def on_atecc_def map_sum_def split: prod.splits sum.splits)
  then show ?thesis by (auto simp: and_then_eq_Inr return_ok_def)
qed

lemma sized_in_channel:
  assumes "sized_reply body n" and "in_channel E body s = (Inr bs, t)"
  shows "length bs = n"
  using assms by (auto simp: in_channel_Inr sized_reply_def)

lemma sized_reply_tail: "(\<And>a. sized_reply (f a) n) \<Longrightarrow> sized_reply (and_then m f) n"
  by (auto simp: sized_reply_def and_then_eq_Inr)

lemma random_puk_digits_ok:
  assumes "8 \<le> length rnd"
  shows "length (random_puk_digits rnd) = 8" and "list_all is_ascii_digit (random_puk_digits rnd)"
proof -
  show "length (random_puk_digits rnd) = 8"
    using assms by (simp add: random_puk_digits_def PUK_LEN_def)
  have "is_ascii_digit (0x30 + r mod 10)" for r :: u8
  proof -
    have "unat (r mod 10) < 10" by (simp add: unat_mod_distrib)
    then show ?thesis
      by (simp add: is_ascii_digit_def word_le_nat_alt unat_word_ariths)
  qed
  then show "list_all is_ascii_digit (random_puk_digits rnd)"
    by (auto simp: random_puk_digits_def list_all_iff in_set_zip)
qed

lemma generate_random_puk_digits:
  assumes "generate_random_puk E s = (Inr puk, t)"
  shows "length puk = 8 \<and> list_all is_ascii_digit puk"
proof -
  from assms obtain rnd where "in_channel E (random (env_hal E)) s = (Inr rnd, t)"
    and p: "puk = random_puk_digits rnd"
    by (auto simp: generate_random_puk_def and_then_eq_Inr return_ok_def)
  then have "length rnd = 32" by (intro sized_in_channel [OF random_reply.sized_reply_axioms])
  with p random_puk_digits_ok [of rnd] show ?thesis by simp
qed

text \<open>The gate of the emergency reset: both counters read and both batches exhausted.\<close>

definition both_exhausted ::
  "('h, 'e, 'c) Env \<Rightarrow> ('h, 'c) CryptoService \<Rightarrow> ('h, 'c) CryptoService \<Rightarrow> bool" where
  "both_exhausted E s t \<longleftrightarrow>
     (\<exists>c0 c1 s1. read_counter E Counter0 s = (Inr c0, s1) \<and> read_counter E Counter1 s1 = (Inr c1, t) \<and>
        retries_remaining c0 PIN_MAX_RETRIES = 0 \<and> retries_remaining c1 PUK_MAX_RETRIES = 0)"

lemma emergency_reset_Inr:
  assumes "emergency_reset E io_key s = (Inr puk, t)"
  shows "\<exists>u. both_exhausted E s u" and "length puk = 8 \<and> list_all is_ascii_digit puk"
proof -
  from assms obtain c0 c1 s1 s2 s3 s4 where
    g: "read_counter E Counter0 s = (Inr c0, s1)" "read_counter E Counter1 s1 = (Inr c1, s2)"
      "retries_remaining c0 PIN_MAX_RETRIES = 0" "retries_remaining c1 PUK_MAX_RETRIES = 0"
    and p: "generate_random_puk E s3 = (Inr puk, s4)"
    by (auto simp: emergency_reset_def and_then_eq_Inr Let_def return_ok_def split: if_splits)
  from g show "\<exists>u. both_exhausted E s u" by (auto simp: both_exhausted_def)
  from p show "length puk = 8 \<and> list_all is_ascii_digit puk" by (rule generate_random_puk_digits)
qed

end
