(* ===== verification/Config_Zone.thy ===== *)
theory Config_Zone
  imports Crypto_Service
begin

text \<open>
  \<^verbatim>\<open>src/tools/config-generator/src\<close>: the 128-byte image of the configuration zone
  (\<^verbatim>\<open>blob.rs\<close>), the storage form of the monotonic counters
  (\<^verbatim>\<open>counter_encoding.rs\<close>) and the self-check of the generator
  (\<^verbatim>\<open>crc.rs\<close>, \<^verbatim>\<open>main.rs\<close>). The command line, the files that are written and the
  annotated listing (\<^verbatim>\<open>annotate.rs\<close>) are the subject of the theory \<open>Listing\<close>.
\<close>

unbundle bit_operations_syntax

section \<open>Counter storage (counter_encoding.rs)\<close>

definition COUNTER_MAX_VALUE :: u32 where "COUNTER_MAX_VALUE = 2097151"
definition COUNTER_STORAGE_SIZE :: nat where "COUNTER_STORAGE_SIZE = 8"

definition u16_be :: "u16 \<Rightarrow> bytes" where
  "u16_be w = [ucast (drop_bit 8 w), ucast (w AND 0xFF)]"

definition encode_counter_value :: "u32 \<Rightarrow> bytes" where
  "encode_counter_value val =
     (let val = min val COUNTER_MAX_VALUE;
          lin_a = ucast (drop_bit (unat (val mod 32)) (0xFFFF :: u32)) :: u16;
          lin_b = (if val \<ge> 16 then ucast (drop_bit (unat ((val - 16) mod 32)) (0xFFFF :: u32)) else 0xFFFF) :: u16;
          bin_a = ucast (val div 32) :: u16;
          bin_b = (if val \<ge> 16 then ucast ((val - 16) div 32) else 0) :: u16
      in u16_be lin_a @ u16_be lin_b @ u16_be bin_a @ u16_be bin_b)"

section \<open>The image (blob.rs)\<close>

definition SLOT_CFG_ECC_GENKEY_ONLY :: u16 where "SLOT_CFG_ECC_GENKEY_ONLY = 0x2181"
definition SLOT_CFG_ECC_GENKEY_OR_IMPORT :: u16 where "SLOT_CFG_ECC_GENKEY_OR_IMPORT = 0x2381"
definition SLOT_CFG_DATA_PIN_PUK :: u16 where "SLOT_CFG_DATA_PIN_PUK = 0x48A8"
definition SLOT_CFG_DATA_IO_KEY :: u16 where "SLOT_CFG_DATA_IO_KEY = 0x0080"
definition KEY_CFG_ECC_LOCKABLE_OFF :: u16 where "KEY_CFG_ECC_LOCKABLE_OFF = 0x0593"
definition KEY_CFG_ECC_LOCKABLE_ON :: u16 where "KEY_CFG_ECC_LOCKABLE_ON = 0x05B3"
definition KEY_CFG_DATA_GENERIC :: u16 where "KEY_CFG_DATA_GENERIC = 0x001C"
definition I2C_ADDRESS_BYTE :: u8 where "I2C_ADDRESS_BYTE = push_bit 1 0x60"
definition RESERVED2 :: u8 where "RESERVED2 = 0x00"
definition COUNT_MATCH :: u8 where "COUNT_MATCH = 0x00"
definition CHIP_MODE :: u8 where "CHIP_MODE = 0x00"
definition LOCK_VALUE_UNLOCKED :: u8 where "LOCK_VALUE_UNLOCKED = 0x55"
definition LOCK_CONFIG_UNLOCKED :: u8 where "LOCK_CONFIG_UNLOCKED = 0x55"
definition BLOB_SIZE :: nat where "BLOB_SIZE = 128"

lemmas config_values = SLOT_CFG_ECC_GENKEY_ONLY_def SLOT_CFG_ECC_GENKEY_OR_IMPORT_def
  SLOT_CFG_DATA_PIN_PUK_def SLOT_CFG_DATA_IO_KEY_def KEY_CFG_ECC_LOCKABLE_OFF_def
  KEY_CFG_ECC_LOCKABLE_ON_def KEY_CFG_DATA_GENERIC_def I2C_ADDRESS_BYTE_def RESERVED2_def
  COUNT_MATCH_def CHIP_MODE_def LOCK_VALUE_UNLOCKED_def LOCK_CONFIG_UNLOCKED_def BLOB_SIZE_def

definition slot_config_for :: "u8 \<Rightarrow> u16" where
  "slot_config_for slot =
     (if slot \<in> {0, 1} then SLOT_CFG_ECC_GENKEY_ONLY
      else if slot \<in> {5, 6} then SLOT_CFG_DATA_PIN_PUK
      else if slot = 8 then SLOT_CFG_DATA_IO_KEY
      else if slot \<in> {2, 3, 4, 7} then SLOT_CFG_ECC_GENKEY_OR_IMPORT
      else SLOT_CFG_ECC_GENKEY_OR_IMPORT)"

definition key_config_for :: "u8 \<Rightarrow> u16" where
  "key_config_for slot =
     (if slot \<in> {0, 1} then KEY_CFG_ECC_LOCKABLE_OFF
      else if slot \<in> {5, 6, 8} then KEY_CFG_DATA_GENERIC
      else if slot \<in> {2, 3, 4, 7} then KEY_CFG_ECC_LOCKABLE_ON
      else KEY_CFG_ECC_LOCKABLE_ON)"

text \<open>The loop that stores a word per slot from \<open>base\<close> on, low byte first.\<close>

fun write_slot_words :: "(u8 \<Rightarrow> u16) \<Rightarrow> nat \<Rightarrow> nat list \<Rightarrow> bytes \<Rightarrow> bytes" where
  "write_slot_words config_for base [] cfg = cfg"
| "write_slot_words config_for base (slot # slots) cfg =
     (let c = config_for (of_nat slot);
          offset = base + 2 * slot
      in write_slot_words config_for base slots
           (cfg[offset := ucast (c AND 0xFF), offset + 1 := ucast (drop_bit 8 c)]))"

definition blob_build :: bytes where
  "blob_build =
     (let cfg = replicate BLOB_SIZE 0;
          cfg = cfg[16 := I2C_ADDRESS_BYTE, 17 := RESERVED2, 18 := COUNT_MATCH, 19 := CHIP_MODE];
          cfg = write_slot_words slot_config_for 20 [0..<16] cfg;
          counter_factory_init = encode_counter_value 0;
          cfg = copy_at cfg 52 counter_factory_init;
          cfg = copy_at cfg 60 counter_factory_init;
          cfg = cfg[86 := LOCK_VALUE_UNLOCKED, 87 := LOCK_CONFIG_UNLOCKED];
          cfg = cfg[88 := 0xFF, 89 := 0xFF]
      in write_slot_words key_config_for 96 [0..<16] cfg)"

section \<open>The self-check (crc.rs, main.rs)\<close>

text \<open>The generator has its own copy of the CRC routine.\<close>

definition generator_crc16 :: "bytes \<Rightarrow> u16" where
  "generator_crc16 data =
     foldl (\<lambda>crc byte.
       foldl (\<lambda>crc bit_index.
         let data_bit = drop_bit bit_index byte AND 0x01;
             crc_bit = ucast (drop_bit 15 crc AND 0x0001) :: u8;
             crc = push_bit 1 crc
         in if data_bit \<noteq> crc_bit then crc XOR 0x8005 else crc) crc [0..<8]) 0x0000 data"

definition EXPECTED_CRC :: u16 where "EXPECTED_CRC = 0xC92D"

definition generate :: "u16 + bytes \<times> u16" where
  "generate =
     (let blob = blob_build;
          writable = slice blob 16 128;
          crc = generator_crc16 writable
      in if crc \<noteq> EXPECTED_CRC then Inl crc else Inr (blob, crc))"

lemma generator_crc16_eq: "generator_crc16 = crc16"
  by (rule ext) (simp only: generator_crc16_def crc16_def crc_byte_step_def [abs_def] crc_bit_step_def [abs_def]
      POLY_def Let_def)

section \<open>The image, byte by byte\<close>

definition documented_blob :: bytes where
  "documented_blob = replicate 16 0 @
    [0xC0, 0x00, 0x00, 0x00, 0x81, 0x21, 0x81, 0x21, 0x81, 0x23, 0x81, 0x23, 0x81, 0x23, 0xA8, 0x48,
     0xA8, 0x48, 0x81, 0x23, 0x80, 0x00, 0x81, 0x23, 0x81, 0x23, 0x81, 0x23, 0x81, 0x23, 0x81, 0x23,
     0x81, 0x23, 0x81, 0x23, 0xFF, 0xFF, 0xFF, 0xFF, 0x00, 0x00, 0x00, 0x00, 0xFF, 0xFF, 0xFF, 0xFF,
     0x00, 0x00, 0x00, 0x00, 0x00, 0x00, 0x00, 0x00, 0x00, 0x00, 0x00, 0x00, 0x00, 0x00, 0x00, 0x00,
     0x00, 0x00, 0x00, 0x00, 0x00, 0x00, 0x55, 0x55, 0xFF, 0xFF, 0x00, 0x00, 0x00, 0x00, 0x00, 0x00,
     0x93, 0x05, 0x93, 0x05, 0xB3, 0x05, 0xB3, 0x05, 0xB3, 0x05, 0x1C, 0x00, 0x1C, 0x00, 0xB3, 0x05,
     0x1C, 0x00, 0xB3, 0x05, 0xB3, 0x05, 0xB3, 0x05, 0xB3, 0x05, 0xB3, 0x05, 0xB3, 0x05, 0xB3, 0x05]"

lemma blob_build_eq: "blob_build = documented_blob"
  by code_simp

lemma crc_of_image: "crc16 (slice documented_blob 16 128) = 0xC92D"
  by code_simp

section \<open>Reading the storage form of a counter\<close>

definition cleared :: "u16 \<Rightarrow> nat" where
  "cleared w = length (filter (\<lambda>i. \<not> bit w i) [0..<16])"

definition be_u16 :: "u8 \<Rightarrow> u8 \<Rightarrow> u16" where
  "be_u16 hi lo = u16_from_le_bytes lo hi"

text \<open>
  The count is in the first linear half, then, once it is used up, in the second; the
  binary half counts the rounds of 32.
\<close>

definition counter_of_storage :: "bytes \<Rightarrow> nat" where
  "counter_of_storage bs =
     (let lin_a = be_u16 (bs ! 0) (bs ! 1); lin_b = be_u16 (bs ! 2) (bs ! 3);
          bin_a = be_u16 (bs ! 4) (bs ! 5)
      in 32 * unat bin_a + cleared lin_a + (if lin_a = 0 then cleared lin_b else 0))"

lemma ones_masks: "(0xFF :: u16) = mask 8" "(0xFFFF :: u32) = mask 16"
  by (simp_all add: mask_eq_exp_minus_1)

lemma be_u16_bytes: "be_u16 (ucast (drop_bit 8 w)) (ucast (w AND 0xFF)) = w"
proof -
  have "ucast (w AND mask 8) = (ucast w :: u8)" by (rule bit_word_eqI) (auto simp: bit_simps)
  then show ?thesis unfolding ones_masks be_u16_def by (simp only: u16_from_to_le)
qed

definition shifted_ones :: "nat \<Rightarrow> u16" where
  "shifted_ones k = ucast (drop_bit k (0xFFFF :: u32))"

lemma bit_shifted_ones: "bit (shifted_ones k) i \<longleftrightarrow> i + k < 16"
  unfolding shifted_ones_def ones_masks by (auto simp: bit_simps)

lemma cleared_shifted_ones: "cleared (shifted_ones k) = min k 16"
proof -
  have "filter (\<lambda>i. \<not> bit (shifted_ones k) i) [0..<16] = filter (\<lambda>i. 16 - k \<le> i) [0..<16]"
    by (rule filter_cong) (auto simp: bit_shifted_ones)
  also have "\<dots> = [16 - k..<16]"
  proof -
    have "[0..<16] = [0..<16 - k] @ [16 - k..<16]"
      using upt_add_eq_append [of 0 "16 - k" "16 - (16 - k)"] by simp
    moreover have "filter (\<lambda>i. 16 - k \<le> i) [0..<16 - k] = []" by (auto simp: filter_empty_conv)
    moreover have "filter (\<lambda>i. 16 - k \<le> i) [16 - k..<16] = [16 - k..<16]" by (auto intro: filter_True)
    ultimately show ?thesis by simp
  qed
  finally show ?thesis by (simp add: cleared_def)
qed

lemma shifted_ones_zero: "shifted_ones k = 0 \<longleftrightarrow> 16 \<le> k"
proof
  assume "shifted_ones k = 0"
  then have "\<not> bit (shifted_ones k) 0" by simp
  then show "16 \<le> k" by (simp add: bit_shifted_ones)
next
  assume "16 \<le> k"
  then show "shifted_ones k = 0" by (intro bit_word_eqI) (simp add: bit_shifted_ones)
qed

section \<open>Properties\<close>

lemma rotating_counts:
  fixes n :: nat
  shows "32 * (n div 32) + min (n mod 32) 16 + (if 16 \<le> n mod 32 then min ((n - 16) mod 32) 16 else 0) = n"
proof (cases "16 \<le> n mod 32")
  case True
  then have "n - 16 = 32 * (n div 32) + (n mod 32 - 16)"
    using mult_div_mod_eq [of 32 n] by linarith
  then have "(n - 16) mod 32 = (n mod 32 - 16) mod 32" by (simp only: mod_mult_self4)
  then have "(n - 16) mod 32 = n mod 32 - 16"
    using mod_less_divisor [of 32 n] by simp
  moreover have "n mod 32 < 32" by simp
  ultimately show ?thesis using True by simp
next
  case False
  then show ?thesis by simp
qed

text \<open>
  C34. The storage form of a counter. For every value the generator writes eight bytes
  from which the count can be read back: it is the value itself, or the largest count of
  the chip when the value exceeds it. So different counts have different storage forms
  and no value wraps around to a small count; count 0 is the factory form.
\<close>

theorem counter_storage_round_trip:
  "length (encode_counter_value v) = 8 \<and>
   counter_of_storage (encode_counter_value v) = min (unat v) 2097151 \<and>
   encode_counter_value 0 = [0xFF, 0xFF, 0xFF, 0xFF, 0, 0, 0, 0]"
proof -
  define m where "m = min v COUNTER_MAX_VALUE"
  have m: "unat m = min (unat v) 2097151"
    by (simp add: m_def COUNTER_MAX_VALUE_def min_def word_le_nat_alt)
  have bin: "unat (ucast (m div 32) :: u16) = unat m div 32"
  proof -
    have "unat m div 32 < 65536" using m by linarith
    then show ?thesis by (simp add: unsigned_ucast_eq unat_div take_bit_nat_eq_self)
  qed
  have mods: "unat (m mod 32) = unat m mod 32" by (simp add: unat_mod)
  have b16: "16 \<le> m \<Longrightarrow> unat ((m - 16) mod 32) = (unat m - 16) mod 32"
    by (simp add: unat_mod unat_sub word_le_nat_alt)
  have e: "encode_counter_value v =
      u16_be (shifted_ones (unat (m mod 32))) @
      u16_be (if 16 \<le> m then shifted_ones (unat ((m - 16) mod 32)) else 0xFFFF) @
      u16_be (ucast (m div 32)) @ u16_be (if 16 \<le> m then ucast ((m - 16) div 32) else 0)"
    by (simp add: encode_counter_value_def m_def [symmetric] shifted_ones_def Let_def)
  have len: "length (encode_counter_value v) = 8" by (simp add: e u16_be_def)
  have "counter_of_storage (encode_counter_value v) =
      32 * (unat m div 32) + min (unat m mod 32) 16 +
      (if 16 \<le> unat m mod 32 then min ((unat m - 16) mod 32) 16 else 0)"
  proof -
    have "16 \<le> unat m mod 32 \<Longrightarrow> 16 \<le> m" by (simp add: word_le_nat_alt)
    then show ?thesis
      by (simp add: counter_of_storage_def e u16_be_def be_u16_bytes bin cleared_shifted_ones shifted_ones_zero
          mods b16 Let_def)
  qed
  also have "\<dots> = unat m" by (rule rotating_counts)
  finally have "counter_of_storage (encode_counter_value v) = unat m" .
  moreover have "encode_counter_value 0 = [0xFF, 0xFF, 0xFF, 0xFF, 0, 0, 0, 0]" by code_simp
  ultimately show ?thesis using len m by simp
qed

lemma generate_eq: "generate = Inr (documented_blob, 0xC92D)" "length documented_blob = 128"
proof -
  show "length documented_blob = 128" by (simp add: documented_blob_def)
  then show "generate = Inr (documented_blob, 0xC92D)"
    using blob_build_eq crc_of_image generator_crc16_eq by (simp add: generate_def EXPECTED_CRC_def Let_def)
qed

text \<open>The configuration words of a slot as the image stores them, and their fields.\<close>

definition slot_word :: "bytes \<Rightarrow> nat \<Rightarrow> nat \<Rightarrow> u16" where
  "slot_word cfg base slot = u16_from_le_bytes (cfg ! (base + 2 * slot)) (cfg ! (base + 2 * slot + 1))"

definition field :: "u16 \<Rightarrow> nat \<Rightarrow> nat \<Rightarrow> u16" where
  "field w pos width = take_bit width (drop_bit pos w)"

definition pin_guarded_key :: "u16 \<Rightarrow> u16 \<Rightarrow> bool" where
  "pin_guarded_key slot_cfg key_cfg \<longleftrightarrow>
     field slot_cfg 7 1 = 1 \<and> field slot_cfg 12 4 = 2 \<and> field slot_cfg 0 1 = 1 \<and>
     field key_cfg 0 1 = 1 \<and> field key_cfg 2 3 = 4 \<and> field key_cfg 7 1 = 1 \<and>
     field key_cfg 8 4 = ucast (slot_as_u8 SLOT_PIN_HASH)"

definition guarded_hash :: "u16 \<Rightarrow> u16 \<Rightarrow> bool" where
  "guarded_hash slot_cfg key_cfg \<longleftrightarrow>
     field slot_cfg 7 1 = 1 \<and> field slot_cfg 5 1 = 1 \<and> field slot_cfg 12 4 = 4 \<and>
     field slot_cfg 0 4 = ucast (slot_as_u8 SLOT_IO_KEY) \<and>
     field slot_cfg 8 4 = ucast (slot_as_u8 SLOT_IO_KEY) \<and>
     field key_cfg 0 1 = 0 \<and> field key_cfg 2 3 = 7"

definition sealed_secret :: "u16 \<Rightarrow> u16 \<Rightarrow> bool" where
  "sealed_secret slot_cfg key_cfg \<longleftrightarrow>
     field slot_cfg 7 1 = 1 \<and> field slot_cfg 12 4 = 0 \<and> field key_cfg 0 1 = 0 \<and> field key_cfg 2 3 = 7"

text \<open>
  C33. The access policy in the generated image fits the service. Every key slot holds a
  secret P-256 key that can sign external digests, is never written in clear and demands
  authorisation by the slot that the service uses for the PIN hash. The PIN and PUK slots
  are secret, limited in use and, after the lock, writable only encrypted under the slot
  that the service uses for the I/O key; that slot is secret and immutable after the
  lock. Keys occupy all the other slots.
\<close>

theorem image_policy:
  "list_all (\<lambda>slot.
     let sc = slot_word blob_build 20 slot; kc = slot_word blob_build 96 slot in
     if Slot (of_nat slot) = SLOT_PIN_HASH \<or> Slot (of_nat slot) = SLOT_PUK_HASH then guarded_hash sc kc
     else if Slot (of_nat slot) = SLOT_IO_KEY then sealed_secret sc kc
     else pin_guarded_key sc kc) [0..<16]"
  unfolding blob_build_eq by code_simp

end
