(* ===== verification/Listing.thy ===== *)
theory Listing
  imports Config_Zone
begin

text \<open>
  The configuration generator as a program (\<^verbatim>\<open>config-generator/annotate.rs\<close> and
  \<^verbatim>\<open>main.rs\<close>): the annotated listing of an image and the command line. Text is a
  \<open>string\<close>; a \<open>write_*\<close> function returns its buffer with the lines it appends. The slices
  of \<open>format\<close> panic on an image of fewer than 128 bytes, which is \<open>None\<close>. Files are
  written through a parameter.
\<close>

unbundle bit_operations_syntax

section \<open>Formatting\<close>

definition newline :: string where "newline = [CHR 0x0A]"

definition line :: "string \<Rightarrow> string" where "line s = s @ newline"

definition hex_digit :: "nat \<Rightarrow> char" where
  "hex_digit n = ''0123456789ABCDEF'' ! n"

text \<open>The formats \<^verbatim>\<open>{:02X}\<close> of a byte and \<^verbatim>\<open>{:04X}\<close> of a 16-bit word, \<^verbatim>\<open>{}\<close> of a number.\<close>

definition hex_byte :: "u8 \<Rightarrow> string" where
  "hex_byte b = [hex_digit (unat b div 16), hex_digit (unat b mod 16)]"

definition hex_word :: "u16 \<Rightarrow> string" where
  "hex_word w =
     [hex_digit (unat w div 4096), hex_digit (unat w div 256 mod 16), hex_digit (unat w div 16 mod 16),
      hex_digit (unat w mod 16)]"

fun decimal :: "nat \<Rightarrow> string" where
  "decimal n = (if n < 10 then [hex_digit n] else decimal (n div 10) @ [hex_digit (n mod 10)])"

declare decimal.simps [simp del]

definition pad2 :: "string \<Rightarrow> string" where
  "pad2 s = replicate (2 - length s) CHR '' '' @ s"

fun join :: "string \<Rightarrow> string list \<Rightarrow> string" where
  "join sep [] = []"
| "join sep [s] = s"
| "join sep (s # t # ss) = s @ sep @ join sep (t # ss)"

definition hex_row :: "bytes \<Rightarrow> string" where
  "hex_row bytes = join '' '' (map hex_byte bytes)"

definition bits :: "u16 \<Rightarrow> nat \<Rightarrow> u16 \<Rightarrow> string" where
  "bits word n ones = decimal (unat (drop_bit n word AND ones))"

section \<open>Decoding of the fields\<close>

definition decode_chip_mode :: "u8 \<Rightarrow> string" where
  "decode_chip_mode byte =
     (let i2c_extra = byte AND 1;
          ttl = drop_bit 1 byte AND 1;
          wdg_long = drop_bit 2 byte AND 1;
          clk_div = drop_bit 3 byte AND 0x1F;
          clock = (if clk_div = 0x00 then ''M0'' else if clk_div = 0x05 then ''M1''
                   else if clk_div = 0x0D then ''M2'' else ''unknown'');
          watchdog = (if wdg_long = 1 then ''long'' else ''short'')
      in ''I2C_Extra='' @ decimal (unat i2c_extra) @ '', TTL='' @ decimal (unat ttl) @
         '', watchdog='' @ watchdog @ '', clock_divider='' @ clock)"

definition describe_slot_config :: "u8 \<Rightarrow> u16 \<Rightarrow> string" where
  "describe_slot_config slot word =
     (let ext_sig = bits word 0 1;
          is_secret = bits word 7 1;
          gen_key = bits word 8 1;
          priv_write = bits word 9 1;
          write_config = drop_bit 12 word AND 0xF;
          limited_use = bits word 5 1;
          read_key = bits word 0 0xF;
          write_key = bits word 8 0xF;
          wc = (if write_config = 0x0 then ''Always'' else if write_config = 0x2 then ''Never''
                else if write_config = 0x4 then ''Always_then_Encrypt''
                else if write_config = 0x6 then ''Encrypt''
                else if write_config = 0x8 then ''Never (alt)''
                else if write_config = 0xC then ''Never_then_Encrypt'' else ''reserved'')
      in if slot = 5 \<or> slot = 6
         then ''(data) ReadKey='' @ read_key @ '', LimitedUse='' @ limited_use @ '', IsSecret='' @ is_secret @
              '', WriteKey='' @ write_key @ '', WriteConfig='' @ wc
         else if slot = 8
         then ''(I/O master key) IsSecret='' @ is_secret @ '', WriteConfig='' @ wc
         else ''(ECC) ExtSig='' @ ext_sig @ '', IsSecret='' @ is_secret @ '', GenKey='' @ gen_key @
              '', PrivWrite='' @ priv_write @ '', WriteConfig='' @ wc)"

definition describe_key_config :: "u16 \<Rightarrow> string" where
  "describe_key_config word =
     (let private = word AND 1;
          pub_info = bits word 1 1;
          key_type = drop_bit 2 word AND 0x07;
          lockable = bits word 5 1;
          req_auth = bits word 7 1;
          auth_key = bits word 8 0xF;
          kt = (if key_type = 0 then ''B283'' else if key_type = 1 then ''K283'' else if key_type = 4 then ''P-256''
                else if key_type = 6 then ''AES'' else if key_type = 7 then ''Data 32B'' else ''unknown'')
      in if private = 1
         then ''Private='' @ decimal (unat private) @ '', PubInfo='' @ pub_info @ '', KeyType='' @ kt @
              '', Lockable='' @ lockable @ '', ReqAuth='' @ req_auth @ '', AuthKey='' @ auth_key
         else ''Private='' @ decimal (unat private) @ '', KeyType='' @ kt @ '', Lockable='' @ lockable)"

section \<open>The sections of the listing\<close>

definition write_factory_area :: "string \<Rightarrow> bytes \<Rightarrow> string" where
  "write_factory_area out bytes = out @
     line ''Factory area (bytes 0-15, read-only):'' @
     line (''  SN[0..4]      (0-3):   '' @ hex_row (slice bytes 0 4)) @
     line (''  RevNum        (4-7):   '' @ hex_row (slice bytes 4 8)) @
     line (''  SN[4..8]      (8-11):  '' @ hex_row (slice bytes 8 12)) @
     line (''  SN[8]         (12):    '' @ hex_byte (bytes ! 12) @ '' (must be 0xEE on real chip)'') @
     line (''  AES_Enable    (13):    '' @ hex_byte (bytes ! 13)) @
     line (''  I2C_Enable    (14):    '' @ hex_byte (bytes ! 14)) @
     line (''  Reserved1     (15):    '' @ hex_byte (bytes ! 15))"

definition write_device_config :: "string \<Rightarrow> bytes \<Rightarrow> string" where
  "write_device_config out bytes = out @
     line ''Device configuration (bytes 16-19):'' @
     line (''  I2C_Address   (16):    0x'' @ hex_byte (bytes ! 0) @ ''  (7-bit addr 0x'' @
           hex_byte (drop_bit 1 (bytes ! 0)) @ '' in 8-bit form)'') @
     line (''  Reserved2     (17):    0x'' @ hex_byte (bytes ! 1) @ ''  (must be 0x00)'') @
     line (''  CountMatch    (18):    0x'' @ hex_byte (bytes ! 2) @ ''  (feature disabled)'') @
     line (''  ChipMode      (19):    0x'' @ hex_byte (bytes ! 3) @ ''  ('' @ decode_chip_mode (bytes ! 3) @ '')'')"

text \<open>The line that both loops over the slots print.\<close>

definition slot_line :: "(nat \<Rightarrow> u16 \<Rightarrow> string) \<Rightarrow> bytes \<Rightarrow> nat \<Rightarrow> string" where
  "slot_line describe bytes slot =
     (let lo = bytes ! (2 * slot);
          hi = bytes ! (2 * slot + 1);
          word = ucast lo OR push_bit 8 (ucast hi)
      in line (''  Slot '' @ pad2 (decimal slot) @ '': bytes '' @ hex_byte lo @ '' '' @ hex_byte hi @
               '' -> 0x'' @ hex_word word @ ''  '' @ describe slot word))"

definition write_slot_configs :: "string \<Rightarrow> bytes \<Rightarrow> string" where
  "write_slot_configs out bytes =
     foldl (\<lambda>out slot. out @ slot_line (\<lambda>slot. describe_slot_config (of_nat slot)) bytes slot)
       (out @ line ''SlotConfig[16] (bytes 20-51), 2 bytes per slot, little-endian:'') [0..<16]"

definition write_counters :: "string \<Rightarrow> bytes \<Rightarrow> string" where
  "write_counters out bytes = out @
     line ''Counters (bytes 52-67):'' @
     line (''  Counter0      (52-59): '' @ hex_row (slice bytes 0 8)) @
     line (''  Counter1      (60-67): '' @ hex_row (slice bytes 8 16)) @
     line (''  Note: 0xFF... means factory-default '' @ [CHR 0x27] @ ''counter at zero'' @ [CHR 0x27] @ ''.'')"

definition write_feature_area :: "string \<Rightarrow> bytes \<Rightarrow> string" where
  "write_feature_area out bytes = out @
     line ''Feature configuration (bytes 68-83):'' @
     line (''  UseLock              (68):    0x'' @ hex_byte (bytes ! 0)) @
     line (''  VolatileKeyPermission (69):   0x'' @ hex_byte (bytes ! 1)) @
     line (''  SecureBoot           (70-71): '' @ hex_byte (bytes ! 2) @ '' '' @ hex_byte (bytes ! 3)) @
     line (''  KdflvLoc             (72):    0x'' @ hex_byte (bytes ! 4)) @
     line (''  KdflvStr             (73-74): '' @ hex_byte (bytes ! 5) @ '' '' @ hex_byte (bytes ! 6)) @
     line (''  Reserved3            (75-83): '' @ hex_row (slice bytes 7 16))"

definition lock_state :: "u8 \<Rightarrow> string" where
  "lock_state b = (if b = 0x55 then ''unlocked'' else ''locked'')"

definition write_lock_area :: "string \<Rightarrow> bytes \<Rightarrow> string" where
  "write_lock_area out bytes = out @
     line ''Lock and chip-option area (bytes 84-95):'' @
     line (''  UserExtra            (84):    0x'' @ hex_byte (bytes ! 0)) @
     line (''  UserExtraAdd         (85):    0x'' @ hex_byte (bytes ! 1)) @
     line (''  LockValue (data)     (86):    0x'' @ hex_byte (bytes ! 2) @ ''  ('' @ lock_state (bytes ! 2) @ '')'') @
     line (''  LockConfig (config)  (87):    0x'' @ hex_byte (bytes ! 3) @ ''  ('' @ lock_state (bytes ! 3) @ '')'') @
     line (''  SlotLocked bitmap    (88-89): '' @ hex_byte (bytes ! 4) @ '' '' @ hex_byte (bytes ! 5)) @
     line (''  ChipOptions          (90-91): '' @ hex_byte (bytes ! 6) @ '' '' @ hex_byte (bytes ! 7)) @
     line (''  X509format           (92-95): '' @ hex_byte (bytes ! 8) @ '' '' @ hex_byte (bytes ! 9) @ '' '' @
           hex_byte (bytes ! 10) @ '' '' @ hex_byte (bytes ! 11))"

definition write_key_configs :: "string \<Rightarrow> bytes \<Rightarrow> string" where
  "write_key_configs out bytes =
     foldl (\<lambda>out slot. out @ slot_line (\<lambda>slot. describe_key_config) bytes slot)
       (out @ line ''KeyConfig[16] (bytes 96-127), 2 bytes per slot, little-endian:'') [0..<16]"

definition write_summary :: "string \<Rightarrow> bytes \<Rightarrow> u16 \<Rightarrow> string" where
  "write_summary out blob crc = out @
     line ''Summary:'' @
     line (''  Total bytes:                  '' @ decimal (length blob)) @
     line (''  Writable portion (16-127):    '' @ decimal (length blob - 16) @ '' bytes'') @
     line (''  CRC-16 of writable portion:   0x'' @ hex_word crc) @
     line [] @
     line ''Lock the configuration zone only after verifying that the chip'' @
     line ''contains the same bytes 16-127 as above, and only with a host'' @
     line (''command that passes the expected CRC 0x'' @ hex_word crc @ '' as a safety check.'')"

definition listing_header :: string where
  "listing_header =
     line ''ATECC608B configuration zone, 128 bytes'' @
     line ''========================================'' @
     line [] @
     line ''Bytes 0-15 are the read-only factory area. The chip ignores any'' @
     line ''Write command targeted at this range. The values shown here are'' @
     line ''placeholders from the generator and do not reflect what is actually'' @
     line ''stored in the chip.'' @
     line []"

definition format :: "bytes \<Rightarrow> u16 \<Rightarrow> string option" where
  "format blob crc =
     (if length blob < 128 then None
      else
        let out = listing_header;
            out = write_factory_area out (slice blob 0 16) @ line [];
            out = write_device_config out (slice blob 16 20) @ line [];
            out = write_slot_configs out (slice blob 20 52) @ line [];
            out = write_counters out (slice blob 52 68) @ line [];
            out = write_feature_area out (slice blob 68 84) @ line [];
            out = write_lock_area out (slice blob 84 96) @ line [];
            out = write_key_configs out (slice blob 96 128) @ line []
        in Some (write_summary out blob crc))"

section \<open>Reading a listing back\<close>

text \<open>
  \<open>shown n K S f\<close>: for images of \<open>n\<close> bytes that agree at the positions \<open>K\<close>, the text \<open>f\<close>
  can be told from what follows it, and determines the bytes at the positions \<open>S\<close>.
\<close>

definition shown :: "nat \<Rightarrow> nat set \<Rightarrow> nat set \<Rightarrow> (bytes \<Rightarrow> string) \<Rightarrow> bool" where
  "shown n K S f \<longleftrightarrow>
     (\<forall>xs ys r q. length xs = n \<and> length ys = n \<and> (\<forall>i\<in>K. xs ! i = ys ! i) \<and> f xs @ r = f ys @ q \<longrightarrow>
        (\<forall>i\<in>S. xs ! i = ys ! i) \<and> r = q)"

lemma shownI:
  assumes "\<And>xs ys r q. length xs = n \<Longrightarrow> length ys = n \<Longrightarrow> \<forall>i\<in>K. xs ! i = ys ! i \<Longrightarrow> f xs @ r = f ys @ q \<Longrightarrow>
    (\<forall>i\<in>S. xs ! i = ys ! i) \<and> r = q"
  shows "shown n K S f"
  unfolding shown_def by (intro allI impI, elim conjE) (rule assms)

lemma shownD:
  assumes "shown n K S f" and "f xs @ r = f ys @ q" and "length xs = n" and "length ys = n" and "\<forall>i\<in>K. xs ! i = ys ! i"
  shows "(\<forall>i\<in>S. xs ! i = ys ! i) \<and> r = q"
  using assms(1) [unfolded shown_def, rule_format, of xs ys r q] assms(2-) by simp

lemma shown_literal: "shown n K {} (\<lambda>_. s)"
  by (rule shownI) simp

lemma shown_known: "i \<in> K \<Longrightarrow> shown n K {} (\<lambda>xs. f (xs ! i))"
  by (rule shownI) simp

lemma shown_append:
  assumes "shown n K S f" and "shown n (K \<union> S) T g"
  shows "shown n K (S \<union> T) (\<lambda>xs. f xs @ g xs)"
proof (rule shownI)
  fix xs ys r q
  assume l: "length xs = n" "length ys = n" and k: "\<forall>i\<in>K. xs ! i = ys ! i" and "(f xs @ g xs) @ r = (f ys @ g ys) @ q"
  then have e: "f xs @ (g xs @ r) = f ys @ (g ys @ q)" by simp
  from shownD [OF assms(1) e l k] have S: "\<forall>i\<in>S. xs ! i = ys ! i" and e': "g xs @ r = g ys @ q" by simp_all
  from k S have "\<forall>i\<in>K \<union> S. xs ! i = ys ! i" by auto
  from shownD [OF assms(2) e' l this] S show "(\<forall>i\<in>S \<union> T. xs ! i = ys ! i) \<and> r = q" by auto
qed

lemma shown_line: "shown n K S f \<Longrightarrow> shown n K S (\<lambda>xs. line (f xs))"
  unfolding line_def using shown_append [OF _ shown_literal] by force

lemma hex_digit_inject:
  assumes "m < 16" and "n < 16"
  shows "hex_digit m = hex_digit n \<longleftrightarrow> m = n"
proof -
  have "distinct ''0123456789ABCDEF''" "length ''0123456789ABCDEF'' = 16" by code_simp+
  then show ?thesis unfolding hex_digit_def using nth_eq_iff_index_eq assms by metis
qed

lemma div_mod_inject: "(m :: nat) div k = n div k \<Longrightarrow> m mod k = n mod k \<Longrightarrow> m = n"
  by (metis div_mult_mod_eq)

lemma hex_byte_inject: "hex_byte a @ r = hex_byte b @ q \<longleftrightarrow> a = b \<and> r = q"
proof -
  have "unat a div 16 < 16" "unat b div 16 < 16"
    using unat_u8_less [of a] unat_u8_less [of b] by (simp_all add: less_mult_imp_div_less)
  then show ?thesis
    by (auto simp: hex_byte_def hex_digit_inject word_unat_eq_iff intro: div_mod_inject)
qed

lemma hex_word_inject: "hex_word a @ r = hex_word b @ q \<longleftrightarrow> a = b \<and> r = q"
proof -
  have u: "unat w div 4096 < 16" for w :: u16
    using unsigned_less [of w, where 'a = nat] by (simp add: less_mult_imp_div_less)
  have "unat a = unat b" if "unat a div 4096 = unat b div 4096" "unat a div 256 mod 16 = unat b div 256 mod 16"
    "unat a div 16 mod 16 = unat b div 16 mod 16" "unat a mod 16 = unat b mod 16"
  proof -
    have "unat w div 256 div 16 = unat w div 4096" "unat w div 16 div 16 = unat w div 256" for w :: u16
      by (simp_all add: div_mult2_eq [symmetric])
    with that show ?thesis by (metis div_mod_inject)
  qed
  then show ?thesis using u [of a] u [of b] by (auto simp: hex_word_def hex_digit_inject word_unat_eq_iff)
qed

lemma shown_hex: "shown n K {i} (\<lambda>xs. hex_byte (xs ! i))"
  by (rule shownI) (simp add: hex_byte_inject)

lemma hex_row_append_eq:
  "length xs = length ys \<Longrightarrow> hex_row xs @ r = hex_row ys @ q \<longleftrightarrow> xs = ys \<and> r = q"
  unfolding hex_row_def
proof (induction xs ys arbitrary: r q rule: list_induct2)
  case (Cons x xs y ys)
  then show ?case by (cases xs; cases ys) (auto simp: hex_byte_inject)
qed simp

lemma shown_row:
  assumes "b \<le> n"
  shows "shown n K {a..<b} (\<lambda>xs. hex_row (slice xs a b))"
proof (rule shownI)
  fix xs ys r q
  assume l: "length xs = n" "length ys = n" and "hex_row (slice xs a b) @ r = hex_row (slice ys a b) @ q"
  then have e: "slice xs a b = slice ys a b" and "r = q" by (simp_all add: hex_row_append_eq)
  have "xs ! i = ys ! i" if "i \<in> {a..<b}" for i
  proof -
    from that assms l have "xs ! i = slice xs a b ! (i - a)" "ys ! i = slice ys a b ! (i - a)"
      by (auto simp: slice_def)
    with e show ?thesis by simp
  qed
  with \<open>r = q\<close> show "(\<forall>i\<in>{a..<b}. xs ! i = ys ! i) \<and> r = q" by blast
qed

text \<open>
  A section of the listing: it appends to the buffer, its text can be told from what
  follows it, and it determines the bytes it is about.
\<close>

locale readable_section =
  fixes w :: "string \<Rightarrow> bytes \<Rightarrow> string" and n :: nat
  assumes appends: "w out bs = out @ w [] bs"
    and shows_all: "shown n {} {..<n} (w [])"
begin

lemma shown_slice:
  assumes "b = a + n" and "b \<le> N"
  shows "shown N K {a..<b} (\<lambda>bs. w [] (slice bs a b))"
proof (rule shownI)
  fix xs ys r q
  assume l: "length xs = N" "length ys = N" and e: "w [] (slice xs a b) @ r = w [] (slice ys a b) @ q"
  from assms l have "length (slice xs a b) = n" "length (slice ys a b) = n" by simp_all
  from shownD [OF shows_all e this] have "\<forall>i<n. slice xs a b ! i = slice ys a b ! i" and "r = q" by auto
  moreover have "xs ! i = ys ! i" if "i \<in> {a..<b}" for i
  proof -
    from that assms(1) have "i - a < n" by auto
    with calculation(1) that assms l show ?thesis by (auto simp: slice_def)
  qed
  ultimately show "(\<forall>i\<in>{a..<b}. xs ! i = ys ! i) \<and> r = q" by blast
qed

lemma extend:
  assumes "shown N K S t" and "b = a + n" and "b \<le> N"
  shows "shown N K (S \<union> {a..<b}) (\<lambda>bs. w (t bs) (slice bs a b) @ s)"
proof -
  have "shown N K (S \<union> ({a..<b} \<union> {})) (\<lambda>bs. t bs @ (w [] (slice bs a b) @ s))"
    by (intro shown_append shown_slice shown_literal assms)
  then show ?thesis by (subst appends) simp
qed

end

lemma shown_all:
  assumes "shown n K S f" and "list_all (\<lambda>i. i \<in> S) [0..<m]"
  shows "shown n K {..<m} f"
proof (rule shownI)
  fix xs ys r q
  assume l: "length xs = n" "length ys = n" and k: "\<forall>i\<in>K. xs ! i = ys ! i" and e: "f xs @ r = f ys @ q"
  from shownD [OF assms(1) e l k] assms(2) show "(\<forall>i\<in>{..<m}. xs ! i = ys ! i) \<and> r = q"
    by (auto simp: list_all_iff)
qed

lemmas shown_intros = shown_append shown_line shown_hex shown_row shown_literal
  shown_known [where f = decode_chip_mode] shown_known [where f = lock_state]
  shown_known [where f = "\<lambda>b. hex_byte (drop_bit 1 b)"]

interpretation factory_area: readable_section write_factory_area 16
proof unfold_locales
  show "shown 16 {} {..<16} (write_factory_area [])"
    unfolding write_factory_area_def append_Nil
    by (rule shown_all, (rule shown_intros | simp)+) code_simp
qed (simp add: write_factory_area_def)

interpretation device_config: readable_section write_device_config 4
proof unfold_locales
  show "shown 4 {} {..<4} (write_device_config [])"
    unfolding write_device_config_def append_Nil
    by (rule shown_all, (rule shown_intros | simp)+) code_simp
qed (simp add: write_device_config_def)

interpretation counters: readable_section write_counters 16
proof unfold_locales
  show "shown 16 {} {..<16} (write_counters [])"
    unfolding write_counters_def append_Nil
    by (rule shown_all, (rule shown_intros | simp)+) code_simp
qed (simp add: write_counters_def)

interpretation feature_area: readable_section write_feature_area 16
proof unfold_locales
  show "shown 16 {} {..<16} (write_feature_area [])"
    unfolding write_feature_area_def append_Nil
    by (rule shown_all, (rule shown_intros | simp)+) code_simp
qed (simp add: write_feature_area_def)

interpretation lock_area: readable_section write_lock_area 12
proof unfold_locales
  show "shown 12 {} {..<12} (write_lock_area [])"
    unfolding write_lock_area_def append_Nil
    by (rule shown_all, (rule shown_intros | simp)+) code_simp
qed (simp add: write_lock_area_def)

text \<open>The two tables: a line for each slot, which shows the bytes of its word.\<close>

lemma foldl_append: "foldl (\<lambda>out x. out @ f x) out xs = out @ concat (map f xs)"
  by (induction xs arbitrary: out) simp_all

lemma shown_slot_line:
  "shown n K {2 * slot, 2 * slot + 1} (\<lambda>xs. slot_line describe xs slot)"
proof (rule shownI)
  fix xs ys :: bytes and r q
  assume "slot_line describe xs slot @ r = slot_line describe ys slot @ q"
  then have e: "xs ! (2 * slot) = ys ! (2 * slot)" "xs ! (2 * slot + 1) = ys ! (2 * slot + 1)"
    by (simp_all add: slot_line_def Let_def line_def hex_byte_inject)
  with \<open>slot_line describe xs slot @ r = slot_line describe ys slot @ q\<close> have "r = q"
    by (simp only: slot_line_def same_append_eq)
  with e show "(\<forall>i\<in>{2 * slot, 2 * slot + 1}. xs ! i = ys ! i) \<and> r = q" by simp
qed

lemma shown_table:
  "shown n K (\<Union>slot\<in>set slots. {2 * slot, 2 * slot + 1}) (\<lambda>xs. concat (map (slot_line describe xs) slots))"
proof (induction slots arbitrary: K)
  case (Cons slot slots)
  show ?case unfolding list.map concat.simps set_simps UN_insert
    by (rule shown_append [OF shown_slot_line Cons.IH])
qed (simp add: shown_literal)

lemma readable_table:
  "readable_section (\<lambda>out bs. foldl (\<lambda>out slot. out @ slot_line describe bs slot) (out @ title) [0..<16]) 32"
proof unfold_locales
  show "shown 32 {} {..<32} (\<lambda>bs. foldl (\<lambda>out slot. out @ slot_line describe bs slot) ([] @ title) [0..<16])"
    unfolding foldl_append append_Nil
    by (rule shown_all, rule shown_append [OF shown_literal shown_table]) code_simp
qed (simp add: foldl_append)

interpretation slot_configs: readable_section write_slot_configs 32
  unfolding write_slot_configs_def [abs_def] by (rule readable_table)

interpretation key_configs: readable_section write_key_configs 32
  unfolding write_key_configs_def [abs_def] by (rule readable_table)

definition listing_body :: "bytes \<Rightarrow> string" where
  "listing_body blob =
     (let out = listing_header;
          out = write_factory_area out (slice blob 0 16) @ line [];
          out = write_device_config out (slice blob 16 20) @ line [];
          out = write_slot_configs out (slice blob 20 52) @ line [];
          out = write_counters out (slice blob 52 68) @ line [];
          out = write_feature_area out (slice blob 68 84) @ line [];
          out = write_lock_area out (slice blob 84 96) @ line []
      in write_key_configs out (slice blob 96 128) @ line [])"

lemma format_body:
  "format blob crc = (if length blob < 128 then None else Some (listing_body blob @ write_summary [] blob crc))"
  by (simp add: format_def listing_body_def Let_def write_summary_def)

lemma shown_body: "shown 128 {} {..<128} listing_body"
  unfolding listing_body_def [abs_def] Let_def
  by (rule shown_all, (rule key_configs.extend lock_area.extend feature_area.extend counters.extend
      slot_configs.extend device_config.extend factory_area.extend shown_literal | simp)+) code_simp

lemma write_summary_inject:
  assumes "write_summary [] blob a = write_summary [] blob b"
  shows "a = b"
proof -
  have "write_summary [] blob c = (line ''Summary:'' @
     line (''  Total bytes:                  '' @ decimal (length blob)) @
     line (''  Writable portion (16-127):    '' @ decimal (length blob - 16) @ '' bytes'') @
     ''  CRC-16 of writable portion:   0x'') @ hex_word c @ newline @ (line [] @
     line ''Lock the configuration zone only after verifying that the chip'' @
     line ''contains the same bytes 16-127 as above, and only with a host'' @
     line (''command that passes the expected CRC 0x'' @ hex_word c @ '' as a safety check.''))" for c
    by (simp add: write_summary_def line_def)
  from assms [unfolded this same_append_eq hex_word_inject] show ?thesis by (rule conjunct1)
qed

section \<open>The command line (main.rs)\<close>











section \<open>Properties\<close>



text \<open>
  C35. The annotated listing is a faithful image of its input: from the listings of 128-byte
  images, which all exist, both the image (every byte, the factory area included) and the
  checksum can be read back. A shorter image makes \<open>format\<close> panic.
\<close>

theorem listing_determines_image:
  "inj_on (\<lambda>(blob, crc). format blob crc) {(blob, crc). length blob = 128} \<and>
   (format blob crc = None \<longleftrightarrow> length blob < 128)"
proof (intro conjI inj_onI)
  fix x y
  assume "x \<in> {(blob, crc :: u16). length blob = 128}" "y \<in> {(blob, crc :: u16). length blob = 128}"
    and "(\<lambda>(blob, crc). format blob crc) x = (\<lambda>(blob, crc). format blob crc) y"
  then obtain b c b' c' where l: "length b = 128" "length b' = 128" and x: "x = (b, c)" "y = (b', c')"
    and e: "listing_body b @ write_summary [] b c = listing_body b' @ write_summary [] b' c'"
    by (auto simp: format_body)
  from shownD [OF shown_body e l] have "\<forall>i<128. b ! i = b' ! i" and s: "write_summary [] b c = write_summary [] b' c'"
    by auto
  with l have "b = b'" by (auto intro: nth_equalityI)
  with s write_summary_inject x show "x = y" by blast
qed (simp add: format_body)


end
