(* ===== verification/Service_Policy.thy ===== *)
theory Service_Policy
  imports Crypto_Service
begin

text \<open>
  The security policy of the crypto service, over every public method at once:
  \<open>perform\<close> runs one method, \<open>service_step\<close> adds the passing of time and arbitrary
  activity of the bus between calls. The first part shows that a PIN session is opened
  only by a PIN the chip has confirmed, and that signing needs such a session. The
  second part bounds what each method may put on the bus.
\<close>

unbundle bit_operations_syntax

section \<open>The public methods\<close>

datatype ServiceOp =
  OpInfo | OpGetPubkey Slot | OpGenkeyCreate Slot | OpReadConfigSlot Slot | OpReadConfigBlock u8
| OpWriteConfigBlock u8 bytes | OpVerifyPin bytes | OpUnblockPin bytes bytes bytes
| OpSetPin bytes bytes bytes | OpSetPuk bytes bytes bytes | OpEmergencyReset bytes
| OpLockConfigZone u16 | OpLockDataZone | OpLockSlot Slot | OpProvisionSlot Slot bytes
| OpProvisionInitialPuk | OpProvisionInitialPin | OpProvisionInitialIoKey
| OpSign Slot bytes | OpGetPinStatus | OpCloseSession | OpReadSlotBlock Slot u8
| OpReadSlotWord Slot u8 u8 | OpReadCounter CounterId

definition outcome :: "('s, 'e, 'a) act \<Rightarrow> 's \<Rightarrow> bool \<times> 's" where
  "outcome m s = (case m s of (r, t) \<Rightarrow> (\<not> isl r, t))"

fun perform ::
  "('h, 'e, 'c) Env \<Rightarrow> ServiceOp \<Rightarrow> ('h, 'c) CryptoService \<Rightarrow> bool \<times> ('h, 'c) CryptoService" where
  "perform E OpInfo = outcome (service_info E)"
| "perform E (OpGetPubkey slot) = outcome (get_pubkey E slot)"
| "perform E (OpGenkeyCreate slot) = outcome (service_genkey_create E slot)"
| "perform E (OpReadConfigSlot slot) = outcome (read_config_slot E slot)"
| "perform E (OpReadConfigBlock block) = outcome (read_config_block E block)"
| "perform E (OpWriteConfigBlock block data) = outcome (write_config_block E block data)"
| "perform E (OpVerifyPin pin) = outcome (verify_pin E pin)"
| "perform E (OpUnblockPin puk new_pin k) = outcome (unblock_pin E puk new_pin k)"
| "perform E (OpSetPin old_pin new_pin k) = outcome (set_pin E old_pin new_pin k)"
| "perform E (OpSetPuk old_puk new_puk k) = outcome (set_puk E old_puk new_puk k)"
| "perform E (OpEmergencyReset k) = outcome (emergency_reset E k)"
| "perform E (OpLockConfigZone crc) = outcome (service_lock_config_zone E crc)"
| "perform E OpLockDataZone = outcome (service_lock_data_zone E)"
| "perform E (OpLockSlot slot) = outcome (service_lock_slot E slot)"
| "perform E (OpProvisionSlot slot v) = outcome (provision_slot E slot v)"
| "perform E OpProvisionInitialPuk = outcome (provision_initial_puk E)"
| "perform E OpProvisionInitialPin = outcome (provision_initial_pin E)"
| "perform E OpProvisionInitialIoKey = outcome (provision_initial_io_key E)"
| "perform E (OpSign slot digest) = outcome (service_sign E slot digest)"
| "perform E OpGetPinStatus = outcome (get_pin_status E)"
| "perform E OpCloseSession = (\<lambda>s. (True, close_session s))"
| "perform E (OpReadSlotBlock slot block) = outcome (service_read_slot_block E slot block)"
| "perform E (OpReadSlotWord slot block off) = outcome (service_read_slot_word E slot block off)"
| "perform E (OpReadCounter c) = outcome (read_counter E c)"

section \<open>Who may change the session\<close>

text \<open>A method call that presented a PIN which the chip confirmed.\<close>

fun presents_confirmed_pin ::
  "('h, 'e, 'c) Env \<Rightarrow> ServiceOp \<Rightarrow> ('h, 'c) CryptoService \<Rightarrow> bool" where
  "presents_confirmed_pin E (OpVerifyPin pin) s = (\<exists>sn t. pin_confirmed E pin s sn t)"
| "presents_confirmed_pin E (OpSetPin old_pin _ _) s = (\<exists>sn t. pin_confirmed E old_pin s sn t)"
| "presents_confirmed_pin E _ s = False"

fun needs_session :: "ServiceOp \<Rightarrow> bool" where
  "needs_session (OpSign _ _) = True"
| "needs_session (OpSetPuk _ _ _) = True"
| "needs_session _ = False"

lemma outcome_keeps: "keeps host_state m \<Longrightarrow> outcome m s = (success, t) \<Longrightarrow> session t = session s"
  by (auto simp: outcome_def split: prod.splits dest!: host_keeps_session keepsE)

lemma outcome_eq: "outcome m s = (success, t) \<longleftrightarrow> (\<exists>r. m s = (r, t) \<and> success = (\<not> isl r))"
  by (auto simp: outcome_def split: prod.splits)

lemma session_kept_on_error:
  "keeps_on_error host_state m \<Longrightarrow> m s = (Inl e, t) \<Longrightarrow> session t = session s"
  unfolding keeps_on_error_def host_state_def by blast

lemma set_puk_active:
  assumes "set_puk E old_puk new_puk k s = (Inr u, t)"
  shows "is_session_active E s"
  using assms by (auto simp: set_puk_def and_then_eq_Inr gets_def is_session_active_def split: if_splits)

lemma sum_unit_cases:
  fixes r :: "'e + unit"
  obtains e where "r = Inl e" | "r = Inr ()"
  by (cases r) auto

lemma perform_session:
  assumes "perform E oper s = (success, t)" and "session t \<noteq> session s"
  shows "oper = OpCloseSession \<or>
    success \<and> (presents_confirmed_pin E oper s \<or> needs_session oper \<and> is_session_active E s)"
proof (cases oper)
  case (OpVerifyPin pin)
  with assms obtain r where r: "verify_pin E pin s = (r, t)" "success = (\<not> isl r)"
    by (auto simp: outcome_eq)
  from assms(2) r(1) obtain "r = Inr ()"
    using session_kept_on_error [OF errors_keep_host_state(1)]
    by (cases r rule: sum_unit_cases) blast+
  with r OpVerifyPin show ?thesis by (auto simp: verify_pin_Inr)
next
  case (OpSetPin old_pin new_pin k)
  with assms obtain r where r: "set_pin E old_pin new_pin k s = (r, t)" "success = (\<not> isl r)"
    by (auto simp: outcome_eq)
  from assms(2) r(1) obtain "r = Inr ()"
    using session_kept_on_error [OF errors_keep_host_state(2)]
    by (cases r rule: sum_unit_cases) blast+
  with r OpSetPin show ?thesis by (auto simp: set_pin_Inr)
next
  case (OpSetPuk old_puk new_puk k)
  with assms obtain r where r: "set_puk E old_puk new_puk k s = (r, t)" "success = (\<not> isl r)"
    by (auto simp: outcome_eq)
  from assms(2) r(1) obtain "r = Inr ()"
    using session_kept_on_error [OF errors_keep_host_state(3)]
    by (cases r rule: sum_unit_cases) blast+
  with r OpSetPuk show ?thesis by (auto dest: set_puk_active)
next
  case (OpSign slot digest)
  with assms obtain r where r: "service_sign E slot digest s = (r, t)" "success = (\<not> isl r)"
    by (auto simp: outcome_eq)
  let ?body = "and_then (nonce_passthrough (env_hal E) MsgDigBuf digest)
      (\<lambda>_. sign_external (env_hal E) slot)"
  have "session (snd (in_channel E ?body s)) = session s"
    by (rule keepsD) simp
  with r assms(2) OpSign show ?thesis
    by (auto simp: service_sign_eq split: if_splits prod.splits sum.splits)
qed (use assms in \<open>auto dest!: outcome_keeps [rotated]\<close>)

section \<open>Reachable states\<close>

text \<open>
  A run of the service with a ghost flag: whether a PIN has been confirmed since the
  session was last closed. Between two calls the clock, the bus and the cached serial
  may change in any way.
\<close>

type_synonym ('h, 'c) ghost_state = "('h, 'c) CryptoService \<times> bool"

inductive service_step ::
  "('h, 'e, 'c) Env \<Rightarrow> ('h, 'c) ghost_state \<Rightarrow> ('h, 'c) ghost_state \<Rightarrow> bool" for E where
  call: "perform E oper s = (success, t) \<Longrightarrow>
     service_step E (s, g)
       (t, if oper = OpCloseSession then False
           else g \<or> success \<and> presents_confirmed_pin E oper s)"
| environment: "session t = session s \<Longrightarrow> service_step E (s, g) (t, g)"

inductive_cases service_step_pairE: "service_step E (s, g) (t, g')"

definition booted :: "('h, 'c) ghost_state \<Rightarrow> bool" where
  "booted sg \<longleftrightarrow> (\<exists>a c. sg = (CryptoService_new a c, False))"

definition session_authorised :: "('h, 'c) ghost_state \<Rightarrow> bool" where
  "session_authorised sg \<longleftrightarrow> (last_activity_ms (session (fst sg)) \<noteq> None \<longrightarrow> snd sg)"

lemma active_open: "is_session_active E s \<Longrightarrow> last_activity_ms (session s) \<noteq> None"
  by (auto simp: is_session_active_def Session_is_active_iff)

lemma booted_authorised: "booted sg \<Longrightarrow> session_authorised sg"
  by (auto simp: booted_def session_authorised_def CryptoService_new_def Session_new_def)

lemma service_step_authorised:
  assumes "session_authorised sg" and "service_step E sg tg"
  shows "session_authorised tg"
  using assms(2)
proof (cases rule: service_step.cases)
  case (call oper s success t g)
  show ?thesis
  proof (cases "oper = OpCloseSession")
    case True
    with call have "last_activity_ms (session t) = None"
      by (auto simp: close_session_def Session_close_def)
    with call show ?thesis by (simp add: session_authorised_def)
  next
    case False
    with call show ?thesis
      using assms(1) perform_session [of E oper s success t] active_open [of E s]
      by (cases "session t = session s") (auto simp: session_authorised_def)
  qed
next
  case (environment t s g)
  then show ?thesis using assms(1) by (simp add: session_authorised_def)
qed

interpretation session_inv: step_invariant booted "service_step E" session_authorised for E
  by unfold_locales (auto intro: booted_authorised service_step_authorised)

section \<open>What the methods put on the bus\<close>

text \<open>The service over the logging backend; \<open>svc_log\<close> is everything it has written.\<close>

definition log_env :: "('h, 'e, 'c) Env \<Rightarrow> ('h logged, 'e, 'c) Env" where
  "log_env E = \<lparr>env_hal = log_writes (env_hal E), now_ms = (\<lambda>c hl. now_ms E c (fst hl)),
               sha256 = sha256 E\<rparr>"

definition svc_log :: "('h logged, 'c) CryptoService \<Rightarrow> bytes list" where
  "svc_log s = bus_log (atecc s)"

lemma log_env_sel [simp]:
  "env_hal (log_env E) = log_writes (env_hal E)" "sha256 (log_env E) = sha256 E"
  by (simp_all add: log_env_def)

lemma emits_on_atecc: "emits bus_log P m \<Longrightarrow> emits svc_log P (on_atecc m)"
  by (simp add: emits_def on_atecc_def svc_log_def case_prod_beta)

lemma emits_close: "P idle_token \<Longrightarrow> emits bus_log P (close (log_writes H))"
  by (rule emits_mono [OF close_log]) simp

lemma emits_open: "emits bus_log P (open_channel (log_writes H))"
  by (rule emits_keeps) simp

lemmas emits_intros = emits_and_then emits_attempt emits_map_err emits_if emits_case_sum
  emits_case_option emits_case_prod emits_pure emits_open emits_close

lemma emits_in_channel:
  "P idle_token \<Longrightarrow> emits bus_log P body \<Longrightarrow> emits svc_log P (in_channel (log_env E) body)"
  "P idle_token \<Longrightarrow> emits bus_log P body \<Longrightarrow> emits svc_log P (in_channel_always_closed (log_env E) body)"
  unfolding in_channel_def in_channel_always_closed_def log_env_sel
  by (intro emits_on_atecc emits_intros; assumption)+

lemma emits_check_format: "emits svc_log P (check_format code)"
  unfolding check_format_def by (intro emits_intros)

lemma emits_modify: "(\<And>s. lg (f s) = lg s) \<Longrightarrow> emits lg P (modify f)"
  by (intro emits_keeps keeps_modify)

subsection \<open>Read-only traffic\<close>

text \<open>Packets that change nothing on the chip: counter reads, reads, public keys, RNG, info.\<close>

definition harmless :: "bytes \<Rightarrow> bool" where
  "harmless x \<longleftrightarrow> x = idle_token \<or>
     (\<exists>c. x = command_packet OP_COUNTER 0 (counter_as_param2 c) []) \<or>
     (\<exists>z w a. x = command_packet OP_READ (read_param1 z w) a []) \<or>
     (\<exists>slot. x = command_packet OP_GENKEY 0 (slot_param2 slot) []) \<or>
     x = command_packet OP_RANDOM 0 0 [] \<or> x = command_packet OP_INFO 0 0 []"

lemma harmless_simps [simp]:
  "harmless idle_token" "harmless (command_packet OP_COUNTER 0 (counter_as_param2 c) [])"
  "harmless (command_packet OP_READ (read_param1 z w) a [])"
  "harmless (command_packet OP_GENKEY 0 (slot_param2 slot) [])"
  "harmless (command_packet OP_RANDOM 0 0 [])" "harmless (command_packet OP_INFO 0 0 [])"
  unfolding harmless_def by blast+

lemma emits_read_config_blocks:
  "emits bus_log harmless (read_config_blocks (log_writes H) blocks out)"
  by (induction blocks arbitrary: out) (auto intro!: emits_and_then emits_pure emits_commands)

lemma harmless_reads:
  "emits svc_log harmless (read_counter (log_env E) c)"
  "emits svc_log harmless (read_whole_config (log_env E))"
  "emits svc_log harmless (generate_random_puk (log_env E))"
  unfolding read_counter_def read_whole_config_def generate_random_puk_def read_config_zone_def log_env_sel
  by (intro emits_intros emits_in_channel emits_commands emits_read_config_blocks harmless_simps)+

lemma harmless_cached_serial: "emits svc_log harmless (cached_serial (log_env E))"
  unfolding cached_serial_def Let_def
  by (intro emits_intros emits_modify harmless_reads) (simp add: svc_log_def)

subsection \<open>Writes of the configuration zone\<close>

text \<open>The words of the configuration zone that the Write command may touch.\<close>

definition writable_config_packet :: "u8 \<Rightarrow> bytes \<Rightarrow> bytes \<Rightarrow> bool" where
  "writable_config_packet block data x \<longleftrightarrow> x = idle_token \<or>
     (block = 1 \<or> block = 3) \<and>
       x = command_packet OP_WRITE 0x80 (config_or_otp_address block 0) data \<or>
     (\<exists>w. (block = 0 \<and> 4 \<le> w \<and> w \<le> 7 \<or> block = 2 \<and> w \<le> 7 \<and> w \<noteq> 5) \<and>
        x = command_packet OP_WRITE 0x00 (config_or_otp_address block w)
              (slice data (unat w * 4) (unat w * 4 + 4)))"

lemma emits_write_words:
  assumes "\<And>w. w \<in> set ws \<Longrightarrow> P (command_packet OP_WRITE 0x00 (config_or_otp_address block w)
      (slice data (unat w * 4) (unat w * 4 + 4)))"
  shows "emits bus_log P (write_words (log_writes H) block data ws)"
  using assms
proof (induction ws)
  case (Cons w ws)
  have "write_param1 ZoneConfig False False = 0" by (simp add: write_param1_def)
  with Cons show ?case
    by (simp add: Let_def del: of_nat_numeral) (intro emits_and_then emits_commands; simp)
qed (simp add: emits_pure)

lemma emits_write_config_block:
  "emits svc_log (writable_config_packet block data) (write_config_block (log_env E) block data)"
proof (cases "block > 3")
  case False
  let ?P = "writable_config_packet block data"
  have one: "emits bus_log ?P (write_32 (log_writes (env_hal E)) ZoneConfig (config_or_otp_address block 0) data)"
    if "block = 1 \<or> block = 3"
  proof (rule emits_commands)
    have "write_param1 ZoneConfig True False = 0x80"
      by (simp add: write_param1_def PARAM1_FLAG_32_BYTES_def)
    with that show "?P (command_packet OP_WRITE (write_param1 ZoneConfig True False)
        (config_or_otp_address block 0) data)"
      by (auto simp: writable_config_packet_def)
  qed
  have "w \<in> set (writable_words_in_block block) \<Longrightarrow>
      block = 0 \<and> 4 \<le> w \<and> w \<le> 7 \<or> block = 2 \<and> w \<le> 7 \<and> w \<noteq> 5" for w
    by (auto simp: writable_words_in_block_def split: if_splits)
  then have "emits bus_log ?P
      (write_words (log_writes (env_hal E)) block data (writable_words_in_block block))"
    unfolding writable_config_packet_def by (intro emits_write_words) blast
  with one False show ?thesis
    unfolding write_config_block_def can_write_block_in_one_transfer_def
    by (auto simp: writable_config_packet_def intro!: emits_in_channel)
qed (simp add: write_config_block_def emits_pure)

subsection \<open>Refused calls send no command that changes the chip\<close>

lemma harmless_gate:
  assumes "read_counter (log_env E) c0 s = (Inr n, s1)" and "read_counter (log_env E) c1 s1 = (Inr m, t)"
  shows "\<exists>xs. svc_log t = svc_log s @ xs \<and> list_all harmless xs"
proof -
  obtain xs where "svc_log s1 = svc_log s @ xs" "list_all harmless xs"
    using harmless_reads(1) assms(1) by (rule emitsD)
  moreover obtain ys where "svc_log t = svc_log s1 @ ys" "list_all harmless ys"
    using harmless_reads(1) assms(2) by (rule emitsD)
  ultimately show ?thesis by (intro exI [of _ "xs @ ys"]) simp
qed

lemma emergency_reset_refused:
  assumes "read_counter E Counter0 s = (Inr c0, s1)" and "read_counter E Counter1 s1 = (Inr c1, t)"
    and "retries_remaining c0 PIN_MAX_RETRIES \<noteq> 0 \<or> retries_remaining c1 PUK_MAX_RETRIES \<noteq> 0"
  shows "emergency_reset E k s =
    (Inl (EmergencyResetNotPermitted (retries_remaining c0 PIN_MAX_RETRIES)
            (retries_remaining c1 PUK_MAX_RETRIES)), t)"
  using assms by (auto simp: emergency_reset_def and_then_def Let_def return_err_def)

lemma verify_pin_refused:
  assumes "list_all is_ascii_digit pin" and "read_counter E Counter0 s = (Inr c, t)"
    and "retries_remaining c PIN_MAX_RETRIES = 0"
  shows "verify_pin E pin s = (Inl PinBlocked, t)"
proof -
  have c: "check_format pin s = (Inr (), s)" using assms(1) by simp
  show ?thesis
    unfolding verify_pin_def and_then_Inr [of "check_format pin" s, OF c]
      and_then_Inr [of "read_counter E Counter0" s, OF assms(2)]
    by (simp add: assms(3) return_err_def)
qed

subsection \<open>The command footprint of every method\<close>

text \<open>A buffer that is the idle token or a command with one of the given opcodes.\<close>

definition sends :: "u8 list \<Rightarrow> bytes \<Rightarrow> bool" where
  "sends ops x \<longleftrightarrow> x = idle_token \<or> (\<exists>op p1 p2 d. op \<in> set ops \<and> x = command_packet op p1 p2 d)"

lemma sends_idle [simp]: "sends ops idle_token"
  and sends_packet: "op \<in> set ops \<Longrightarrow> sends ops (command_packet op p1 p2 d)"
  unfolding sends_def by blast+

fun footprint :: "ServiceOp \<Rightarrow> u8 list" where
  "footprint OpInfo = [OP_INFO, OP_READ]"
| "footprint (OpGetPubkey _) = [OP_GENKEY]"
| "footprint (OpGenkeyCreate _) = [OP_GENKEY]"
| "footprint (OpReadConfigSlot _) = [OP_READ]"
| "footprint (OpReadConfigBlock _) = [OP_READ]"
| "footprint (OpWriteConfigBlock _ _) = [OP_WRITE]"
| "footprint (OpVerifyPin _) = [OP_COUNTER, OP_READ, OP_RANDOM, OP_CHECKMAC]"
| "footprint (OpUnblockPin _ _ _) =
     [OP_COUNTER, OP_READ, OP_RANDOM, OP_CHECKMAC, OP_NONCE, OP_GENDIG, OP_WRITE]"
| "footprint (OpSetPin _ _ _) =
     [OP_COUNTER, OP_READ, OP_RANDOM, OP_CHECKMAC, OP_NONCE, OP_GENDIG, OP_WRITE]"
| "footprint (OpSetPuk _ _ _) =
     [OP_COUNTER, OP_READ, OP_RANDOM, OP_CHECKMAC, OP_NONCE, OP_GENDIG, OP_WRITE]"
| "footprint (OpEmergencyReset _) =
     [OP_COUNTER, OP_READ, OP_RANDOM, OP_GENKEY, OP_NONCE, OP_GENDIG, OP_WRITE]"
| "footprint (OpLockConfigZone _) = [OP_LOCK]"
| "footprint OpLockDataZone = [OP_LOCK]"
| "footprint (OpLockSlot _) = [OP_LOCK]"
| "footprint (OpProvisionSlot _ _) = [OP_WRITE]"
| "footprint OpProvisionInitialPuk = [OP_READ, OP_RANDOM, OP_WRITE]"
| "footprint OpProvisionInitialPin = [OP_READ, OP_WRITE]"
| "footprint OpProvisionInitialIoKey = [OP_RANDOM, OP_WRITE]"
| "footprint (OpSign _ _) = [OP_NONCE, OP_SIGN]"
| "footprint OpGetPinStatus = [OP_COUNTER]"
| "footprint OpCloseSession = []"
| "footprint (OpReadSlotBlock _ _) = [OP_READ]"
| "footprint (OpReadSlotWord _ _ _) = [OP_READ]"
| "footprint (OpReadCounter _) = [OP_COUNTER]"

lemma sends_commands:
  "OP_RANDOM \<in> set ops \<Longrightarrow> emits bus_log (sends ops) (random (log_writes H))"
  "OP_INFO \<in> set ops \<Longrightarrow> emits bus_log (sends ops) (info_revision (log_writes H))"
  "OP_COUNTER \<in> set ops \<Longrightarrow> emits bus_log (sends ops) (counter_read (log_writes H) c)"
  "OP_COUNTER \<in> set ops \<Longrightarrow> emits bus_log (sends ops) (counter_increment (log_writes H) c)"
  "OP_CHECKMAC \<in> set ops \<Longrightarrow> emits bus_log (sends ops) (checkmac (log_writes H) slot ch r od)"
  "OP_NONCE \<in> set ops \<Longrightarrow> emits bus_log (sends ops) (nonce_passthrough (log_writes H) target v)"
  "OP_GENDIG \<in> set ops \<Longrightarrow> emits bus_log (sends ops) (gendig (log_writes H) gz k)"
  "OP_GENKEY \<in> set ops \<Longrightarrow> emits bus_log (sends ops) (genkey_create (log_writes H) slot)"
  "OP_GENKEY \<in> set ops \<Longrightarrow> emits bus_log (sends ops) (genkey_public (log_writes H) slot)"
  "OP_SIGN \<in> set ops \<Longrightarrow> emits bus_log (sends ops) (sign_external (log_writes H) slot)"
  "OP_READ \<in> set ops \<Longrightarrow> emits bus_log (sends ops) (read_slot_word (log_writes H) slot b off)"
  "OP_READ \<in> set ops \<Longrightarrow> emits bus_log (sends ops) (read_slot_block (log_writes H) slot b)"
  "OP_READ \<in> set ops \<Longrightarrow> emits bus_log (sends ops) (read_32 (log_writes H) z a)"
  "OP_WRITE \<in> set ops \<Longrightarrow> emits bus_log (sends ops) (write_4 (log_writes H) z a d)"
  "OP_WRITE \<in> set ops \<Longrightarrow> emits bus_log (sends ops) (write_32 (log_writes H) z a d)"
  "OP_WRITE \<in> set ops \<Longrightarrow> emits bus_log (sends ops) (write_32_encrypted (log_writes H) z a d)"
  "OP_LOCK \<in> set ops \<Longrightarrow> emits bus_log (sends ops) (lock_config_zone (log_writes H) crc)"
  "OP_LOCK \<in> set ops \<Longrightarrow> emits bus_log (sends ops) (lock_data_zone (log_writes H))"
  "OP_LOCK \<in> set ops \<Longrightarrow> emits bus_log (sends ops) (lock_slot (log_writes H) slot)"
  unfolding info_revision_def read_slot_word_def read_slot_block_def
  by (intro emits_commands emits_execute emits_and_then emits_if emits_pure sends_packet; assumption)+

lemma sends_service_reads:
  "OP_COUNTER \<in> set ops \<Longrightarrow> emits svc_log (sends ops) (read_counter (log_env E) c)"
  "OP_READ \<in> set ops \<Longrightarrow> emits svc_log (sends ops) (read_whole_config (log_env E))"
  "OP_RANDOM \<in> set ops \<Longrightarrow> emits svc_log (sends ops) (generate_random_puk (log_env E))"
proof -
  have blocks: "OP_READ \<in> set ops \<Longrightarrow>
      emits bus_log (sends ops) (read_config_blocks (log_writes H) blocks out)" for H blocks out
    by (induction blocks arbitrary: out) (auto intro!: emits_and_then emits_pure sends_commands)
  show "OP_COUNTER \<in> set ops \<Longrightarrow> emits svc_log (sends ops) (read_counter (log_env E) c)"
    "OP_READ \<in> set ops \<Longrightarrow> emits svc_log (sends ops) (read_whole_config (log_env E))"
    "OP_RANDOM \<in> set ops \<Longrightarrow> emits svc_log (sends ops) (generate_random_puk (log_env E))"
    unfolding read_counter_def read_whole_config_def read_config_zone_def generate_random_puk_def
      log_env_sel
    by (intro emits_intros emits_in_channel sends_commands sends_idle blocks; assumption)+
qed

lemma sends_cached_serial:
  "OP_READ \<in> set ops \<Longrightarrow> emits svc_log (sends ops) (cached_serial (log_env E))"
  unfolding cached_serial_def Let_def
  by (intro emits_intros emits_modify sends_service_reads) (simp_all add: svc_log_def)

lemma sends_checkmac:
  "OP_RANDOM \<in> set ops \<Longrightarrow> OP_CHECKMAC \<in> set ops \<Longrightarrow>
     emits svc_log (sends ops) (checkmac_with_hash (log_env E) slot v sn)"
  unfolding checkmac_with_hash_def Let_def log_env_sel
  by (intro emits_on_atecc emits_intros sends_commands sends_idle)

lemma sends_bump:
  "OP_COUNTER \<in> set ops \<Longrightarrow> emits bus_log (sends ops) (bump_counter (log_writes H) c n)"
  by (induction n) (auto intro!: emits_intros sends_commands)

lemma sends_refresh:
  "OP_COUNTER \<in> set ops \<Longrightarrow> emits svc_log (sends ops) (refresh_counter_batch (log_env E) c b)"
  unfolding refresh_counter_batch_def Let_def log_env_sel
  by (intro emits_on_atecc emits_intros sends_commands sends_bump)

lemma sends_write_slot:
  "set [OP_RANDOM, OP_NONCE, OP_GENDIG, OP_WRITE] \<subseteq> set ops \<Longrightarrow>
     emits svc_log (sends ops) (write_slot_encrypted (log_env E) slot p k sn)"
  unfolding write_slot_encrypted_def Let_def log_env_sel
  by (intro emits_in_channel emits_intros sends_commands sends_idle) auto

lemma sends_open_session: "emits svc_log P (open_session_now E)"
  and sends_touch_session: "emits svc_log P (touch_session now)"
  unfolding open_session_now_def touch_session_def
  by (intro emits_intros emits_modify; simp add: svc_log_def)+

lemma sends_provision_slot:
  "OP_WRITE \<in> set ops \<Longrightarrow> emits svc_log (sends ops) (provision_slot (log_env E) slot v)"
  unfolding provision_slot_def Let_def log_env_sel
  by (intro emits_in_channel emits_intros sends_commands sends_idle)

lemma sends_write_config_block:
  "OP_WRITE \<in> set ops \<Longrightarrow> emits svc_log (sends ops) (write_config_block (log_env E) block d)"
  by (rule emits_mono [OF emits_write_config_block])
    (auto simp: writable_config_packet_def intro: sends_packet)

lemma sends_regenerate_keys:
  "OP_GENKEY \<in> set ops \<Longrightarrow> emits bus_log (sends ops) (regenerate_keys (log_writes H) idxs)"
  by (induction idxs) (auto intro!: emits_intros sends_commands)

lemmas sends_intros = sends_service_reads sends_cached_serial sends_checkmac sends_refresh
  sends_write_slot sends_open_session sends_touch_session sends_provision_slot
  sends_write_config_block sends_regenerate_keys sends_commands sends_idle emits_check_format

lemma emits_outcome:
  "emits lg P m \<Longrightarrow> \<exists>xs. lg (snd (outcome m s)) = lg s @ xs \<and> list_all P xs"
  by (simp add: emits_def outcome_def case_prod_beta)

lemma footprint_reads:
  "emits svc_log (sends (footprint OpInfo)) (service_info (log_env E))"
  "emits svc_log (sends (footprint (OpReadConfigSlot slot))) (read_config_slot (log_env E) slot)"
  "emits svc_log (sends (footprint (OpReadConfigBlock b))) (read_config_block (log_env E) b)"
  "emits svc_log (sends (footprint (OpGetPubkey slot))) (get_pubkey (log_env E) slot)"
  "emits svc_log (sends (footprint (OpGenkeyCreate slot))) (service_genkey_create (log_env E) slot)"
  "emits svc_log (sends (footprint (OpReadSlotBlock slot b))) (service_read_slot_block (log_env E) slot b)"
  "emits svc_log (sends (footprint (OpReadSlotWord slot b off))) (service_read_slot_word (log_env E) slot b off)"
  "emits svc_log (sends (footprint OpGetPinStatus)) (get_pin_status (log_env E))"
  "emits svc_log (sends (footprint (OpReadCounter c))) (read_counter (log_env E) c)"
  unfolding service_info_def is_provisioned_def read_config_slot_def read_config_block_def
    get_pubkey_def service_genkey_create_def service_read_slot_block_def
    service_read_slot_word_def get_pin_status_def Let_def log_env_sel
  by (intro emits_intros emits_in_channel sends_intros; simp)+

lemma footprint_pin:
  "emits svc_log (sends (footprint (OpVerifyPin pin))) (verify_pin (log_env E) pin)"
  "emits svc_log (sends (footprint (OpUnblockPin puk pin k))) (unblock_pin (log_env E) puk pin k)"
  "emits svc_log (sends (footprint (OpSetPin pin pin' k))) (set_pin (log_env E) pin pin' k)"
  "emits svc_log (sends (footprint (OpSetPuk puk puk' k))) (set_puk (log_env E) puk puk' k)"
  "emits svc_log (sends (footprint (OpEmergencyReset k))) (emergency_reset (log_env E) k)"
  unfolding verify_pin_def unblock_pin_def set_pin_def set_puk_def emergency_reset_def Let_def log_env_sel
  by (intro emits_intros emits_in_channel sends_intros; simp)+

lemma footprint_admin:
  "emits svc_log (sends (footprint (OpLockConfigZone crc))) (service_lock_config_zone (log_env E) crc)"
  "emits svc_log (sends (footprint OpLockDataZone)) (service_lock_data_zone (log_env E))"
  "emits svc_log (sends (footprint (OpLockSlot slot))) (service_lock_slot (log_env E) slot)"
  "emits svc_log (sends (footprint (OpProvisionSlot slot v))) (provision_slot (log_env E) slot v)"
  "emits svc_log (sends (footprint OpProvisionInitialPuk)) (provision_initial_puk (log_env E))"
  "emits svc_log (sends (footprint OpProvisionInitialPin)) (provision_initial_pin (log_env E))"
  "emits svc_log (sends (footprint OpProvisionInitialIoKey)) (provision_initial_io_key (log_env E))"
  "emits svc_log (sends (footprint (OpWriteConfigBlock b d))) (write_config_block (log_env E) b d)"
  "emits svc_log (sends (footprint (OpSign slot d))) (service_sign (log_env E) slot d)"
  unfolding service_lock_config_zone_def service_lock_data_zone_def service_lock_slot_def
    provision_initial_puk_def provision_initial_pin_def provision_initial_io_key_def
    service_sign_def Let_def log_env_sel
  by (intro emits_intros emits_in_channel sends_intros; simp)+

lemma perform_footprint:
  "\<exists>xs. svc_log (snd (perform (log_env E) oper s)) = svc_log s @ xs \<and>
     list_all (sends (footprint oper)) xs"
proof (cases oper)
  case OpCloseSession
  then show ?thesis by (simp add: close_session_def svc_log_def)
qed (simp_all only: perform.simps, (intro emits_outcome footprint_reads footprint_pin footprint_admin)+)


section \<open>Properties\<close>

text \<open>
  No signature without a confirmed PIN. Take any run of the service from boot: any
  sequence of public methods with any arguments, with any bus behaviour and any passage
  of time in between. If since boot, or since the session was last closed, no
  \<open>verify_pin\<close> or \<open>set_pin\<close> call succeeded with a PIN that the chip confirmed,
  then \<open>sign\<close> is refused with \<open>PinRequired\<close> and changes nothing.
\<close>

theorem sign_needs_confirmed_pin:
  assumes "booted sg" and "(service_step E)\<^sup>*\<^sup>* sg (s, False)"
  shows "service_sign E slot digest s = (Inl PinRequired, s)"
proof -
  have "session_authorised (s, False)" using assms by (rule session_inv.reachable_inv)
  then have "\<not> is_session_active E s"
    using active_open [of E s] by (auto simp: session_authorised_def)
  then show ?thesis by (simp add: service_sign_eq)
qed

theorem sign_needs_confirmed_pin_witness:
  "let E = \<lparr>env_hal = scripted_hal, now_ms = (\<lambda>c h. c), sha256 = (\<lambda>m. replicate 32 (of_nat (length m)))\<rparr>;
       s = CryptoService_new (Atecc_new (scripted_chip [])) 1000
   in service_sign E (Slot 0) (replicate 32 7) (close_session s) = (Inl PinRequired, close_session s)"
proof -
  let ?E = "\<lparr>env_hal = scripted_hal, now_ms = (\<lambda>c h. c), sha256 = (\<lambda>m. replicate 32 (of_nat (length m)))\<rparr>"
  let ?s = "CryptoService_new (Atecc_new (scripted_chip [])) 1000"
  have "service_step ?E (?s, False) (close_session ?s, False)"
    using service_step.call [of ?E OpCloseSession ?s True "close_session ?s" False] by simp
  then have "(service_step ?E)\<^sup>*\<^sup>* (?s, False) (close_session ?s, False)" by blast
  moreover have "booted (?s, False)" by (auto simp: booted_def)
  ultimately show ?thesis using sign_needs_confirmed_pin by (simp add: Let_def)
qed

text \<open>
  C11. PIN verification. \<open>verify_pin\<close> succeeds exactly when the PIN is all digits, the
  retry counter still grants an attempt, the chip confirms the CheckMac of the PIN's
  salted hash and the counter refresh succeeds; then, and only then, it opens the
  session at the current time. Whatever goes wrong, the session and clock are as before
  the call.
\<close>

theorem verify_pin_spec:
  "(verify_pin E pin s = (Inr (), t) \<longleftrightarrow>
     (\<exists>sn s1 s2. pin_confirmed E pin s sn s1 \<and>
        refresh_counter_batch E Counter0 PIN_MAX_RETRIES s1 = (Inr (), s2) \<and>
        t = s2\<lparr>session := Session_open (clock_now E s2) (session s2)\<rparr>)) \<and>
   (case verify_pin E pin s of (Inl _, u) \<Rightarrow> host_state u = host_state s | (Inr _, u) \<Rightarrow> True)"
  using errors_keep_host_state(1) [of E pin]
  by (auto simp: verify_pin_Inr keeps_on_error_def split: prod.splits sum.splits)

text \<open>
  The retry counters. For every counter value, the remaining PIN attempts are 5 on a
  fresh chip and otherwise the distance to the next multiple of 5, so 0 exactly on a
  positive multiple; likewise for the PUK with 10. The subtraction never wraps and the
  result never exceeds the batch size.
\<close>

theorem retries_remaining_spec:
  "unat (retries_remaining c PIN_MAX_RETRIES) =
     (if c = 0 then 5 else (5 - unat c mod 5) mod 5) \<and>
   unat (retries_remaining c PUK_MAX_RETRIES) =
     (if c = 0 then 10 else (10 - unat c mod 10) mod 10) \<and>
   (retries_remaining c PIN_MAX_RETRIES = 0 \<longleftrightarrow> c \<noteq> 0 \<and> 5 dvd unat c) \<and>
   (retries_remaining c PUK_MAX_RETRIES = 0 \<longleftrightarrow> c \<noteq> 0 \<and> 10 dvd unat c)"
proof -
  have pin: "unat (retries_remaining c PIN_MAX_RETRIES) =
      (if c = 0 then 5 else (5 - unat c mod 5) mod 5)"
    using unat_retries_remaining [of PIN_MAX_RETRIES c] by (simp add: PIN_MAX_RETRIES_def)
  have puk: "unat (retries_remaining c PUK_MAX_RETRIES) =
      (if c = 0 then 10 else (10 - unat c mod 10) mod 10)"
    using unat_retries_remaining [of PUK_MAX_RETRIES c] by (simp add: PUK_MAX_RETRIES_def)
  have z: "w = 0 \<longleftrightarrow> unat w = 0" for w :: u8 by (simp add: word_unat_eq_iff)
  have m: "0 < b \<Longrightarrow> (b - n mod b) mod b = 0 \<longleftrightarrow> b dvd n" for b n :: nat
    by (metis diff_is_0_eq dvd_eq_mod_eq_0 mod_less_divisor mod_self not_less
        diff_less neq0_conv mod_less diff_zero)
  show ?thesis using pin puk m [of 5 "unat c"] m [of 10 "unat c"] by (simp add: z)
qed

text \<open>
  What refused requests do to the chip. When the PIN batch is exhausted,
  \<open>verify_pin\<close> answers \<open>PinBlocked\<close> without sending a CheckMac; when either batch
  still has attempts, \<open>emergency_reset\<close> is refused. In both cases everything written
  to the bus is reading of counters and the idle token: no key is regenerated, no slot
  written and no attempt consumed.
\<close>

theorem refused_requests_are_harmless:
  assumes "list_all is_ascii_digit pin"
    and "read_counter (log_env E) Counter0 s = (Inr c0, s1)"
    and "read_counter (log_env E) Counter1 s1 = (Inr c1, s2)"
    and "retries_remaining c0 PIN_MAX_RETRIES = 0" and "retries_remaining c1 PUK_MAX_RETRIES \<noteq> 0"
  shows "fst (verify_pin (log_env E) pin s) = Inl PinBlocked \<and>
    fst (emergency_reset (log_env E) io_key s) =
      Inl (EmergencyResetNotPermitted 0 (retries_remaining c1 PUK_MAX_RETRIES)) \<and>
    (\<exists>xs. svc_log (snd (verify_pin (log_env E) pin s)) = svc_log s @ xs \<and> list_all harmless xs) \<and>
    (\<exists>xs. svc_log (snd (emergency_reset (log_env E) io_key s)) = svc_log s @ xs \<and> list_all harmless xs)"
proof -
  obtain xs where "svc_log s1 = svc_log s @ xs" "list_all harmless xs"
    using harmless_reads(1) assms(2) by (rule emitsD)
  then show ?thesis
    using verify_pin_refused [OF assms(1,2,4)] emergency_reset_refused [OF assms(2,3)]
      harmless_gate [OF assms(2,3)] assms(4,5) by auto
qed

text \<open>A concrete environment and a chip whose counters read 5 and 1.\<close>

definition demo_env :: "(scripted, unit, u64) Env" where
  "demo_env = \<lparr>env_hal = scripted_hal, now_ms = (\<lambda>c h. c), sha256 = (\<lambda>m. replicate 32 (of_nat (length m)))\<rparr>"

definition counter_replies :: "u32 \<Rightarrow> bytes option list" where
  "counter_replies n =
     [Some WAKE_RESPONSE_OK, Some [7], Some (tl (response_frame (u32_to_le_bytes n)))]"

definition demo_logged :: "(scripted logged, u64) CryptoService" where
  "demo_logged =
     CryptoService_new (Atecc_new (scripted_chip (counter_replies 5 @ counter_replies 1), [])) 0"

theorem refused_requests_are_harmless_witness:
  "fst (verify_pin (log_env demo_env) (ascii ''1234'') demo_logged) = Inl PinBlocked \<and>
   fst (emergency_reset (log_env demo_env) (replicate 32 0) demo_logged) =
     Inl (EmergencyResetNotPermitted 0 9) \<and>
   (\<exists>xs. svc_log (snd (emergency_reset (log_env demo_env) (replicate 32 0) demo_logged)) =
      svc_log demo_logged @ xs \<and> list_all harmless xs)"
proof -
  let ?E = "log_env demo_env"
  let ?s1 = "snd (read_counter ?E Counter0 demo_logged)"
  have d: "list_all is_ascii_digit (ascii ''1234'')" by code_simp
  have f0: "fst (read_counter ?E Counter0 demo_logged) = Inr 5" by code_simp
  have f1: "fst (read_counter ?E Counter1 ?s1) = Inr 1" by code_simp
  have c0: "read_counter ?E Counter0 demo_logged = (Inr 5, ?s1)"
    using f0 by (simp add: prod_eq_iff)
  have c1: "read_counter ?E Counter1 ?s1 = (Inr 1, snd (read_counter ?E Counter1 ?s1))"
    using f1 by (simp add: prod_eq_iff)
  have r: "retries_remaining 5 PIN_MAX_RETRIES = 0" "retries_remaining 1 PUK_MAX_RETRIES = 9"
    by (simp_all add: retries_remaining_def PIN_MAX_RETRIES_def PUK_MAX_RETRIES_def)
  have "retries_remaining 1 PUK_MAX_RETRIES \<noteq> 0" using r(2) by simp
  from refused_requests_are_harmless [OF d c0 c1 r(1) this, of "replicate 32 0"]
  show ?thesis unfolding r(2) by blast
qed

text \<open>
  The command footprint. For every public method, whatever its arguments, the bus
  and the outcome, every buffer it writes is the idle token or a command whose opcode is
  in the method's list. So the irreversible Lock command leaves the device only through
  the three lock methods, Sign only through \<open>sign\<close>, CheckMac (which consumes an
  attempt) only through the methods that check a PIN or PUK, and Write only through the
  provisioning, PIN-changing and reset methods.
\<close>

theorem perform_command_footprint:
  "\<exists>xs. svc_log (snd (perform (log_env E) oper s)) = svc_log s @ xs \<and>
     list_all (sends (footprint oper)) xs"
  by (rule perform_footprint)


text \<open>
  Emergency reset hands out a new PUK only when both retry batches are exhausted,
  and the PUK is always eight ASCII digits, so that the device's own format check
  accepts it later. On any outcome the PIN session and the clock are untouched.
\<close>

theorem emergency_reset_spec:
  "(case emergency_reset E io_key s of
      (Inr puk, t) \<Rightarrow> (\<exists>u. both_exhausted E s u) \<and> length puk = 8 \<and> validate_digits puk = Inr () \<and>
         host_state t = host_state s
    | (Inl _, t) \<Rightarrow> host_state t = host_state s)"
proof -
  have "host_state (snd (emergency_reset E io_key s)) = host_state s" by (rule keepsD) simp
  then show ?thesis using emergency_reset_Inr [of E io_key s]
    by (auto split: prod.splits sum.splits)
qed

end
