(* ===== verification/Usb_Protocol.thy ===== *)
theory Usb_Protocol
  imports Hsm_Prelude
begin

text \<open>
  \<^verbatim>\<open>src/crates/hsm-usb-protocol/src\<close>: HID report framing
  (\<^verbatim>\<open>frame.rs\<close>, \<^verbatim>\<open>lib.rs\<close>), command opcodes and payload parsers
  (\<^verbatim>\<open>commands.rs\<close>) and response statuses (\<^verbatim>\<open>responses.rs\<close>).
\<close>

section \<open>Report framing (frame.rs)\<close>

definition HID_REPORT_SIZE :: nat where "HID_REPORT_SIZE = 128"
definition HEADER_SIZE :: nat where "HEADER_SIZE = 3"
definition MAX_PAYLOAD_SIZE :: nat where "MAX_PAYLOAD_SIZE = HID_REPORT_SIZE - HEADER_SIZE"

lemmas report_sizes = HID_REPORT_SIZE_def HEADER_SIZE_def MAX_PAYLOAD_SIZE_def

record Frame =
  opcode :: u8
  payload :: bytes

datatype FrameParseError = WrongReportSize nat | PayloadLenTooLarge nat

datatype FrameBuildError = WrongOutputSize nat | PayloadTooLarge nat

definition Frame_parse :: "bytes \<Rightarrow> FrameParseError + Frame" where
  "Frame_parse buf =
     (if length buf \<noteq> HID_REPORT_SIZE then Inl (WrongReportSize (length buf))
      else let len = unat (u16_from_le_bytes (buf ! 1) (buf ! 2)) in
      if len > MAX_PAYLOAD_SIZE then Inl (PayloadLenTooLarge len)
      else Inr \<lparr>opcode = buf ! 0, payload = slice buf HEADER_SIZE (HEADER_SIZE + len)\<rparr>)"

definition u16_try_from :: "nat \<Rightarrow> u16 option" where
  "u16_try_from n = (if n < 65536 then Some (of_nat n) else None)"

definition Frame_write :: "u8 \<Rightarrow> bytes \<Rightarrow> bytes \<Rightarrow> FrameBuildError + bytes" where
  "Frame_write op_byte data out =
     (if length out \<noteq> HID_REPORT_SIZE then Inl (WrongOutputSize (length out))
      else if length data > MAX_PAYLOAD_SIZE then Inl (PayloadTooLarge (length data))
      else let out = map (\<lambda>_. 0) out; out = out[0 := op_byte] in
      case u16_try_from (length data) of
        None \<Rightarrow> Inl (PayloadTooLarge (length data))
      | Some len \<Rightarrow>
          let le = u16_to_le_bytes len; out = out[1 := le ! 0, 2 := le ! 1]
          in Inr (copy_at out HEADER_SIZE data))"

definition Frame_to_report :: "u8 \<Rightarrow> bytes \<Rightarrow> FrameBuildError + bytes" where
  "Frame_to_report op_byte data = Frame_write op_byte data (replicate HID_REPORT_SIZE 0)"

section \<open>Command opcodes and response statuses\<close>

datatype CommandOpcode =
  CmdInfo | CmdGetPubkey | CmdSign | CmdGenKey
| CmdReadConfigZone | CmdReadConfigSlot | CmdVerifyPin | CmdSetPin
| CmdUnblockPin | CmdGetPinStatus | CmdSetPuk | CmdCloseSession
| CmdEmergencyReset | CmdReadSlotBlock | CmdReadSlotWord | CmdWriteConfigZone
| CmdProvisionSlot | CmdProvisionInitialPin | CmdProvisionInitialPuk | CmdProvisionIoKey
| CmdReadCounter | CmdLockConfigZone | CmdLockDataZone | CmdLockSlot

fun opcode_as_u8 :: "CommandOpcode \<Rightarrow> u8" where
  "opcode_as_u8 CmdInfo = 0x01"
| "opcode_as_u8 CmdGetPubkey = 0x02"
| "opcode_as_u8 CmdSign = 0x03"
| "opcode_as_u8 CmdGenKey = 0x04"
| "opcode_as_u8 CmdReadConfigZone = 0x05"
| "opcode_as_u8 CmdReadConfigSlot = 0x06"
| "opcode_as_u8 CmdVerifyPin = 0x07"
| "opcode_as_u8 CmdSetPin = 0x08"
| "opcode_as_u8 CmdUnblockPin = 0x09"
| "opcode_as_u8 CmdGetPinStatus = 0x0A"
| "opcode_as_u8 CmdSetPuk = 0x0B"
| "opcode_as_u8 CmdCloseSession = 0x0C"
| "opcode_as_u8 CmdEmergencyReset = 0x0D"
| "opcode_as_u8 CmdReadSlotBlock = 0x0E"
| "opcode_as_u8 CmdReadSlotWord = 0x0F"
| "opcode_as_u8 CmdWriteConfigZone = 0x10"
| "opcode_as_u8 CmdProvisionSlot = 0x11"
| "opcode_as_u8 CmdProvisionInitialPin = 0x12"
| "opcode_as_u8 CmdProvisionInitialPuk = 0x13"
| "opcode_as_u8 CmdProvisionIoKey = 0x14"
| "opcode_as_u8 CmdReadCounter = 0x15"
| "opcode_as_u8 CmdLockConfigZone = 0xF0"
| "opcode_as_u8 CmdLockDataZone = 0xF1"
| "opcode_as_u8 CmdLockSlot = 0xF2"

definition opcode_from_byte :: "u8 \<Rightarrow> CommandOpcode option" where
  "opcode_from_byte byte =
     (if byte = 0x01 then Some CmdInfo
      else if byte = 0x02 then Some CmdGetPubkey
      else if byte = 0x03 then Some CmdSign
      else if byte = 0x04 then Some CmdGenKey
      else if byte = 0x05 then Some CmdReadConfigZone
      else if byte = 0x06 then Some CmdReadConfigSlot
      else if byte = 0x07 then Some CmdVerifyPin
      else if byte = 0x08 then Some CmdSetPin
      else if byte = 0x09 then Some CmdUnblockPin
      else if byte = 0x0A then Some CmdGetPinStatus
      else if byte = 0x0B then Some CmdSetPuk
      else if byte = 0x0C then Some CmdCloseSession
      else if byte = 0x0D then Some CmdEmergencyReset
      else if byte = 0x0E then Some CmdReadSlotBlock
      else if byte = 0x0F then Some CmdReadSlotWord
      else if byte = 0x10 then Some CmdWriteConfigZone
      else if byte = 0x11 then Some CmdProvisionSlot
      else if byte = 0x12 then Some CmdProvisionInitialPin
      else if byte = 0x13 then Some CmdProvisionInitialPuk
      else if byte = 0x14 then Some CmdProvisionIoKey
      else if byte = 0x15 then Some CmdReadCounter
      else if byte = 0xF0 then Some CmdLockConfigZone
      else if byte = 0xF1 then Some CmdLockDataZone
      else if byte = 0xF2 then Some CmdLockSlot
      else None)"

datatype ResponseStatus =
  StatusOk | StatusInvalidCommand | StatusInvalidPayload | StatusInvalidSlot
| StatusAteccCommunicationError | StatusAteccChipError | StatusTouchTimeout | StatusNotProvisioned
| StatusLockMagicMismatch | StatusLockCrcMismatch | StatusBusy | StatusWrongPin
| StatusPinRequired | StatusPinBlocked | StatusWrongPuk | StatusBricked
| StatusEmergencyResetNotPermitted

fun status_as_u8 :: "ResponseStatus \<Rightarrow> u8" where
  "status_as_u8 StatusOk = 0x00"
| "status_as_u8 StatusInvalidCommand = 0x01"
| "status_as_u8 StatusInvalidPayload = 0x02"
| "status_as_u8 StatusInvalidSlot = 0x03"
| "status_as_u8 StatusAteccCommunicationError = 0x04"
| "status_as_u8 StatusAteccChipError = 0x05"
| "status_as_u8 StatusTouchTimeout = 0x06"
| "status_as_u8 StatusNotProvisioned = 0x07"
| "status_as_u8 StatusLockMagicMismatch = 0x08"
| "status_as_u8 StatusLockCrcMismatch = 0x09"
| "status_as_u8 StatusBusy = 0x0A"
| "status_as_u8 StatusWrongPin = 0x0B"
| "status_as_u8 StatusPinRequired = 0x0C"
| "status_as_u8 StatusPinBlocked = 0x0D"
| "status_as_u8 StatusWrongPuk = 0x0E"
| "status_as_u8 StatusBricked = 0x0F"
| "status_as_u8 StatusEmergencyResetNotPermitted = 0x10"

definition status_from_byte :: "u8 \<Rightarrow> ResponseStatus option" where
  "status_from_byte byte =
     (if byte = 0x00 then Some StatusOk
      else if byte = 0x01 then Some StatusInvalidCommand
      else if byte = 0x02 then Some StatusInvalidPayload
      else if byte = 0x03 then Some StatusInvalidSlot
      else if byte = 0x04 then Some StatusAteccCommunicationError
      else if byte = 0x05 then Some StatusAteccChipError
      else if byte = 0x06 then Some StatusTouchTimeout
      else if byte = 0x07 then Some StatusNotProvisioned
      else if byte = 0x08 then Some StatusLockMagicMismatch
      else if byte = 0x09 then Some StatusLockCrcMismatch
      else if byte = 0x0A then Some StatusBusy
      else if byte = 0x0B then Some StatusWrongPin
      else if byte = 0x0C then Some StatusPinRequired
      else if byte = 0x0D then Some StatusPinBlocked
      else if byte = 0x0E then Some StatusWrongPuk
      else if byte = 0x0F then Some StatusBricked
      else if byte = 0x10 then Some StatusEmergencyResetNotPermitted
      else None)"

interpretation command_opcode: byte_codec opcode_as_u8 opcode_from_byte "\<lambda>_. True"
proof
  fix x show "opcode_from_byte (opcode_as_u8 x) = Some x"
    by (cases x) (simp_all add: opcode_from_byte_def)
next
  fix b x show "opcode_from_byte b = Some x \<Longrightarrow> opcode_as_u8 x = b"
    by (auto simp: opcode_from_byte_def split: if_splits)
qed

interpretation response_status: byte_codec status_as_u8 status_from_byte "\<lambda>_. True"
proof
  fix x show "status_from_byte (status_as_u8 x) = Some x"
    by (cases x) (simp_all add: status_from_byte_def)
next
  fix b x show "status_from_byte b = Some x \<Longrightarrow> status_as_u8 x = b"
    by (auto simp: status_from_byte_def split: if_splits)
qed

text \<open>The conversions with an error that carries the byte (\<open>TryFrom\<close>).\<close>

datatype UnknownOpcode = UnknownOpcode u8

datatype UnknownStatus = UnknownStatus u8

definition opcode_try_from :: "u8 \<Rightarrow> UnknownOpcode + CommandOpcode" where
  "opcode_try_from byte = (case opcode_from_byte byte of Some c \<Rightarrow> Inr c | None \<Rightarrow> Inl (UnknownOpcode byte))"

definition status_try_from :: "u8 \<Rightarrow> UnknownStatus + ResponseStatus" where
  "status_try_from byte = (case status_from_byte byte of Some c \<Rightarrow> Inr c | None \<Rightarrow> Inl (UnknownStatus byte))"

lemma try_from_exact:
  "opcode_try_from b = Inr c \<longleftrightarrow> b = opcode_as_u8 c" "status_try_from b = Inr r \<longleftrightarrow> b = status_as_u8 r"
  "opcode_try_from b = Inl (UnknownOpcode d) \<Longrightarrow> d = b \<and> (\<forall>c. opcode_as_u8 c \<noteq> b)"
  "status_try_from b = Inl (UnknownStatus d) \<Longrightarrow> d = b \<and> (\<forall>r. status_as_u8 r \<noteq> b)"
  by (auto simp: opcode_try_from_def status_try_from_def command_opcode.from_byte_iff response_status.from_byte_iff
      command_opcode.as_byte_inject response_status.as_byte_inject
      dest: command_opcode.unassigned response_status.unassigned split: option.splits)

section \<open>Payload parsers (commands.rs)\<close>

definition USB_PIN_LEN :: nat where "USB_PIN_LEN = 4"
definition USB_PUK_LEN :: nat where "USB_PUK_LEN = 8"
definition DIGEST_LEN :: nat where "DIGEST_LEN = 32"
definition LOCK_MAGIC_LEN :: nat where "LOCK_MAGIC_LEN = 4"
definition IO_KEY_LEN :: nat where "IO_KEY_LEN = 32"
definition EMERGENCY_RESET_MAGIC :: bytes where "EMERGENCY_RESET_MAGIC = [0xBA, 0xDC, 0x0F, 0xFE]"
definition LOCK_CONFIG_MAGIC :: bytes where "LOCK_CONFIG_MAGIC = [0xDE, 0xAD, 0xBE, 0xEF]"
definition LOCK_DATA_MAGIC :: bytes where "LOCK_DATA_MAGIC = [0xCA, 0xFE, 0xBA, 0xBE]"
definition LOCK_SLOT_MAGIC :: bytes where "LOCK_SLOT_MAGIC = [0xF0, 0x0D, 0xCA, 0xFE]"

lemmas payload_sizes = USB_PIN_LEN_def USB_PUK_LEN_def DIGEST_LEN_def LOCK_MAGIC_LEN_def
  IO_KEY_LEN_def

lemmas magic_words = EMERGENCY_RESET_MAGIC_def LOCK_CONFIG_MAGIC_def LOCK_DATA_MAGIC_def
  LOCK_SLOT_MAGIC_def

datatype PayloadError = WrongLen nat nat | MagicMismatch

definition require_len :: "bytes \<Rightarrow> nat \<Rightarrow> (PayloadError + 'a) \<Rightarrow> PayloadError + 'a" where
  "require_len data expected k =
     (if length data = expected then k else Inl (WrongLen expected (length data)))"

definition parse_slot_only :: "bytes \<Rightarrow> PayloadError + u8" where
  "parse_slot_only data = require_len data 1 (Inr (data ! 0))"

definition parse_sign :: "bytes \<Rightarrow> PayloadError + u8 \<times> bytes" where
  "parse_sign data =
     require_len data (1 + DIGEST_LEN) (Inr (data ! 0, slice data 1 (DIGEST_LEN + 1)))"

definition parse_verify_pin :: "bytes \<Rightarrow> PayloadError + bytes" where
  "parse_verify_pin data = require_len data USB_PIN_LEN (Inr data)"

definition parse_set_pin :: "bytes \<Rightarrow> PayloadError + bytes \<times> bytes \<times> bytes" where
  "parse_set_pin data =
     require_len data (USB_PIN_LEN * 2 + 32)
       (Inr (slice data 0 USB_PIN_LEN, slice data USB_PIN_LEN (USB_PIN_LEN * 2),
             slice data (USB_PIN_LEN * 2) (USB_PIN_LEN * 2 + 32)))"

definition parse_unblock_pin :: "bytes \<Rightarrow> PayloadError + bytes \<times> bytes \<times> bytes" where
  "parse_unblock_pin data =
     require_len data (USB_PUK_LEN + USB_PIN_LEN + 32)
       (Inr (slice data 0 USB_PUK_LEN, slice data USB_PUK_LEN (USB_PUK_LEN + USB_PIN_LEN),
             slice data (USB_PUK_LEN + USB_PIN_LEN) (USB_PUK_LEN + USB_PIN_LEN + 32)))"

definition parse_set_puk :: "bytes \<Rightarrow> PayloadError + bytes \<times> bytes \<times> bytes" where
  "parse_set_puk data =
     require_len data (USB_PUK_LEN * 2 + 32)
       (Inr (slice data 0 USB_PUK_LEN, slice data USB_PUK_LEN (USB_PUK_LEN * 2),
             slice data (USB_PUK_LEN * 2) (USB_PUK_LEN * 2 + 32)))"

definition parse_emergency_reset :: "bytes \<Rightarrow> PayloadError + bytes" where
  "parse_emergency_reset data =
     require_len data (4 + 32)
       (if slice data 0 4 \<noteq> EMERGENCY_RESET_MAGIC then Inl MagicMismatch
        else Inr (slice data 4 (4 + 32)))"

definition parse_lock_config_zone :: "bytes \<Rightarrow> PayloadError + u16" where
  "parse_lock_config_zone data =
     require_len data (LOCK_MAGIC_LEN + 2)
       (if slice data 0 LOCK_MAGIC_LEN \<noteq> LOCK_CONFIG_MAGIC then Inl MagicMismatch
        else Inr (u16_from_le_bytes (data ! LOCK_MAGIC_LEN) (data ! (LOCK_MAGIC_LEN + 1))))"

definition parse_lock_data_zone :: "bytes \<Rightarrow> PayloadError + unit" where
  "parse_lock_data_zone data =
     require_len data LOCK_MAGIC_LEN
       (if slice data 0 LOCK_MAGIC_LEN \<noteq> LOCK_DATA_MAGIC then Inl MagicMismatch else Inr ())"

definition parse_lock_slot :: "bytes \<Rightarrow> PayloadError + u8" where
  "parse_lock_slot data =
     require_len data (LOCK_MAGIC_LEN + 1)
       (if slice data 0 LOCK_MAGIC_LEN \<noteq> LOCK_SLOT_MAGIC then Inl MagicMismatch
        else Inr (data ! LOCK_MAGIC_LEN))"

definition parse_write_config_zone :: "bytes \<Rightarrow> PayloadError + u8 \<times> bytes" where
  "parse_write_config_zone data = require_len data (1 + 32) (Inr (data ! 0, slice data 1 33))"

definition parse_provision_slot :: "bytes \<Rightarrow> PayloadError + u8 \<times> bytes" where
  "parse_provision_slot data = require_len data (1 + 32) (Inr (data ! 0, slice data 1 33))"

definition parse_read_slot_block :: "bytes \<Rightarrow> PayloadError + u8 \<times> u8" where
  "parse_read_slot_block data = require_len data 2 (Inr (data ! 0, data ! 1))"

definition parse_read_slot_word :: "bytes \<Rightarrow> PayloadError + u8 \<times> u8 \<times> u8" where
  "parse_read_slot_word data = require_len data 3 (Inr (data ! 0, data ! 1, data ! 2))"

lemmas parser_defs = parse_slot_only_def parse_sign_def parse_verify_pin_def parse_set_pin_def
  parse_unblock_pin_def parse_set_puk_def parse_emergency_reset_def parse_lock_config_zone_def
  parse_lock_data_zone_def parse_lock_slot_def parse_write_config_zone_def
  parse_provision_slot_def parse_read_slot_block_def parse_read_slot_word_def

section \<open>Framing lemmas\<close>

definition report :: "u8 \<Rightarrow> bytes \<Rightarrow> bytes \<Rightarrow> bytes" where
  "report op_byte data padding = op_byte # u16_to_le_bytes (of_nat (length data)) @ data @ padding"

lemma length_report [simp]: "length (report op_byte data padding) = 3 + length data + length padding"
  by (simp add: report_def)

lemma Frame_to_report_eq:
  "Frame_to_report op_byte data =
     (if length data > 125 then Inl (PayloadTooLarge (length data))
      else Inr (report op_byte data (replicate (125 - length data) 0)))"
proof (cases "length data \<le> 125")
  case True
  have "replicate 128 (0 :: u8) = 0 # 0 # 0 # replicate 125 0" by (simp add: numeral_eq_Suc)
  then show ?thesis using True
    by (simp add: Frame_to_report_def Frame_write_def report_sizes u16_try_from_def Let_def
        copy_at_def report_def u16_to_le_bytes_def numeral_3_eq_3)
qed (simp add: Frame_to_report_def Frame_write_def report_sizes)

lemma Frame_parse_report:
  assumes "length data + length padding = 125"
  shows "Frame_parse (report op_byte data padding) = Inr \<lparr>opcode = op_byte, payload = data\<rparr>"
proof -
  have "unat (u16_from_le_bytes (report op_byte data padding ! 1) (report op_byte data padding ! 2)) =
      length data"
    using assms by (simp add: report_def u16_to_le_bytes_def u16_from_to_le)
  moreover have "slice (report op_byte data padding) 3 (3 + length data) = data"
    by (simp add: report_def slice_def u16_to_le_bytes_def numeral_3_eq_3)
  ultimately show ?thesis using assms
    by (simp add: Frame_parse_def report_sizes Let_def report_def)
qed

lemma Frame_parse_Inr:
  assumes "Frame_parse buf = Inr f"
  obtains padding where "buf = report (opcode f) (payload f) padding"
    and "length (payload f) + length padding = 125"
proof -
  from assms have l: "length buf = 128"
    by (auto simp: Frame_parse_def report_sizes split: if_splits)
  then obtain a b c rest where buf: "buf = a # b # c # rest"
    by (auto simp: numeral_eq_Suc length_Suc_conv)
  let ?n = "unat (u16_from_le_bytes b c)"
  from assms l buf have n: "?n \<le> 125" and f: "f = \<lparr>opcode = a, payload = take ?n rest\<rparr>"
    by (auto simp: Frame_parse_def report_sizes Let_def slice_def numeral_3_eq_3 split: if_splits)
  have r: "length rest = 125" using l buf by simp
  have le: "u16_to_le_bytes (of_nat ?n) = [b, c]" by (simp add: u16_to_from_le)
  have "buf = report (opcode f) (payload f) (drop ?n rest)"
    using n r le by (simp add: report_def buf f min_def)
  moreover have "length (payload f) + length (drop ?n rest) = 125" using n r f by simp
  ultimately show thesis using that by blast
qed

section \<open>Parser lemmas\<close>

lemma require_len_Inr [simp]:
  "require_len data n k = Inr v \<longleftrightarrow> length data = n \<and> k = Inr v"
  by (auto simp: require_len_def)

lemma split_at_iff:
  "length data = a + b \<and> x = slice data 0 a \<and> y = slice data a (a + b) \<longleftrightarrow>
     data = x @ y \<and> length x = a \<and> length y = b"
  by (auto simp: slice_def)

lemma split_at3_iff:
  "length data = a + b + c \<and> x = slice data 0 a \<and> y = slice data a (a + b) \<and>
     z = slice data (a + b) (a + b + c) \<longleftrightarrow>
   data = x @ y @ z \<and> length x = a \<and> length y = b \<and> length z = c"
proof
  assume l: "length data = a + b + c \<and> x = slice data 0 a \<and> y = slice data a (a + b) \<and>
     z = slice data (a + b) (a + b + c)"
  then have "data = take a data @ take b (drop a data) @ drop (a + b) data"
    by (metis append_take_drop_id drop_drop add.commute)
  with l show "data = x @ y @ z \<and> length x = a \<and> length y = b \<and> length z = c"
    by (simp add: slice_def)
qed (auto simp: slice_def)

lemma split_head_iff:
  "length data = 1 + n \<and> x = data ! 0 \<and> y = slice data 1 (n + 1) \<longleftrightarrow> data = x # y \<and> length y = n"
  by (cases data) (auto simp: slice_def)

lemma parse_pin_payloads:
  "parse_set_pin data = Inr (p, q, k) \<longleftrightarrow>
     data = p @ q @ k \<and> length p = 4 \<and> length q = 4 \<and> length k = 32"
  "parse_unblock_pin data = Inr (p, q, k) \<longleftrightarrow>
     data = p @ q @ k \<and> length p = 8 \<and> length q = 4 \<and> length k = 32"
  "parse_set_puk data = Inr (p, q, k) \<longleftrightarrow>
     data = p @ q @ k \<and> length p = 8 \<and> length q = 8 \<and> length k = 32"
  by (simp_all add: parse_set_pin_def parse_unblock_pin_def parse_set_puk_def payload_sizes
      split_at3_iff [of data 4 4 32 p q k, simplified, symmetric]
      split_at3_iff [of data 8 4 32 p q k, simplified, symmetric]
      split_at3_iff [of data 8 8 32 p q k, simplified, symmetric]) auto

lemma parse_head_payloads:
  "parse_sign data = Inr (b, v) \<longleftrightarrow> data = b # v \<and> length v = 32"
  "parse_write_config_zone data = Inr (b, v) \<longleftrightarrow> data = b # v \<and> length v = 32"
  "parse_provision_slot data = Inr (b, v) \<longleftrightarrow> data = b # v \<and> length v = 32"
  using split_head_iff [of data 32 b v]
  by (auto simp: parse_sign_def parse_write_config_zone_def parse_provision_slot_def payload_sizes)

lemma parse_short_payloads:
  "parse_slot_only data = Inr b \<longleftrightarrow> data = [b]"
  "parse_read_slot_block data = Inr (b, c) \<longleftrightarrow> data = [b, c]"
  "parse_read_slot_word data = Inr (b, c, d) \<longleftrightarrow> data = [b, c, d]"
  "parse_verify_pin data = Inr v \<longleftrightarrow> data = v \<and> length v = 4"
  by (auto simp: parser_defs payload_sizes length_Suc_conv numeral_eq_Suc)

lemma parse_magic_payloads:
  "parse_emergency_reset data = Inr k \<longleftrightarrow> data = EMERGENCY_RESET_MAGIC @ k \<and> length k = 32"
  "parse_lock_config_zone data = Inr crc \<longleftrightarrow> data = LOCK_CONFIG_MAGIC @ u16_to_le_bytes crc"
  "parse_lock_data_zone data = Inr () \<longleftrightarrow> data = LOCK_DATA_MAGIC"
  "parse_lock_slot data = Inr b \<longleftrightarrow> data = LOCK_SLOT_MAGIC @ [b]"
proof -
  show "parse_emergency_reset data = Inr k \<longleftrightarrow> data = EMERGENCY_RESET_MAGIC @ k \<and> length k = 32"
    using split_at_iff [of data 4 32 EMERGENCY_RESET_MAGIC k]
    by (auto simp: parse_emergency_reset_def EMERGENCY_RESET_MAGIC_def split: if_splits)
  show "parse_lock_config_zone data = Inr crc \<longleftrightarrow> data = LOCK_CONFIG_MAGIC @ u16_to_le_bytes crc"
  proof
    assume p: "parse_lock_config_zone data = Inr crc"
    then have "length data = 6" by (auto simp: parse_lock_config_zone_def payload_sizes)
    then obtain a b c d e f where data: "data = [a, b, c, d, e, f]"
      by (auto simp: numeral_eq_Suc length_Suc_conv)
    with p have "[a, b, c, d] = LOCK_CONFIG_MAGIC" "crc = u16_from_le_bytes e f"
      by (auto simp: parse_lock_config_zone_def payload_sizes slice_def split: if_splits)
    then show "data = LOCK_CONFIG_MAGIC @ u16_to_le_bytes crc"
      using data by (simp only: u16_to_from_le) (metis append_Cons append_Nil)
  next
    assume d: "data = LOCK_CONFIG_MAGIC @ u16_to_le_bytes crc"
    then show "parse_lock_config_zone data = Inr crc"
      by (simp add: parse_lock_config_zone_def require_len_def payload_sizes LOCK_CONFIG_MAGIC_def
          slice_def u16_to_le_bytes_def u16_from_to_le)
  qed
  show "parse_lock_data_zone data = Inr () \<longleftrightarrow> data = LOCK_DATA_MAGIC"
    by (auto simp: parse_lock_data_zone_def payload_sizes LOCK_DATA_MAGIC_def slice_def split: if_splits)
  have "length data = 5 \<Longrightarrow> \<exists>a b c d e. data = [a, b, c, d, e]"
    by (auto simp: numeral_eq_Suc length_Suc_conv)
  then show "parse_lock_slot data = Inr b \<longleftrightarrow> data = LOCK_SLOT_MAGIC @ [b]"
    by (auto simp: parse_lock_slot_def payload_sizes LOCK_SLOT_MAGIC_def slice_def numeral_eq_Suc
        split: if_splits)
qed

section \<open>Properties\<close>

text \<open>
  C30. Report framing is a round trip. Building a report of at most 125 payload bytes gives
  a 128-byte report with zeroed padding, larger payloads are refused; and a report parses
  to a frame exactly when it consists of that frame's opcode, its length, its payload
  and any padding up to 128 bytes. So every built report parses back to what was put in,
  and padding never influences the result.
\<close>

theorem report_round_trip:
  "(Frame_to_report op_byte data =
      (if length data > 125 then Inl (PayloadTooLarge (length data))
       else Inr (report op_byte data (replicate (125 - length data) 0)))) \<and>
   (Frame_parse buf = Inr f \<longleftrightarrow>
      (\<exists>padding. buf = report (opcode f) (payload f) padding \<and>
         length (payload f) + length padding = 125))"
proof
  show "Frame_to_report op_byte data =
      (if length data > 125 then Inl (PayloadTooLarge (length data))
       else Inr (report op_byte data (replicate (125 - length data) 0)))"
    by (rule Frame_to_report_eq)
  show "Frame_parse buf = Inr f \<longleftrightarrow>
      (\<exists>padding. buf = report (opcode f) (payload f) padding \<and>
         length (payload f) + length padding = 125)"
    by (auto elim: Frame_parse_Inr simp: Frame_parse_report)
qed

text \<open>
  The payload parsers accept exactly the documented layouts and return their fields:
  each parser succeeds with given values if and only if the payload is the concatenation
  of those values at their exact sizes, preceded by the magic word where one is
  required. No truncated, overlong or wrongly authorised payload gets through.
\<close>

theorem payload_parsers_exact:
  "(parse_slot_only data = Inr b \<longleftrightarrow> data = [b]) \<and>
   (parse_sign data = Inr (b, v) \<longleftrightarrow> data = b # v \<and> length v = 32) \<and>
   (parse_verify_pin data = Inr v \<longleftrightarrow> data = v \<and> length v = 4) \<and>
   (parse_set_pin data = Inr (p, q, k) \<longleftrightarrow>
      data = p @ q @ k \<and> length p = 4 \<and> length q = 4 \<and> length k = 32) \<and>
   (parse_unblock_pin data = Inr (p, q, k) \<longleftrightarrow>
      data = p @ q @ k \<and> length p = 8 \<and> length q = 4 \<and> length k = 32) \<and>
   (parse_set_puk data = Inr (p, q, k) \<longleftrightarrow>
      data = p @ q @ k \<and> length p = 8 \<and> length q = 8 \<and> length k = 32) \<and>
   (parse_emergency_reset data = Inr k \<longleftrightarrow> data = [0xBA, 0xDC, 0x0F, 0xFE] @ k \<and> length k = 32) \<and>
   (parse_lock_config_zone data = Inr crc \<longleftrightarrow> data = [0xDE, 0xAD, 0xBE, 0xEF] @ u16_to_le_bytes crc) \<and>
   (parse_lock_data_zone data = Inr () \<longleftrightarrow> data = [0xCA, 0xFE, 0xBA, 0xBE]) \<and>
   (parse_lock_slot data = Inr b \<longleftrightarrow> data = [0xF0, 0x0D, 0xCA, 0xFE, b]) \<and>
   (parse_write_config_zone data = Inr (b, v) \<longleftrightarrow> data = b # v \<and> length v = 32) \<and>
   (parse_provision_slot data = Inr (b, v) \<longleftrightarrow> data = b # v \<and> length v = 32) \<and>
   (parse_read_slot_block data = Inr (b, c) \<longleftrightarrow> data = [b, c]) \<and>
   (parse_read_slot_word data = Inr (b, c, d) \<longleftrightarrow> data = [b, c, d])"
  by (simp only: parse_short_payloads parse_head_payloads parse_pin_payloads parse_magic_payloads
      magic_words append.simps)

end
