(* ===== verification/Token_Machine.thy ===== *)
theory Token_Machine
  imports Hsm_Prelude
begin

text \<open>
  \<^verbatim>\<open>src/crates/hsm-firmware-logic/src\<close>: the operating states of the token
  (\<^verbatim>\<open>state_machine.rs\<close>) and the button debouncer (\<^verbatim>\<open>io.rs\<close>), both pure
  logic in the sources, and the LED driver \<open>apply_pattern\<close> of
  \<^verbatim>\<open>src/crates/hsm-firmware/src/animation.rs\<close>.
\<close>

section \<open>The state machine (state_machine.rs)\<close>

datatype TokenState = Booting | Idle | Authenticated | WaitingForTouch | Signing | Error

definition ERROR_DISPLAY_MS :: u64 where "ERROR_DISPLAY_MS = 5000"
definition TOUCH_TIMEOUT_MS :: u64 where "TOUCH_TIMEOUT_MS = 30000"

datatype Event =
  BootComplete | PinVerified | SessionEnded | SignRequested | TouchPressed | TouchTimeout
| SignComplete | ErrorRaised | ErrorDisplayElapsed

datatype LedPattern =
  AllOff | GreenSolid | GreenSlowPulse | GreenFastBlink | YellowSolid | YellowBlink | AlternateBoth

definition TokenState_initial :: TokenState where "TokenState_initial = Booting"

fun led_pattern :: "TokenState \<Rightarrow> LedPattern" where
  "led_pattern Booting = YellowBlink"
| "led_pattern Idle = GreenSolid"
| "led_pattern Authenticated = GreenSlowPulse"
| "led_pattern WaitingForTouch = YellowSolid"
| "led_pattern Signing = AlternateBoth"
| "led_pattern Error = GreenFastBlink"

fun on_event :: "TokenState \<Rightarrow> Event \<Rightarrow> TokenState" where
  "on_event Booting BootComplete = Idle"
| "on_event Authenticated SessionEnded = Idle"
| "on_event WaitingForTouch SessionEnded = Idle"
| "on_event Error ErrorDisplayElapsed = Idle"
| "on_event Idle PinVerified = Authenticated"
| "on_event Authenticated PinVerified = Authenticated"
| "on_event WaitingForTouch TouchTimeout = Authenticated"
| "on_event Signing SignComplete = Authenticated"
| "on_event Authenticated SignRequested = WaitingForTouch"
| "on_event WaitingForTouch TouchPressed = Signing"
| "on_event _ ErrorRaised = Error"
| "on_event self _ = self"

section \<open>The LED driver (animation.rs)\<close>

text \<open>The levels of the green and the yellow LED, and the wait in milliseconds.\<close>

definition SLOW_PULSE_INTERVAL :: nat where "SLOW_PULSE_INTERVAL = 500"
definition FAST_BLINK_INTERVAL :: nat where "FAST_BLINK_INTERVAL = 100"
definition YELLOW_BLINK_INTERVAL :: nat where "YELLOW_BLINK_INTERVAL = 250"
definition ALTERNATE_INTERVAL :: nat where "ALTERNATE_INTERVAL = 100"

fun apply_pattern :: "LedPattern \<Rightarrow> bool \<Rightarrow> (bool \<times> bool) \<times> nat" where
  "apply_pattern AllOff tick_high = ((False, False), 60000)"
| "apply_pattern GreenSolid tick_high = ((True, False), 60000)"
| "apply_pattern GreenSlowPulse tick_high = ((tick_high, False), SLOW_PULSE_INTERVAL)"
| "apply_pattern GreenFastBlink tick_high = ((tick_high, False), FAST_BLINK_INTERVAL)"
| "apply_pattern YellowSolid tick_high = ((False, True), 60000)"
| "apply_pattern YellowBlink tick_high = ((False, tick_high), YELLOW_BLINK_INTERVAL)"
| "apply_pattern AlternateBoth tick_high = ((tick_high, \<not> tick_high), ALTERNATE_INTERVAL)"

section \<open>The debouncer (io.rs)\<close>

definition DEBOUNCE_STABLE_SAMPLES :: u8 where "DEBOUNCE_STABLE_SAMPLES = 5"

record Debouncer =
  db_stable :: bool
  db_candidate :: bool
  db_count :: u8

definition Debouncer_new :: "bool \<Rightarrow> Debouncer" where
  "Debouncer_new initial = \<lparr>db_stable = initial, db_candidate = initial, db_count = 0\<rparr>"

definition u8_saturating_add :: "u8 \<Rightarrow> u8 \<Rightarrow> u8" where
  "u8_saturating_add a b = (if unat a + unat b < 256 then a + b else - 1)"

definition Debouncer_sample :: "bool \<Rightarrow> Debouncer \<Rightarrow> bool option \<times> Debouncer" where
  "Debouncer_sample level self =
     (if level = db_stable self then
        (None, self\<lparr>db_candidate := db_stable self, db_count := 0\<rparr>)
      else if level = db_candidate self then
        let self = self\<lparr>db_count := u8_saturating_add (db_count self) 1\<rparr> in
        if db_count self \<ge> DEBOUNCE_STABLE_SAMPLES then
          let self = self\<lparr>db_stable := db_candidate self, db_count := 0\<rparr>
          in (Some (db_stable self), self)
        else (None, self)
      else (None, self\<lparr>db_candidate := level, db_count := 1\<rparr>))"

section \<open>Runs of the state machine\<close>

definition run_events :: "Event list \<Rightarrow> TokenState" where
  "run_events evs = foldl on_event TokenState_initial evs"

lemma run_events_snoc [simp]: "run_events (evs @ [e]) = on_event (run_events evs) e"
  by (simp add: run_events_def)

text \<open>What the history must contain for each of the states that lead to a signature.\<close>

definition authenticated_by :: "Event list \<Rightarrow> bool" where
  "authenticated_by evs \<longleftrightarrow> (\<exists>a b. evs = a @ PinVerified # b \<and> ErrorRaised \<notin> set b)"

definition requested_by :: "Event list \<Rightarrow> bool" where
  "requested_by evs \<longleftrightarrow>
     (\<exists>a b. evs = a @ SignRequested # b \<and> authenticated_by a \<and>
        set b \<inter> {ErrorRaised, SessionEnded, TouchTimeout} = {})"

definition touched_by :: "Event list \<Rightarrow> bool" where
  "touched_by evs \<longleftrightarrow>
     (\<exists>a b. evs = a @ TouchPressed # b \<and> requested_by a \<and> set b \<inter> {ErrorRaised, SignComplete} = {})"

lemma authenticated_by_snoc: "authenticated_by evs \<Longrightarrow> e \<noteq> ErrorRaised \<Longrightarrow> authenticated_by (evs @ [e])"
  unfolding authenticated_by_def by fastforce

lemma authenticated_by_append:
  assumes "authenticated_by a" and "ErrorRaised \<notin> set b"
  shows "authenticated_by (a @ b)"
proof -
  from assms(1) obtain x y where "a = x @ PinVerified # y" "ErrorRaised \<notin> set y"
    unfolding authenticated_by_def by blast
  with assms(2) show ?thesis unfolding authenticated_by_def
    by (intro exI [of _ x] exI [of _ "y @ b"]) simp
qed

lemma requested_authenticated: "requested_by evs \<Longrightarrow> authenticated_by evs"
  unfolding requested_by_def
  by (auto intro!: authenticated_by_append)

lemma touched_authenticated: "touched_by evs \<Longrightarrow> authenticated_by evs"
  unfolding touched_by_def
  by (auto intro!: authenticated_by_append dest: requested_authenticated)

lemma snoc_keeps:
  assumes "\<exists>a b. evs = a @ m # b \<and> P a \<and> set b \<inter> S = {}" and "e \<notin> S"
  shows "\<exists>a b. evs @ [e] = a @ m # b \<and> P a \<and> set b \<inter> S = {}"
proof -
  from assms(1) obtain a b where "evs = a @ m # b" "P a" "set b \<inter> S = {}" by blast
  with assms(2) show ?thesis by (intro exI [of _ a] exI [of _ "b @ [e]"]) auto
qed

lemma requested_by_snoc:
  "requested_by evs \<Longrightarrow> e \<notin> {ErrorRaised, SessionEnded, TouchTimeout} \<Longrightarrow> requested_by (evs @ [e])"
  unfolding requested_by_def by (rule snoc_keeps)

lemma touched_by_snoc:
  "touched_by evs \<Longrightarrow> e \<notin> {ErrorRaised, SignComplete} \<Longrightarrow> touched_by (evs @ [e])"
  unfolding touched_by_def by (rule snoc_keeps)

lemma authenticated_by_pin: "authenticated_by (evs @ [PinVerified])"
  unfolding authenticated_by_def by force

lemma requested_by_request: "authenticated_by evs \<Longrightarrow> requested_by (evs @ [SignRequested])"
  unfolding requested_by_def by force

lemma touched_by_touch: "requested_by evs \<Longrightarrow> touched_by (evs @ [TouchPressed])"
  unfolding touched_by_def by force

lemma run_events_history:
  "case run_events evs of
     Authenticated \<Rightarrow> authenticated_by evs
   | WaitingForTouch \<Rightarrow> requested_by evs
   | Signing \<Rightarrow> touched_by evs
   | _ \<Rightarrow> True"
proof (induction evs rule: rev_induct)
  case Nil
  show ?case by (simp add: run_events_def TokenState_initial_def)
next
  case (snoc e evs)
  then show ?case
    by (cases "run_events evs"; cases e)
      (auto intro: authenticated_by_snoc requested_by_snoc touched_by_snoc authenticated_by_pin
        requested_by_request touched_by_touch dest: requested_authenticated touched_authenticated)
qed

section \<open>The debouncer against its specification\<close>

text \<open>
  The specification reads the samples, latest first: the level is that of the most
  recent run of five equal samples, and the initial level while there is none.
\<close>

fun debounced :: "bool \<Rightarrow> bool list \<Rightarrow> bool" where
  "debounced initial [] = initial"
| "debounced initial (x # xs) =
     (if take 4 xs = replicate 4 x then x else debounced initial xs)"

fun feed :: "bool \<Rightarrow> bool list \<Rightarrow> Debouncer" where
  "feed initial [] = Debouncer_new initial"
| "feed initial (x # xs) = snd (Debouncer_sample x (feed initial xs))"

definition trailing :: "bool \<Rightarrow> bool list \<Rightarrow> nat" where
  "trailing l xs = length (takeWhile (\<lambda>x. x \<noteq> l) xs)"

definition debouncer_inv :: "bool \<Rightarrow> bool list \<Rightarrow> Debouncer \<Rightarrow> bool" where
  "debouncer_inv initial xs d \<longleftrightarrow>
     db_stable d = debounced initial xs \<and> unat (db_count d) = trailing (db_stable d) xs \<and>
     unat (db_count d) < 5 \<and> (db_candidate d = db_stable d \<longleftrightarrow> db_count d = 0)"

lemma trailing_Cons [simp]: "trailing l (x # xs) = (if x = l then 0 else Suc (trailing l xs))"
  by (simp add: trailing_def)

lemma takeWhile_replicate:
  "n \<le> length (takeWhile (\<lambda>x. x \<noteq> l) xs) \<longleftrightarrow> take n xs = replicate n (\<not> l)"
proof (induction n arbitrary: xs)
  case (Suc n)
  then show ?case by (cases xs) auto
qed simp

lemma trailing_four: "4 \<le> trailing l xs \<longleftrightarrow> take 4 xs = replicate 4 (\<not> l)"
  unfolding trailing_def by (rule takeWhile_replicate)

lemma debouncer_step:
  assumes "debouncer_inv initial xs d"
  shows "debouncer_inv initial (x # xs) (snd (Debouncer_sample x d))"
    and "fst (Debouncer_sample x d) =
      (if debounced initial (x # xs) \<noteq> debounced initial xs then Some x else None)"
proof -
  from assms have s: "db_stable d = debounced initial xs"
    and c: "unat (db_count d) = trailing (db_stable d) xs" "unat (db_count d) < 5"
    and k: "db_candidate d = db_stable d \<longleftrightarrow> db_count d = 0" by (auto simp: debouncer_inv_def)
  have c1: "unat (u8_saturating_add (db_count d) 1) = Suc (unat (db_count d))"
    using c(2) by (simp add: u8_saturating_add_def unat_word_ariths)
  have ge: "DEBOUNCE_STABLE_SAMPLES \<le> u8_saturating_add (db_count d) 1 \<longleftrightarrow> 4 \<le> unat (db_count d)"
    by (simp add: word_le_nat_alt DEBOUNCE_STABLE_SAMPLES_def c1)
  have zero: "db_count d = 0 \<longleftrightarrow> unat (db_count d) = 0" by (simp add: word_unat_eq_iff)
  have four: "x \<noteq> db_stable d \<Longrightarrow> take 4 xs = replicate 4 x \<longleftrightarrow> 4 \<le> unat (db_count d)"
    using trailing_four [of "db_stable d" xs] c(1) by (cases x) auto
  have nz: "u8_saturating_add (db_count d) 1 \<noteq> 0"
    using c1 by (metis nat.simps(3) unsigned_0)
  show "debouncer_inv initial (x # xs) (snd (Debouncer_sample x d))"
    using s c k c1 ge zero four nz
    by (cases "x = db_stable d"; cases "x = db_candidate d"; cases "4 \<le> unat (db_count d)")
      (auto simp: debouncer_inv_def Debouncer_sample_def Let_def)
  show "fst (Debouncer_sample x d) =
      (if debounced initial (x # xs) \<noteq> debounced initial xs then Some x else None)"
    using s c k ge zero four
    by (cases "x = db_stable d"; cases "x = db_candidate d"; cases "4 \<le> unat (db_count d)")
      (auto simp: Debouncer_sample_def Let_def)
qed

lemma feed_inv: "debouncer_inv initial xs (feed initial xs)"
proof (induction xs)
  case Nil
  show ?case by (simp add: debouncer_inv_def Debouncer_new_def trailing_def)
next
  case (Cons x xs)
  then show ?case using debouncer_step(1) [of initial xs "feed initial xs" x] by simp
qed

section \<open>Properties\<close>

text \<open>
  C23. The state machine only signs with consent. In every run from power-on, whatever
  the order of the events, the state \<open>Signing\<close> is reached only through a PIN
  verification, then a signature request, then a touch, with no error in between and no
  time-out or end of session between request and touch; \<open>WaitingForTouch\<close> likewise
  only through a verification and a request, \<open>Authenticated\<close> only through a
  verification.
\<close>

theorem signing_needs_pin_request_and_touch:
  "case run_events evs of
     Signing \<Rightarrow>
       (\<exists>a b c d. evs = a @ [PinVerified] @ b @ [SignRequested] @ c @ [TouchPressed] @ d \<and>
          ErrorRaised \<notin> set (b @ c @ d) \<and> SessionEnded \<notin> set c \<and> TouchTimeout \<notin> set c \<and>
          SignComplete \<notin> set d)
   | WaitingForTouch \<Rightarrow>
       (\<exists>a b c. evs = a @ [PinVerified] @ b @ [SignRequested] @ c \<and> ErrorRaised \<notin> set (b @ c) \<and>
          SessionEnded \<notin> set c \<and> TouchTimeout \<notin> set c)
   | Authenticated \<Rightarrow> (\<exists>a b. evs = a @ [PinVerified] @ b \<and> ErrorRaised \<notin> set b)
   | _ \<Rightarrow> True"
proof -
  have req: "\<exists>a b c. evs = a @ [PinVerified] @ b @ [SignRequested] @ c \<and> ErrorRaised \<notin> set (b @ c) \<and>
      SessionEnded \<notin> set c \<and> TouchTimeout \<notin> set c" if r: "requested_by evs" for evs
  proof -
    from r obtain x c where x: "evs = x @ SignRequested # c" "authenticated_by x"
      "set c \<inter> {ErrorRaised, SessionEnded, TouchTimeout} = {}" unfolding requested_by_def by blast
    from x(2) obtain a b where "x = a @ PinVerified # b" "ErrorRaised \<notin> set b"
      unfolding authenticated_by_def by blast
    with x show ?thesis by (intro exI [of _ a] exI [of _ b] exI [of _ c]) auto
  qed
  have tch: "\<exists>a b c d. evs = a @ [PinVerified] @ b @ [SignRequested] @ c @ [TouchPressed] @ d \<and>
      ErrorRaised \<notin> set (b @ c @ d) \<and> SessionEnded \<notin> set c \<and> TouchTimeout \<notin> set c \<and>
      SignComplete \<notin> set d" if t: "touched_by evs"
  proof -
    from t obtain x d where x: "evs = x @ TouchPressed # d" "requested_by x"
      "set d \<inter> {ErrorRaised, SignComplete} = {}" unfolding touched_by_def by blast
    from req [OF x(2)] obtain a b c where
      "x = a @ [PinVerified] @ b @ [SignRequested] @ c" "ErrorRaised \<notin> set (b @ c)"
      "SessionEnded \<notin> set c" "TouchTimeout \<notin> set c" by blast
    with x show ?thesis by (intro exI [of _ a] exI [of _ b] exI [of _ c] exI [of _ d]) auto
  qed
  show ?thesis
    using run_events_history [of evs] req [of evs] tch
    by (cases "run_events evs") (auto simp: authenticated_by_def)
qed

text \<open>
  C29. The debouncer implements its specification. Fed any sequence of samples (the list
  has the latest sample first), its stable level is the level of the most recent run of
  five equal samples, or the initial level when there was none; and a sample reports a
  transition exactly when it changes that level. So noise shorter than five samples is
  never reported, and each press is reported once.
\<close>

theorem debouncer_refines_spec:
  "db_stable (feed initial xs) = debounced initial xs \<and>
   fst (Debouncer_sample x (feed initial xs)) =
     (if debounced initial (x # xs) \<noteq> debounced initial xs then Some x else None)"
  using feed_inv [of initial xs] debouncer_step(2) [OF feed_inv, of x initial xs]
  by (simp add: debouncer_inv_def)

end
