(* ===== verification/Channels.thy ===== *)
theory Channels
  imports Token_Machine
begin

text \<open>
  \<^verbatim>\<open>src/crates/hsm-firmware/src/channels.rs\<close>: the statics through which the
  firmware tasks talk to each other. A bounded \<open>Channel\<close> is the list of the queued
  events, oldest first; a \<open>Signal\<close> holds the last value not yet taken by a waiter.
\<close>

definition EVENT_QUEUE_DEPTH :: nat where "EVENT_QUEUE_DEPTH = 16"

record Channels =
  EVENT_CHANNEL :: "Event list"
  TOKEN_STATE :: "TokenState option"
  TOUCH_CONFIRMED :: bool

definition Channels_new :: Channels where
  "Channels_new = \<lparr>EVENT_CHANNEL = [], TOKEN_STATE = None, TOUCH_CONFIRMED = False\<rparr>"

text \<open>\<open>Channel::try_send\<close>; the flag tells whether there was room.\<close>

definition try_send :: "Event \<Rightarrow> Channels \<Rightarrow> bool \<times> Channels" where
  "try_send event ch =
     (if length (EVENT_CHANNEL ch) < EVENT_QUEUE_DEPTH
      then (True, ch\<lparr>EVENT_CHANNEL := EVENT_CHANNEL ch @ [event]\<rparr>) else (False, ch))"

definition post_event :: "Event \<Rightarrow> Channels \<Rightarrow> Channels" where
  "post_event event ch = snd (try_send event ch)"

lemma post_event_queue:
  "EVENT_CHANNEL (post_event e ch) =
     (if length (EVENT_CHANNEL ch) < 16 then EVENT_CHANNEL ch @ [e] else EVENT_CHANNEL ch)"
  by (simp add: post_event_def try_send_def EVENT_QUEUE_DEPTH_def)

lemma post_event_signals [simp]:
  "TOKEN_STATE (post_event e ch) = TOKEN_STATE ch"
  "TOUCH_CONFIRMED (post_event e ch) = TOUCH_CONFIRMED ch"
  by (simp_all add: post_event_def try_send_def)

lemma post_event_bounded:
  "length (EVENT_CHANNEL ch) \<le> 16 \<Longrightarrow> length (EVENT_CHANNEL (post_event e ch)) \<le> 16"
  by (simp add: post_event_queue)

lemma set_post_event: "set (EVENT_CHANNEL (post_event e ch)) \<subseteq> insert e (set (EVENT_CHANNEL ch))"
  by (auto simp: post_event_queue)

lemma count_post_event:
  "count_list (EVENT_CHANNEL (post_event e ch)) x \<le>
     count_list (EVENT_CHANNEL ch) x + (if e = x then 1 else 0)"
  by (simp add: post_event_queue)

end
