(* ===== verification/Firmware_Dispatch.thy ===== *)
theory Firmware_Dispatch
  imports Service_Policy Usb_Protocol Channels
begin

text \<open>
  \<^verbatim>\<open>src/crates/hsm-firmware/src/tasks.rs\<close>: the request/response loop of the token,
  with every handler, the mapping of service errors to response statuses and the events
  it posts for the state machine.

  A handler works on the dispatch loop's share of the firmware: the crypto service it
  owns, its transmit buffer and the channels. It returns the number of bytes to send.
  \<open>handle_sign\<close> suspends in the middle until the user touches the button or the wait
  times out; it is split at that point (\<open>handle_sign_start\<close>, then
  \<open>handle_sign_timed_out\<close> or \<open>handle_sign_confirmed\<close>), and what the other tasks did to
  the channels, and the clock, in between is an argument of \<open>handle_one_request\<close>. Defmt logging is
  omitted.
\<close>

section \<open>State of the dispatch loop\<close>

definition REPORT_SIZE :: nat where "REPORT_SIZE = HID_REPORT_SIZE"

record ('h, 'c) Firmware =
  service :: "('h, 'c) CryptoService"
  tx_buf :: bytes
  channels :: Channels

type_synonym ('h, 'c) handler = "('h, 'c) Firmware \<Rightarrow> nat \<times> ('h, 'c) Firmware"

definition post :: "Event \<Rightarrow> ('h, 'c) Firmware \<Rightarrow> ('h, 'c) Firmware" where
  "post event fw = fw\<lparr>channels := post_event event (channels fw)\<rparr>"

section \<open>Writing responses\<close>

definition write_status :: "ResponseStatus \<Rightarrow> bytes \<Rightarrow> ('h, 'c) handler" where
  "write_status status data fw =
     (REPORT_SIZE,
      case Frame_write (status_as_u8 status) data (tx_buf fw) of
        Inr out \<Rightarrow> fw\<lparr>tx_buf := out\<rparr>
      | Inl _ \<Rightarrow>
          (case Frame_write (status_as_u8 StatusInvalidPayload) [] (tx_buf fw) of
             Inr out \<Rightarrow> fw\<lparr>tx_buf := out\<rparr>
           | Inl _ \<Rightarrow> fw))"

fun write_error :: "'e CryptoServiceError \<Rightarrow> ('h, 'c) handler" where
  "write_error (AteccFailure atecc_err) =
     (case kind atecc_err of
        KindChip chip_err \<Rightarrow> write_status StatusAteccChipError [as_status_byte chip_err]
      | other \<Rightarrow> write_status StatusAteccCommunicationError [as_sub_code other])"
| "write_error (InvalidFormat _) = write_status StatusInvalidPayload []"
| "write_error (PinIncorrect tries_remaining) = write_status StatusWrongPin [tries_remaining]"
| "write_error PinBlocked = write_status StatusPinBlocked []"
| "write_error (PukIncorrect tries_remaining) = write_status StatusWrongPuk [tries_remaining]"
| "write_error Bricked = write_status StatusBricked []"
| "write_error PinRequired = write_status StatusPinRequired []"
| "write_error NotProvisioned = write_status StatusNotProvisioned []"
| "write_error (EmergencyResetNotPermitted pin_tries puk_tries) =
     write_status StatusEmergencyResetNotPermitted [pin_tries, puk_tries]"
| "write_error (InvalidSlot slot) = write_status StatusInvalidSlot [slot_as_u8 slot]"

definition write_lock_error :: "'e CryptoServiceError \<Rightarrow> ('h, 'c) handler" where
  "write_lock_error e =
     (if e = AteccFailure (Chip ExecutionError) then write_status StatusLockCrcMismatch []
      else write_error e)"

text \<open>
  The shape most handlers end with: await the service, answer \<open>Ok\<close> with the encoded
  value or the mapped error.
\<close>

definition on_service :: "('h, 'e, 'c, 'a) svc \<Rightarrow>
    ('h, 'c) Firmware \<Rightarrow> ('e CryptoServiceError + 'a) \<times> ('h, 'c) Firmware" where
  "on_service m fw = (case m (service fw) of (r, s) \<Rightarrow> (r, fw\<lparr>service := s\<rparr>))"

definition answer ::
  "('h, 'e, 'c, 'a) svc \<Rightarrow> ('a \<Rightarrow> bytes) \<Rightarrow>
   ('e CryptoServiceError \<Rightarrow> ('h, 'c) handler) \<Rightarrow> ('h, 'c) handler" where
  "answer m encode on_err fw =
     (case on_service m fw of
        (Inr v, fw) \<Rightarrow> write_status StatusOk (encode v) fw
      | (Inl e, fw) \<Rightarrow> on_err e fw)"

definition with_slot :: "u8 \<Rightarrow> (Slot \<Rightarrow> ('h, 'c) handler) \<Rightarrow> ('h, 'c) handler" where
  "with_slot slot_idx k =
     (case Slot_new slot_idx of Some slot \<Rightarrow> k slot | None \<Rightarrow> write_status StatusInvalidSlot [])"

text \<open>\<open>Err(_) => InvalidPayload\<close>, and the variant that singles out a wrong magic word.\<close>

definition with_payload :: "PayloadError + 'a \<Rightarrow> ('a \<Rightarrow> ('h, 'c) handler) \<Rightarrow> ('h, 'c) handler" where
  "with_payload parsed k =
     (case parsed of Inr v \<Rightarrow> k v | Inl _ \<Rightarrow> write_status StatusInvalidPayload [])"

definition with_magic :: "PayloadError + 'a \<Rightarrow> ('a \<Rightarrow> ('h, 'c) handler) \<Rightarrow> ('h, 'c) handler" where
  "with_magic parsed k =
     (case parsed of
        Inr v \<Rightarrow> k v
      | Inl MagicMismatch \<Rightarrow> write_status StatusLockMagicMismatch []
      | Inl _ \<Rightarrow> write_status StatusInvalidPayload [])"

section \<open>Handlers\<close>

definition info_payload :: "DeviceInfo \<Rightarrow> bytes" where
  "info_payload info =
     (let data = replicate 14 0;
          data = copy_at data 0 (revision info);
          data = copy_at data 4 (info_serial info)
      in data[13 := of_bool (info_is_provisioned info)])"

definition handle_info :: "('h, 'e, 'c) Env \<Rightarrow> ('h, 'c) handler" where
  "handle_info E = answer (service_info E) info_payload write_error"

definition handle_get_pubkey :: "('h, 'e, 'c) Env \<Rightarrow> bytes \<Rightarrow> ('h, 'c) handler" where
  "handle_get_pubkey E data =
     with_payload (parse_slot_only data) (\<lambda>slot.
     with_slot slot (\<lambda>slot. answer (get_pubkey E slot) id write_error))"

definition handle_genkey :: "('h, 'e, 'c) Env \<Rightarrow> bytes \<Rightarrow> ('h, 'c) handler" where
  "handle_genkey E data =
     with_payload (parse_slot_only data) (\<lambda>slot_idx.
     with_slot slot_idx (\<lambda>slot. answer (service_genkey_create E slot) id write_error))"

definition handle_read_config_zone :: "('h, 'e, 'c) Env \<Rightarrow> bytes \<Rightarrow> ('h, 'c) handler" where
  "handle_read_config_zone E data =
     with_payload (parse_slot_only data) (\<lambda>block. answer (read_config_block E block) id write_error)"

definition handle_read_config_slot :: "('h, 'e, 'c) Env \<Rightarrow> bytes \<Rightarrow> ('h, 'c) handler" where
  "handle_read_config_slot E data =
     with_payload (parse_slot_only data) (\<lambda>slot_idx.
     with_slot slot_idx (\<lambda>slot. answer (read_config_slot E slot) id write_error))"

definition handle_write_config_zone :: "('h, 'e, 'c) Env \<Rightarrow> bytes \<Rightarrow> ('h, 'c) handler" where
  "handle_write_config_zone E data =
     with_payload (parse_write_config_zone data) (\<lambda>(block, content).
       answer (write_config_block E block content) (\<lambda>_. []) write_error)"

definition handle_provision_slot :: "('h, 'e, 'c) Env \<Rightarrow> bytes \<Rightarrow> ('h, 'c) handler" where
  "handle_provision_slot E data =
     with_payload (parse_provision_slot data) (\<lambda>(slot_idx, content).
     with_slot slot_idx (\<lambda>slot. answer (provision_slot E slot content) (\<lambda>_. []) write_error))"

definition handle_provision_initial_pin :: "('h, 'e, 'c) Env \<Rightarrow> ('h, 'c) handler" where
  "handle_provision_initial_pin E = answer (provision_initial_pin E) (\<lambda>_. []) write_error"

definition handle_provision_initial_puk :: "('h, 'e, 'c) Env \<Rightarrow> ('h, 'c) handler" where
  "handle_provision_initial_puk E = answer (provision_initial_puk E) id write_error"

definition handle_provision_io_key :: "('h, 'e, 'c) Env \<Rightarrow> ('h, 'c) handler" where
  "handle_provision_io_key E = answer (provision_initial_io_key E) id write_error"

definition handle_lock_config_zone :: "('h, 'e, 'c) Env \<Rightarrow> bytes \<Rightarrow> ('h, 'c) handler" where
  "handle_lock_config_zone E data =
     with_magic (parse_lock_config_zone data) (\<lambda>expected_crc.
       answer (service_lock_config_zone E expected_crc) (\<lambda>_. []) write_lock_error)"

definition handle_lock_data_zone :: "('h, 'e, 'c) Env \<Rightarrow> bytes \<Rightarrow> ('h, 'c) handler" where
  "handle_lock_data_zone E data =
     with_magic (parse_lock_data_zone data) (\<lambda>_.
       answer (service_lock_data_zone E) (\<lambda>_. []) write_lock_error)"

definition handle_lock_slot :: "('h, 'e, 'c) Env \<Rightarrow> bytes \<Rightarrow> ('h, 'c) handler" where
  "handle_lock_slot E data =
     with_magic (parse_lock_slot data) (\<lambda>slot_idx.
     with_slot slot_idx (\<lambda>slot. answer (service_lock_slot E slot) (\<lambda>_. []) write_lock_error))"

definition handle_verify_pin :: "('h, 'e, 'c) Env \<Rightarrow> bytes \<Rightarrow> ('h, 'c) handler" where
  "handle_verify_pin E data =
     with_payload (parse_verify_pin data) (\<lambda>pin fw.
       case on_service (verify_pin E pin) fw of
         (Inr _, fw) \<Rightarrow> write_status StatusOk [] (post PinVerified fw)
       | (Inl e, fw) \<Rightarrow> write_error e fw)"

definition handle_set_pin :: "('h, 'e, 'c) Env \<Rightarrow> bytes \<Rightarrow> ('h, 'c) handler" where
  "handle_set_pin E data =
     with_payload (parse_set_pin data) (\<lambda>(old, new, io_key).
       answer (set_pin E old new io_key) (\<lambda>_. []) write_error)"

definition handle_unblock_pin :: "('h, 'e, 'c) Env \<Rightarrow> bytes \<Rightarrow> ('h, 'c) handler" where
  "handle_unblock_pin E data =
     with_payload (parse_unblock_pin data) (\<lambda>(puk, new_pin, io_key).
       answer (unblock_pin E puk new_pin io_key) (\<lambda>_. []) write_error)"

definition handle_set_puk :: "('h, 'e, 'c) Env \<Rightarrow> bytes \<Rightarrow> ('h, 'c) handler" where
  "handle_set_puk E data =
     with_payload (parse_set_puk data) (\<lambda>(old, new, io_key).
       answer (set_puk E old new io_key) (\<lambda>_. []) write_error)"

definition handle_emergency_reset :: "('h, 'e, 'c) Env \<Rightarrow> bytes \<Rightarrow> ('h, 'c) handler" where
  "handle_emergency_reset E data =
     with_magic (parse_emergency_reset data) (\<lambda>io_key.
       answer (emergency_reset E io_key) id write_error)"

definition handle_close_session :: "('h, 'c) handler" where
  "handle_close_session fw =
     write_status StatusOk [] (fw\<lparr>service := close_session (service fw)\<rparr>)"

definition handle_read_slot_block :: "('h, 'e, 'c) Env \<Rightarrow> bytes \<Rightarrow> ('h, 'c) handler" where
  "handle_read_slot_block E data =
     with_payload (parse_read_slot_block data) (\<lambda>(slot_idx, block).
     with_slot slot_idx (\<lambda>slot. answer (service_read_slot_block E slot block) id write_error))"

definition handle_read_slot_word :: "('h, 'e, 'c) Env \<Rightarrow> bytes \<Rightarrow> ('h, 'c) handler" where
  "handle_read_slot_word E data =
     with_payload (parse_read_slot_word data) (\<lambda>(slot_idx, block, offset).
     with_slot slot_idx (\<lambda>slot.
       answer (service_read_slot_word E slot block offset) id write_error))"

definition pin_status_payload :: "PinStatus \<Rightarrow> bytes" where
  "pin_status_payload st =
     [pin_tries_remaining st, puk_tries_remaining st, of_bool (session_active st)]"

definition handle_get_pin_status :: "('h, 'e, 'c) Env \<Rightarrow> ('h, 'c) handler" where
  "handle_get_pin_status E = answer (get_pin_status E) pin_status_payload write_error"

definition handle_read_counter :: "('h, 'e, 'c) Env \<Rightarrow> bytes \<Rightarrow> ('h, 'c) handler" where
  "handle_read_counter E data =
     with_payload (parse_slot_only data) (\<lambda>counter_byte.
       if counter_byte = 0 then answer (read_counter E Counter0) u32_to_le_bytes write_error
       else if counter_byte = 1 then answer (read_counter E Counter1) u32_to_le_bytes write_error
       else write_status StatusInvalidPayload [])"

subsection \<open>Signing\<close>

datatype Progress = Responded nat | AwaitTouch Slot bytes

definition responding :: "('h, 'c) handler \<Rightarrow> ('h, 'c) Firmware \<Rightarrow> Progress \<times> ('h, 'c) Firmware" where
  "responding h fw = (case h fw of (n, fw) \<Rightarrow> (Responded n, fw))"

definition handle_sign_start ::
  "('h, 'e, 'c) Env \<Rightarrow> bytes \<Rightarrow> ('h, 'c) Firmware \<Rightarrow> Progress \<times> ('h, 'c) Firmware" where
  "handle_sign_start E data fw =
     (case parse_sign data of
        Inl _ \<Rightarrow> responding (write_status StatusInvalidPayload []) fw
      | Inr (slot_idx, digest) \<Rightarrow>
     (case Slot_new slot_idx of
        None \<Rightarrow> responding (write_status StatusInvalidSlot []) fw
      | Some slot \<Rightarrow>
          if \<not> is_session_active E (service fw)
          then responding (write_status StatusPinRequired []) fw
          else
            let fw = fw\<lparr>channels := (channels fw)\<lparr>TOUCH_CONFIRMED := False\<rparr>\<rparr>;
                fw = post SignRequested fw
            in (AwaitTouch slot digest, fw)))"

definition handle_sign_timed_out :: "('h, 'c) handler" where
  "handle_sign_timed_out fw = write_status StatusTouchTimeout [] (post TouchTimeout fw)"

definition handle_sign_confirmed :: "('h, 'e, 'c) Env \<Rightarrow> Slot \<Rightarrow> bytes \<Rightarrow> ('h, 'c) handler" where
  "handle_sign_confirmed E slot digest fw =
     (case on_service (service_sign E slot digest) fw of (result, fw) \<Rightarrow>
      let fw = post SignComplete fw in
      case result of
        Inr sig \<Rightarrow> write_status StatusOk sig fw
      | Inl e \<Rightarrow> write_error e (post ErrorRaised fw))"

section \<open>The dispatcher\<close>

fun dispatch ::
  "('h, 'e, 'c) Env \<Rightarrow> CommandOpcode \<Rightarrow> bytes \<Rightarrow> ('h, 'c) Firmware \<Rightarrow> Progress \<times> ('h, 'c) Firmware" where
  "dispatch E CmdInfo data = responding (handle_info E)"
| "dispatch E CmdGetPubkey data = responding (handle_get_pubkey E data)"
| "dispatch E CmdSign data = handle_sign_start E data"
| "dispatch E CmdGenKey data = responding (handle_genkey E data)"
| "dispatch E CmdReadConfigZone data = responding (handle_read_config_zone E data)"
| "dispatch E CmdVerifyPin data = responding (handle_verify_pin E data)"
| "dispatch E CmdSetPin data = responding (handle_set_pin E data)"
| "dispatch E CmdUnblockPin data = responding (handle_unblock_pin E data)"
| "dispatch E CmdGetPinStatus data = responding (handle_get_pin_status E)"
| "dispatch E CmdSetPuk data = responding (handle_set_puk E data)"
| "dispatch E CmdCloseSession data = responding handle_close_session"
| "dispatch E CmdEmergencyReset data = responding (handle_emergency_reset E data)"
| "dispatch E CmdReadSlotBlock data = responding (handle_read_slot_block E data)"
| "dispatch E CmdReadSlotWord data = responding (handle_read_slot_word E data)"
| "dispatch E CmdReadConfigSlot data = responding (handle_read_config_slot E data)"
| "dispatch E CmdWriteConfigZone data = responding (handle_write_config_zone E data)"
| "dispatch E CmdProvisionSlot data = responding (handle_provision_slot E data)"
| "dispatch E CmdProvisionInitialPin data = responding (handle_provision_initial_pin E)"
| "dispatch E CmdProvisionInitialPuk data = responding (handle_provision_initial_puk E)"
| "dispatch E CmdProvisionIoKey data = responding (handle_provision_io_key E)"
| "dispatch E CmdReadCounter data = responding (handle_read_counter E data)"
| "dispatch E CmdLockConfigZone data = responding (handle_lock_config_zone E data)"
| "dispatch E CmdLockDataZone data = responding (handle_lock_data_zone E data)"
| "dispatch E CmdLockSlot data = responding (handle_lock_slot E data)"

definition begin_request ::
  "('h, 'e, 'c) Env \<Rightarrow> bytes \<Rightarrow> ('h, 'c) Firmware \<Rightarrow> Progress \<times> ('h, 'c) Firmware" where
  "begin_request E rx_buf =
     (case Frame_parse rx_buf of
        Inl _ \<Rightarrow> responding (write_status StatusInvalidPayload [])
      | Inr frame \<Rightarrow>
     (case opcode_from_byte (opcode frame) of
        None \<Rightarrow> responding (write_status StatusInvalidCommand [])
      | Some op_code \<Rightarrow> dispatch E op_code (payload frame)))"

text \<open>
  \<open>touch\<close> is the outcome of the wait: whether the confirmation won the race against the
  time-out, the channels as the other tasks left them, and the clock at that moment. The
  other tasks have no access to the rest of the service.
\<close>

definition handle_one_request ::
  "('h, 'e, 'c) Env \<Rightarrow> (Channels \<Rightarrow> 'c \<Rightarrow> bool \<times> Channels \<times> 'c) \<Rightarrow> bytes \<Rightarrow> ('h, 'c) handler" where
  "handle_one_request E touch rx_buf fw =
     (case begin_request E rx_buf fw of
        (Responded n, fw) \<Rightarrow> (n, fw)
      | (AwaitTouch slot digest, fw) \<Rightarrow>
          (case touch (channels fw) (clock (service fw)) of (confirmed, ch, c) \<Rightarrow>
           let fw = fw\<lparr>service := (service fw)\<lparr>clock := c\<rparr>, channels := ch\<rparr> in
           if confirmed then handle_sign_confirmed E slot digest fw else handle_sign_timed_out fw))"

text \<open>
  One turn of \<open>dispatch_loop\<close>. \<open>rx\<close> is what the HID reader delivered: nothing on an
  error, else the number of bytes and the buffer. The result is what is handed to the HID
  writer.
\<close>

definition dispatch_turn ::
  "('h, 'e, 'c) Env \<Rightarrow> (Channels \<Rightarrow> 'c \<Rightarrow> bool \<times> Channels \<times> 'c) \<Rightarrow> (nat \<times> bytes) option \<Rightarrow>
   ('h, 'c) Firmware \<Rightarrow> bytes option \<times> ('h, 'c) Firmware" where
  "dispatch_turn E touch rx fw =
     (case rx of
        None \<Rightarrow> (None, fw)
      | Some (n, rx_buf) \<Rightarrow>
          if n \<noteq> REPORT_SIZE then (None, fw)
          else case handle_one_request E touch rx_buf fw of
            (response_len, fw) \<Rightarrow> (Some (take response_len (tx_buf fw)), fw))"

end
