(* ===== verification/Firmware_Tasks.thy ===== *)
theory Firmware_Tasks
  imports Firmware_Dispatch
begin

text \<open>
  The remaining tasks of \<^verbatim>\<open>src/crates/hsm-firmware/src\<close>: the state task
  (\<^verbatim>\<open>state.rs\<close>), the touch task (\<^verbatim>\<open>touch.rs\<close>) and the animation task
  (\<^verbatim>\<open>animation.rs\<close>), and the interleaving of all four as a step relation.

  An \<open>Instant\<close> is the time since boot and a \<open>Duration\<close> a length of time, both in
  milliseconds; the sources only add and compare them. One turn of a task is the code
  between two of its \<open>await\<close>s: the executor is cooperative, so a turn is atomic. The
  outcome of a \<open>select\<close> whose branches are both ready is that of the first branch.
\<close>

type_synonym instant = nat

definition from_millis :: "u64 \<Rightarrow> nat" where "from_millis ms = unat ms"
definition from_secs :: "nat \<Rightarrow> nat" where "from_secs s = 1000 * s"

section \<open>The state task (state.rs)\<close>

record StateTask =
  sm_state :: TokenState
  session_deadline :: "instant option"
  error_deadline :: "instant option"

definition earliest :: "instant \<Rightarrow> instant option \<Rightarrow> instant option \<Rightarrow> instant" where
  "earliest now a b =
     (case (a, b) of
        (Some x, Some y) \<Rightarrow> if x < y then x else y
      | (Some x, None) \<Rightarrow> x
      | (None, Some y) \<Rightarrow> y
      | (None, None) \<Rightarrow> now + from_secs 3600)"

definition derive_timer_event ::
  "instant \<Rightarrow> instant option \<Rightarrow> instant option \<Rightarrow> Event \<times> instant option \<times> instant option" where
  "derive_timer_event now session_dl error_dl =
     (if (case session_dl of Some d \<Rightarrow> d \<le> now | None \<Rightarrow> False) then (SessionEnded, None, error_dl)
      else if (case error_dl of Some d \<Rightarrow> d \<le> now | None \<Rightarrow> False)
      then (ErrorDisplayElapsed, session_dl, None)
      else (SessionEnded, session_dl, error_dl))"

definition user_active_state :: "TokenState \<Rightarrow> bool" where
  "user_active_state st \<longleftrightarrow> st = Authenticated \<or> st = WaitingForTouch \<or> st = Signing"

definition update_timers ::
  "instant \<Rightarrow> TokenState \<Rightarrow> Event \<Rightarrow> instant option \<Rightarrow> instant option \<Rightarrow>
   instant option \<times> instant option" where
  "update_timers now st last_event session_dl error_dl =
     (let refresh = last_event \<in> {PinVerified, SignComplete, SignRequested, TouchPressed} in
      (if user_active_state st then
         (if refresh \<or> session_dl = None then Some (now + from_millis SESSION_TIMEOUT_MS) else session_dl)
       else None,
       if st = Error then
         (if error_dl = None then Some (now + from_millis ERROR_DISPLAY_MS) else error_dl)
       else None))"

text \<open>The body of the loop after the \<open>select\<close>.\<close>

definition apply_event ::
  "instant \<Rightarrow> Event \<Rightarrow> StateTask \<Rightarrow> Channels \<Rightarrow> StateTask \<times> Channels" where
  "apply_event now next_event t ch =
     (let next = on_event (sm_state t) next_event;
          ch = (if next \<noteq> sm_state t then
                  let ch = ch\<lparr>TOKEN_STATE := Some next\<rparr>
                  in if next = Signing then ch\<lparr>TOUCH_CONFIRMED := True\<rparr> else ch
                else ch);
          (session_dl, error_dl) =
            update_timers now next next_event (session_deadline t) (error_deadline t)
      in (\<lparr>sm_state = next, session_deadline = session_dl, error_deadline = error_dl\<rparr>, ch))"

text \<open>
  One turn: \<open>entered\<close> is the time at which the loop computed its deadline, \<open>now\<close> the time
  at which it is polled. \<open>None\<close> means that it keeps waiting.
\<close>

definition state_task_turn ::
  "instant \<Rightarrow> instant \<Rightarrow> StateTask \<Rightarrow> Channels \<Rightarrow> (StateTask \<times> Channels) option" where
  "state_task_turn entered now t ch =
     (case EVENT_CHANNEL ch of
        event # rest \<Rightarrow> Some (apply_event now event t (ch\<lparr>EVENT_CHANNEL := rest\<rparr>))
      | [] \<Rightarrow>
          if earliest entered (session_deadline t) (error_deadline t) \<le> now then
            case derive_timer_event now (session_deadline t) (error_deadline t) of
              (event, session_dl, error_dl) \<Rightarrow>
                Some (apply_event now event
                  (t\<lparr>session_deadline := session_dl, error_deadline := error_dl\<rparr>) ch)
          else None)"

definition state_task_start :: "Channels \<Rightarrow> StateTask \<times> Channels" where
  "state_task_start ch =
     (\<lparr>sm_state = TokenState_initial, session_deadline = None, error_deadline = None\<rparr>,
      ch\<lparr>TOKEN_STATE := Some TokenState_initial\<rparr>)"

section \<open>The touch task (touch.rs)\<close>

definition sample_once :: "bool \<Rightarrow> Debouncer \<Rightarrow> Channels \<Rightarrow> Debouncer \<times> Channels" where
  "sample_once pressed debouncer ch =
     (case Debouncer_sample pressed debouncer of
        (Some new_stable, d) \<Rightarrow> (d, if new_stable then post_event TouchPressed ch else ch)
      | (None, d) \<Rightarrow> (d, ch))"

section \<open>The animation task (animation.rs)\<close>

record Animation =
  an_state :: TokenState
  tick_high :: bool
  leds :: "bool \<times> bool"

text \<open>Draw the current pattern; the result is the time to sleep.\<close>

definition animation_draw :: "Animation \<Rightarrow> nat \<times> Animation" where
  "animation_draw a =
     (case apply_pattern (led_pattern (an_state a)) (tick_high a) of (levels, interval) \<Rightarrow>
        (interval, a\<lparr>leds := levels, tick_high := \<not> tick_high a\<rparr>))"

text \<open>
  One turn of the loop: the tick elapsed, or a state was published; then draw. Before the
  first publication the task has not started.
\<close>

definition animation_turn ::
  "bool \<Rightarrow> Animation option \<Rightarrow> Channels \<Rightarrow> (Animation option \<times> Channels) option" where
  "animation_turn tick_elapsed anim ch =
     (case anim of
        None \<Rightarrow>
          (case TOKEN_STATE ch of
             None \<Rightarrow> None
           | Some st \<Rightarrow>
               Some (Some (snd (animation_draw \<lparr>an_state = st, tick_high = False, leds = (False, False)\<rparr>)),
                     ch\<lparr>TOKEN_STATE := None\<rparr>))
      | Some a \<Rightarrow>
          if tick_elapsed then Some (Some (snd (animation_draw a)), ch)
          else (case TOKEN_STATE ch of
             None \<Rightarrow> None
           | Some new_state \<Rightarrow>
               Some (Some (snd (animation_draw (a\<lparr>an_state := new_state, tick_high := False\<rparr>))),
                     ch\<lparr>TOKEN_STATE := None\<rparr>)))"

section \<open>Lemmas on the state task\<close>

definition timers_wf :: "StateTask \<Rightarrow> bool" where
  "timers_wf t \<longleftrightarrow>
     (session_deadline t \<noteq> None \<longleftrightarrow> user_active_state (sm_state t)) \<and>
     (error_deadline t \<noteq> None \<longleftrightarrow> sm_state t = Error)"

lemma apply_event_wf: "timers_wf (fst (apply_event now e t ch))"
  by (auto simp: apply_event_def update_timers_def timers_wf_def Let_def user_active_state_def)

lemma apply_event_sel [simp]:
  "sm_state (fst (apply_event now e t ch)) = on_event (sm_state t) e"
  "EVENT_CHANNEL (snd (apply_event now e t ch)) = EVENT_CHANNEL ch"
  by (auto simp: apply_event_def Let_def split: prod.split)

lemma apply_event_signal:
  "TOUCH_CONFIRMED (snd (apply_event now e t ch)) \<longleftrightarrow>
     TOUCH_CONFIRMED ch \<or> sm_state t \<noteq> Signing \<and> on_event (sm_state t) e = Signing"
  by (auto simp: apply_event_def Let_def split: prod.split)

lemma apply_event_published:
  "TOKEN_STATE (snd (apply_event now e t ch)) =
     (if on_event (sm_state t) e \<noteq> sm_state t then Some (on_event (sm_state t) e) else TOKEN_STATE ch)"
  by (auto simp: apply_event_def Let_def split: prod.split)

lemma enters_signing:
  "st \<noteq> Signing \<Longrightarrow> on_event st e = Signing \<longleftrightarrow> st = WaitingForTouch \<and> e = TouchPressed"
  by (cases st; cases e) auto

lemma stays_signing: "e \<noteq> SignComplete \<Longrightarrow> e \<noteq> ErrorRaised \<Longrightarrow> on_event Signing e = Signing"
  by (cases e) auto

text \<open>The event a turn applies, and the rest of the queue.\<close>

lemma state_task_turn_cases:
  assumes "state_task_turn entered now t ch = Some (t', ch')"
  obtains
    (event) e rest where "EVENT_CHANNEL ch = e # rest"
      and "(t', ch') = apply_event now e t (ch\<lparr>EVENT_CHANNEL := rest\<rparr>)"
  | (timer) e t0 where "EVENT_CHANNEL ch = []" and "e = SessionEnded \<or> e = ErrorDisplayElapsed"
      and "sm_state t0 = sm_state t" and "(t', ch') = apply_event now e t0 ch"
proof (cases "EVENT_CHANNEL ch")
  case (Cons e rest)
  with assms event show thesis by (simp add: state_task_turn_def)
next
  case Nil
  obtain e a b where d: "derive_timer_event now (session_deadline t) (error_deadline t) = (e, a, b)"
    by (cases "derive_timer_event now (session_deadline t) (error_deadline t)")
  then have e: "e = SessionEnded \<or> e = ErrorDisplayElapsed"
    by (auto simp: derive_timer_event_def split: if_splits)
  from assms Nil d have "(t', ch') = apply_event now e (t\<lparr>session_deadline := a, error_deadline := b\<rparr>) ch"
    by (auto simp: state_task_turn_def split: if_splits)
  with Nil e timer [of e "t\<lparr>session_deadline := a, error_deadline := b\<rparr>"] show thesis by simp
qed

lemma timer_event_due:
  assumes "timers_wf t" and "earliest entered (session_deadline t) (error_deadline t) \<le> now"
    and "derive_timer_event now (session_deadline t) (error_deadline t) = (e, a, b)"
  shows "on_event (sm_state t) e =
    (if user_active_state (sm_state t) \<and> sm_state t \<noteq> Signing \<or> sm_state t = Error then Idle else sm_state t)"
  using assms
  by (cases "sm_state t")
    (auto simp: timers_wf_def user_active_state_def earliest_def derive_timer_event_def
      split: option.splits if_splits)

end
