(* ===== verification/Chip_Observer.thy ===== *)
theory Chip_Observer
  imports Crypto_Service
begin

text \<open>
  What the driver does to a quantity behind the bus. The locale \<open>chip_observer\<close> is the
  interface between the driver and the contracts of the chip: an observation that only
  some packets can change is left alone by every command that sends another packet.
\<close>

locale chip_observer =
  fixes H :: "('h, 'e) AteccHal" and obs :: "'h \<Rightarrow> 'v" and touches :: "bytes \<Rightarrow> bool"
  assumes quiet: "obs (snd (i2c_read H addr n h)) = obs h" "obs (snd (pulse_sda_low H us h)) = obs h"
      "obs (delay_us H us h) = obs h" "obs (delay_ms H ms h) = obs h"
    and other_packets: "\<not> touches wire \<Longrightarrow> obs (snd (i2c_write H addr wire h)) = obs h"
    and tokens: "\<not> touches [b]"
begin

abbreviation chan_obs :: "'h Atecc \<Rightarrow> 'v" where
  "chan_obs s \<equiv> obs (hal s)"

abbreviation svc_obs :: "('h, 'c) CryptoService \<Rightarrow> 'v" where
  "svc_obs s \<equiv> obs (hal (atecc s))"

lemma keeps_bus:
  "keeps obs (i2c_read H addr n)" "keeps obs (pulse_sda_low H us)"
  "keeps obs (modify (delay_us H us))" "keeps obs (modify (delay_ms H ms))"
  "keeps obs (read_exact H addr n)"
proof -
  show k: "keeps obs (i2c_read H addr n)" "keeps obs (pulse_sda_low H us)"
    "keeps obs (modify (delay_us H us))" "keeps obs (modify (delay_ms H ms))"
    using quiet by (auto intro: keepsI simp: modify_def)
  from k(1) show "keeps obs (read_exact H addr n)"
    unfolding read_exact_def by (intro keeps_and_then keeps_map_err keeps_ok)
qed

lemma keeps_poll_loop: "keeps obs (poll_loop H addr m buf elapsed)"
  by (rule keepsI, rule poll_loop_invariant [where I = "\<lambda>h'. obs h' = obs h" for h]) (simp_all add: quiet)

lemma keeps_on_hal: "(\<And>addr. keeps obs (m addr)) \<Longrightarrow> keeps chan_obs (on_hal m)"
  by (auto simp: keeps_def on_hal_def split: prod.split) (metis snd_conv)

lemma keeps_channel: "keeps chan_obs (open_channel H)" "keeps chan_obs (close H)"
proof -
  have "keeps obs (i2c_write H addr [b])" for addr b by (intro keepsI other_packets tokens)
  then show "keeps chan_obs (open_channel H)" "keeps chan_obs (close H)"
    by (auto simp: open_channel_def close_def wake_def idle_def
        intro!: keeps_on_hal keeps_and_then keeps_map_err keeps_if keeps_bus)
qed

text \<open>What comes after the packet of a command leaves the observation alone in any case.\<close>

lemma keeps_awaiting: "keeps chan_obs (and_then (on_hal (\<lambda>_. modify (delay_ms H ms))) (\<lambda>_. poll_for_response H buf))"
  unfolding poll_for_response_def by (intro keeps_and_then keeps_on_hal keeps_bus keeps_poll_loop)

lemma keeps_run_command:
  assumes "\<not> touches (WORD_ADDRESS_COMMAND # command_frame op p1 p2 data)"
  shows "keeps chan_obs (run_command H op p1 p2 data ms buf)"
proof (cases "length data \<le> 155")
  case True
  have "keeps obs (i2c_write H addr (WORD_ADDRESS_COMMAND # command_frame op p1 p2 data))" for addr
    using assms by (intro keepsI other_packets)
  then show ?thesis unfolding run_command_ok [OF True]
    by (intro keeps_and_then [OF _ keeps_awaiting] keeps_on_hal keeps_map_err)
next
  case False
  then show ?thesis by (intro keepsI) (simp add: run_command_too_long)
qed

lemma keeps_execute:
  assumes "\<not> touches (WORD_ADDRESS_COMMAND # command_frame op p1 p2 data)"
  shows "keeps chan_obs (execute_command H op p1 p2 data ms buf)"
    and "keeps chan_obs (execute_command_status H op p1 p2 data ms)"
  unfolding execute_command_def execute_command_status_def
  by (intro keeps_and_then keeps_run_command [OF assms] keeps_case_prod keeps_case_ResponseFrame
      keeps_case_option keeps_if keeps_map_err keeps_of_result keeps_ok keeps_err)+

lemma keeps_svc_on_atecc: "keeps chan_obs m \<Longrightarrow> keeps svc_obs (on_atecc m)"
  by (auto simp: keeps_def on_atecc_def split: prod.split) (metis snd_conv)

lemma keeps_svc_in_channel:
  assumes "keeps chan_obs m" and "env_hal E = H"
  shows "keeps svc_obs (in_channel E m)" "keeps svc_obs (in_channel_always_closed E m)"
  unfolding in_channel_def in_channel_always_closed_def assms(2)
  by (intro keeps_svc_on_atecc keeps_and_then keeps_channel keeps_attempt keeps_ok keeps_of_result assms(1))+

end

text \<open>The loops over commands, for any observation that their commands leave alone.\<close>

lemma keeps_command_loops:
  "(\<And>a. keeps p (read_32 H ZoneConfig a)) \<Longrightarrow> keeps p (read_config_blocks H bs out)"
  "(\<And>a d. keeps p (write_4 H ZoneConfig a d)) \<Longrightarrow> keeps p (write_words H b data ws)"
  "(\<And>i. keeps p (genkey_create H (Slot i))) \<Longrightarrow> keeps p (regenerate_keys H slots)"
  "keeps p (counter_increment H c) \<Longrightarrow> keeps p (close H) \<Longrightarrow> keeps p (bump_counter H c n)"
proof -
  assume "\<And>a. keeps p (read_32 H ZoneConfig a)"
  then show "keeps p (read_config_blocks H bs out)" by (induction bs arbitrary: out) auto
next
  assume "\<And>a d. keeps p (write_4 H ZoneConfig a d)"
  then show "keeps p (write_words H b data ws)" by (induction ws) (auto simp: Let_def)
next
  assume "\<And>i. keeps p (genkey_create H (Slot i))"
  then show "keeps p (regenerate_keys H slots)" by (induction slots) auto
next
  assume "keeps p (counter_increment H c)" "keeps p (close H)"
  then show "keeps p (bump_counter H c n)" by (induction n) (auto intro!: keeps_intros)
qed

end
