(* ===== verification/Soft_Chip.thy ===== *)
theory Soft_Chip
  imports Crypto_Service
begin

text \<open>
  A simulated secure element, on which the contracts of the chip are shown to hold. It
  answers every packet at once, has the two counters with their limit, the slots of the data
  zone, TempKey and a serial number, and computes the digests of GenDig, CheckMac and the
  encrypted write as the comments of \<^verbatim>\<open>pin.rs\<close> and \<^verbatim>\<open>encrypted_write.rs\<close> document them.
\<close>

unbundle bit_operations_syntax

section \<open>The digests the chip computes\<close>

definition chip_tail :: "bytes \<Rightarrow> bytes" where
  "chip_tail sn = [sn ! 8, sn ! 0, sn ! 1] @ replicate 25 0"

definition chip_gendig :: "hash \<Rightarrow> bytes \<Rightarrow> bytes \<Rightarrow> u16 \<Rightarrow> bytes \<Rightarrow> bytes" where
  "chip_gendig sha sn v key_id temp = sha (v @ [0x15, 0x02] @ u16_to_le_bytes key_id @ chip_tail sn @ temp)"

definition chip_write_mac :: "hash \<Rightarrow> bytes \<Rightarrow> bytes \<Rightarrow> u16 \<Rightarrow> bytes \<Rightarrow> bytes" where
  "chip_write_mac sha sn temp address plain = sha (temp @ [0x12, 0xC2] @ u16_to_le_bytes address @ chip_tail sn @ plain)"

definition chip_checkmac :: "hash \<Rightarrow> bytes \<Rightarrow> bytes \<Rightarrow> bytes \<Rightarrow> bytes \<Rightarrow> bytes" where
  "chip_checkmac sha sn v challenge od =
     sha (v @ challenge @ take 4 od @ replicate 8 0 @ slice od 4 7 @ [sn ! 8] @ slice od 7 11 @ [sn ! 0, sn ! 1] @ slice od 11 13)"

definition xor_bytes :: "bytes \<Rightarrow> bytes \<Rightarrow> bytes" where
  "xor_bytes a b = map (\<lambda>(x, y). x XOR y) (zip a b)"

text \<open>The host computes the same digests.\<close>

lemma slice_serial:
  assumes "length sn = 9"
  shows "slice sn 8 9 = [sn ! 8]" "slice sn 0 2 = [sn ! 0, sn ! 1]"
  using slice_nth_1 [of 8 sn] slice_nth_2 [of 0 sn] assms by (simp_all add: numeral_2_eq_2)

lemma host_digests:
  assumes "length sn = 9"
  shows "derive_session_key sha v nonce k sn = chip_gendig sha sn v (ucast k) nonce"
    and "write_mac sha key plain slot 0 sn = chip_write_mac sha sn key (data_address slot 0 0) plain"
    and "checkmac_response sha v ch od sn = chip_checkmac sha sn v ch od"
proof -
  have "ucast (drop_bit 8 (ucast k :: u16)) = (0 :: u8)" "ucast (ucast k :: u16) = k"
    by (rule bit_word_eqI, auto simp: bit_simps dest: bit_imp_le_length)+
  then have k: "u16_to_le_bytes (ucast k) = [k, 0]" by (simp add: u16_to_le_bytes_def)
  show "derive_session_key sha v nonce k sn = chip_gendig sha sn v (ucast k) nonce"
    by (simp add: derive_session_key_def chip_gendig_def chip_tail_def ZONE_DATA_def opcode_defs k slice_serial [OF assms])
  have a: "u16_to_le_bytes x = [ucast (x AND 0xFF), ucast (drop_bit 8 x)]" for x :: u16
  proof -
    have "x AND 0xFF = take_bit 8 x" by (simp add: take_bit_eq_mask mask_eq_exp_minus_1)
    then have "ucast (x AND 0xFF) = (ucast x :: u8)" by simp (rule bit_word_eqI, simp add: bit_simps)
    then show ?thesis by (simp add: u16_to_le_bytes_def)
  qed
  have p: "ZONE_DATA OR 0x80 OR 0x40 = 0xC2" by (simp add: ZONE_DATA_def)
  show "write_mac sha key plain slot 0 sn = chip_write_mac sha sn key (data_address slot 0 0) plain"
    unfolding write_mac_def chip_write_mac_def chip_tail_def p a slice_serial [OF assms] Let_def
    by (simp add: opcode_defs)
  show "checkmac_response sha v ch od sn = chip_checkmac sha sn v ch od"
    by (simp add: checkmac_response_def checkmac_message_def chip_checkmac_def slice_serial [OF assms]) (simp add: slice_def)
qed

lemma xor_bytes_encrypt: "xor_bytes a b = encrypt_payload a b"
  by (simp add: xor_bytes_def encrypt_payload_def)

section \<open>The chip\<close>

record soft_chip =
  counts :: "CounterId \<Rightarrow> u32"
  store :: "Slot \<Rightarrow> bytes"
  temp_key :: bytes
  pending :: bytes

definition soft_serial :: bytes where
  "soft_serial = [0x01, 0x23, 0x4A, 0x5B, 0x6C, 0x7D, 0x8E, 0x9F, 0xEE]"

definition COUNTER_LIMIT :: u32 where "COUNTER_LIMIT = 2097151"

text \<open>The counter that CheckMac on a slot advances, and the counter a packet names.\<close>

definition bound_counter :: "u16 \<Rightarrow> CounterId option" where
  "bound_counter p2 = (if p2 = 5 then Some Counter0 else if p2 = 6 then Some Counter1 else None)"

definition named_counter :: "u16 \<Rightarrow> CounterId option" where
  "named_counter p2 = (if p2 = 0 then Some Counter0 else if p2 = 1 then Some Counter1 else None)"

definition advance :: "CounterId \<Rightarrow> (u32 \<Rightarrow> bytes) \<Rightarrow> soft_chip \<Rightarrow> bytes \<times> soft_chip" where
  "advance c reply s =
     (if counts s c < COUNTER_LIMIT
      then (reply (counts s c + 1), s\<lparr>counts := (counts s)(c := counts s c + 1)\<rparr>)
      else ([0x0F], s))"

definition soft_checkmac :: "hash \<Rightarrow> u16 \<Rightarrow> bytes \<Rightarrow> soft_chip \<Rightarrow> bytes \<times> soft_chip" where
  "soft_checkmac sha p2 data s =
     (if length data \<noteq> 77 then ([0x03], s)
      else if slice data 32 64 =
        chip_checkmac sha soft_serial (store s (Slot (ucast p2))) (take 32 data) (drop 64 data) then ([0x00], s)
      else case bound_counter p2 of None \<Rightarrow> ([0x01], s) | Some c \<Rightarrow> advance c (\<lambda>_. [0x01]) s)"

text \<open>A write to the data zone in the clear, or encrypted under TempKey with a MAC.\<close>

definition soft_data_write :: "hash \<Rightarrow> u8 \<Rightarrow> u16 \<Rightarrow> bytes \<Rightarrow> soft_chip \<Rightarrow> bytes \<times> soft_chip" where
  "soft_data_write sha p1 p2 data s =
     (let slot = Slot (ucast (drop_bit 3 p2)); plain = xor_bytes (take 32 data) (temp_key s) in
      if p1 = 0x82 \<and> length data = 32 then ([0x00], s\<lparr>store := (store s)(slot := data)\<rparr>)
      else if p1 = 0xC2 \<and> length data = 64
      then (if drop 32 data = chip_write_mac sha soft_serial (temp_key s) p2 plain
            then ([0x00], s\<lparr>store := (store s)(slot := plain)\<rparr>) else ([0x0F], s))
      else ([0x03], s))"

text \<open>The configuration zone, with the two lock bytes of a chip that is not locked yet.\<close>

definition soft_read :: "u8 \<Rightarrow> u16 \<Rightarrow> bytes" where
  "soft_read p1 p2 =
     (if p1 = 0x80 \<and> p2 = 0
      then take 4 soft_serial @ [0x00, 0x00, 0x60, 0x03] @ drop 4 soft_serial @ replicate 19 0
      else if p1 AND 0x80 \<noteq> 0 then replicate 32 0x55 else replicate 4 0)"

definition soft_exec :: "hash \<Rightarrow> u8 \<Rightarrow> u8 \<Rightarrow> u16 \<Rightarrow> bytes \<Rightarrow> soft_chip \<Rightarrow> bytes \<times> soft_chip" where
  "soft_exec sha op p1 p2 data s =
     (if op = OP_INFO then ([0x00, 0x00, 0x60, 0x03], s)
      else if op = OP_RANDOM then (replicate 32 7, s)
      else if op = OP_READ then (soft_read p1 p2, s)
      else if op = OP_COUNTER then
        (case named_counter p2 of
           None \<Rightarrow> ([0x03], s)
         | Some c \<Rightarrow> if p1 = COUNTER_MODE_INCREMENT then advance c u32_to_le_bytes s
                     else (u32_to_le_bytes (counts s c), s))
      else if op = OP_CHECKMAC then soft_checkmac sha p2 data s
      else if op = OP_NONCE then ([0x00], if p1 = 0x03 then s\<lparr>temp_key := data\<rparr> else s)
      else if op = OP_GENDIG then
        ([0x00], s\<lparr>temp_key := chip_gendig sha soft_serial (store s (Slot (ucast p2))) p2 (temp_key s)\<rparr>)
      else if op = OP_WRITE \<and> p1 AND 0x03 = 0x02 then soft_data_write sha p1 p2 data s
      else if op = OP_GENKEY \<or> op = OP_SIGN then (replicate 64 0, s)
      else ([0x00], s))"

definition soft_write :: "hash \<Rightarrow> u8 \<Rightarrow> bytes \<Rightarrow> (soft_chip, unit, unit) act" where
  "soft_write sha addr wire s =
     (Inr (),
      if 8 \<le> length wire \<and> wire ! 0 = WORD_ADDRESS_COMMAND
      then (case soft_exec sha (wire ! 2) (wire ! 3) (u16_from_le_bytes (wire ! 4) (wire ! 5))
                   (slice wire 6 (length wire - 2)) s of
              (p, s) \<Rightarrow> s\<lparr>pending := response_frame p\<rparr>)
      else s\<lparr>pending := []\<rparr>)"

definition soft_hal :: "hash \<Rightarrow> (soft_chip, unit) AteccHal" where
  "soft_hal sha =
     \<lparr>i2c_write = soft_write sha,
      i2c_read = (\<lambda>addr n s. if pending s = [] then (Inl (), s)
                              else (Inr (canned (pending s)), s\<lparr>pending := drop n (pending s)\<rparr>)),
      pulse_sda_low = (\<lambda>us s. (Inr (), s\<lparr>pending := WAKE_RESPONSE_OK\<rparr>)),
      delay_us = (\<lambda>us s. s),
      delay_ms = (\<lambda>ms s. s)\<rparr>"

lemma soft_hal_sel [simp]:
  "i2c_write (soft_hal sha) = soft_write sha" "delay_us (soft_hal sha) us s = s" "delay_ms (soft_hal sha) ms s = s"
  "pulse_sda_low (soft_hal sha) us s = (Inr (), s\<lparr>pending := WAKE_RESPONSE_OK\<rparr>)"
  "i2c_read (soft_hal sha) addr n s =
     (if pending s = [] then (Inl (), s) else (Inr (canned (pending s)), s\<lparr>pending := drop n (pending s)\<rparr>))"
  by (simp_all add: soft_hal_def)

section \<open>Commands to the chip\<close>

text \<open>What is left when an answer has been read.\<close>

definition answered_by :: "'h Atecc \<Rightarrow> soft_chip \<Rightarrow> soft_chip Atecc" where
  "answered_by s h = \<lparr>hal = h\<lparr>pending := []\<rparr>, device_addr = device_addr s\<rparr>"

lemma frame_fields:
  fixes op p1 :: u8 and p2 :: u16 and data :: bytes
  defines "w \<equiv> WORD_ADDRESS_COMMAND # command_frame op p1 p2 data"
  shows "w ! 0 = WORD_ADDRESS_COMMAND" "w ! 2 = op" "w ! 3 = p1" "u16_from_le_bytes (w ! 4) (w ! 5) = p2"
    "slice w 6 (length w - 2) = data" "8 \<le> length w"
proof -
  show "w ! 0 = WORD_ADDRESS_COMMAND" "w ! 2 = op" "w ! 3 = p1" "8 \<le> length w"
    by (simp_all add: w_def command_frame_def with_crc_def u16_to_le_bytes_def)
  show "u16_from_le_bytes (w ! 4) (w ! 5) = p2"
    by (simp add: w_def command_frame_def with_crc_def u16_to_le_bytes_def u16_from_to_le)
  show "slice w 6 (length w - 2) = data"
    by (simp add: w_def command_frame_def with_crc_def u16_to_le_bytes_def slice_def)
qed

lemma soft_write_frame:
  "snd (soft_write sha addr (WORD_ADDRESS_COMMAND # command_frame op p1 p2 data) s) =
     (snd (soft_exec sha op p1 p2 data s))\<lparr>pending := response_frame (fst (soft_exec sha op p1 p2 data s))\<rparr>"
  unfolding soft_write_def frame_fields using frame_fields(6) [of op p1 p2 data]
  by (simp add: case_prod_beta)

lemma soft_run:
  assumes "length data \<le> 155" and "soft_exec sha op p1 p2 data (hal s) = (p, h)"
    and "1 \<le> length p" and "length p \<le> 152" and "3 + length p \<le> length buf"
  shows "\<exists>buf'. run_command (soft_hal sha) op p1 p2 data ms buf s = (Inr (3 + length p, buf'), answered_by s h) \<and>
      take (3 + length p) buf' = response_frame p"
proof -
  let ?H = "soft_hal sha" and ?h1 = "h\<lparr>pending := response_frame p\<rparr>" and ?h2 = "h\<lparr>pending := tl (response_frame p)\<rparr>"
  have f: "response_frame p = of_nat (3 + length p) # tl (response_frame p)"
    by (simp add: response_frame_def with_crc_def add.commute)
  have l: "length (tl (response_frame p)) = 2 + length p" by simp
  have t: "tl (response_frame p) \<noteq> []" using l by (metis add_is_0 list.size(3) zero_neq_numeral)
  have m: "map (canned (tl (response_frame p))) [0..<2 + length p] = tl (response_frame p)"
    unfolding l [symmetric] by (rule nth_equalityI) (simp_all only: length_map length_upt nth_map nth_upt canned_def, simp)
  have "\<exists>buf'. run_command ?H op p1 p2 data ms buf \<lparr>hal = hal s, device_addr = device_addr s\<rparr> =
      (Inr (3 + length p, buf'), \<lparr>hal = h\<lparr>pending := []\<rparr>, device_addr = device_addr s\<rparr>) \<and>
      take (3 + length p) buf' = response_frame p"
  proof (rule run_command_answers [where k = 0 and ?h1.0 = ?h1 and ?h2.0 = ?h2 and c = "canned (response_frame p)"
        and cell = "canned (tl (response_frame p))", OF assms(1)])
    show "i2c_write ?H (device_addr s) (WORD_ADDRESS_COMMAND # command_frame op p1 p2 data) (hal s) = (Inr (), ?h1)"
      using soft_write_frame [of sha "device_addr s" op p1 p2 data "hal s"] assms(2) by (simp add: soft_write_def)
    show "i2c_read ?H (device_addr s) 1 ((poll_round ?H (device_addr s) ^^ 0) (delay_ms ?H ms ?h1)) =
        (Inr (canned (response_frame p)), ?h2)"
      using f by (simp add: drop_Suc) (metis list.discI)
    show "i2c_read ?H (device_addr s) (2 + length p) ?h2 = (Inr (canned (tl (response_frame p))), h\<lparr>pending := []\<rparr>)"
      using l t by simp
  qed (use assms m f in \<open>simp_all add: canned_def nth_Cons'\<close>)
  then show ?thesis unfolding answered_by_def by (cases s) simp
qed

lemma soft_execute:
  assumes "soft_exec sha op p1 p2 data (hal s) = (p, h)" and "2 \<le> length p" and "length p \<le> 152"
    and "3 + length p \<le> length buf" and "length data \<le> 155"
  shows "execute_command (soft_hal sha) op p1 p2 data ms buf s = (Inr p, answered_by s h)"
proof -
  obtain buf' where "run_command (soft_hal sha) op p1 p2 data ms buf s = (Inr (3 + length p, buf'), answered_by s h)"
    "take (3 + length p) buf' = response_frame p"
    using soft_run [OF assms(5,1) _ assms(3,4)] assms(2) by auto
  with assms(2,3) show ?thesis by (auto simp: execute_command_Inr)
qed

lemma soft_run_status:
  assumes "soft_exec sha op p1 p2 data (hal s) = ([b], h)" and "length data \<le> 155"
  shows "run_command (soft_hal sha) op p1 p2 data ms (replicate 4 0) s = (Inr (4, response_frame [b]), answered_by s h)"
proof -
  from soft_run [OF assms(2,1), of "replicate 4 0" ms] obtain buf' where
    r: "run_command (soft_hal sha) op p1 p2 data ms (replicate 4 0) s = (Inr (4, buf'), answered_by s h)"
    and "take 4 buf' = response_frame [b]" by auto
  with run_command_bounds [OF r] show ?thesis by simp
qed

lemma soft_status:
  assumes "soft_exec sha op p1 p2 data (hal s) = ([b], h)" and "length data \<le> 155"
  shows "execute_command_status (soft_hal sha) op p1 p2 data ms s =
    (if b = 0 then Inr () else Inl (Chip (case from_status_byte b of Some e \<Rightarrow> e | None \<Rightarrow> Unknown b)), answered_by s h)"
  using soft_run_status [OF assms, of ms] parse_response_frame_ok [of "[b]"]
  by (simp add: execute_command_status_def and_then_def STATUS_RESPONSE_LEN_def of_result_def map_err_def return_ok_def
      return_err_def)

lemma soft_channel:
  "open_channel (soft_hal sha) s = (Inr (), answered_by s (hal s))"
  "close (soft_hal sha) s = (Inr (), answered_by s (hal s))"
proof -
  have "map (canned WAKE_RESPONSE_OK) [0..<4] = WAKE_RESPONSE_OK" "WAKE_RESPONSE_OK \<noteq> []" by code_simp+
  then show "open_channel (soft_hal sha) s = (Inr (), answered_by s (hal s))"
    by (cases s) (simp add: open_channel_def wake_def on_hal_def and_then_def map_err_def modify_def read_exact_def
        return_ok_def answered_by_def, simp add: WAKE_RESPONSE_OK_def return_ok_def)
  show "close (soft_hal sha) s = (Inr (), answered_by s (hal s))"
    by (cases s) (simp add: close_def idle_def on_hal_def map_err_def soft_write_def answered_by_def)
qed

text \<open>The commands of the service.\<close>

lemma soft_random: "random (soft_hal sha) s = (Inr (replicate 32 7), answered_by s (hal s))"
proof -
  have "soft_exec sha OP_RANDOM 0 0 [] (hal s) = (replicate 32 7, hal s)" by (simp add: soft_exec_def opcode_defs)
  from soft_execute [OF this, of "replicate 35 0" EXEC_TIME_RANDOM_MS] show ?thesis
    by (simp add: random_def and_then_def return_ok_def RANDOM_OUTPUT_LEN_def del: replicate.simps)
qed

lemma soft_counter_read: "counter_read (soft_hal sha) c s = (Inr (counts (hal s) c), answered_by s (hal s))"
proof -
  have "soft_exec sha OP_COUNTER COUNTER_MODE_READ (counter_as_param2 c) [] (hal s) = (u32_to_le_bytes (counts (hal s) c), hal s)"
    by (cases c) (simp_all add: soft_exec_def opcode_defs named_counter_def COUNTER_MODE_READ_def COUNTER_MODE_INCREMENT_def)
  from soft_execute [OF this, of "replicate (1 + 4 + 2) 0" EXEC_TIME_COUNTER_MS] show ?thesis
    by (simp add: counter_read_def counter_internal_def and_then_def of_result_def return_ok_def try_into_array_def
        le_simps del: replicate.simps)
qed

lemma soft_counter_increment:
  "counter_increment (soft_hal sha) c s =
     (if counts (hal s) c < COUNTER_LIMIT
      then (Inr (counts (hal s) c + 1), answered_by s ((hal s)\<lparr>counts := (counts (hal s))(c := counts (hal s) c + 1)\<rparr>))
      else (Inl (Chip ExecutionError), answered_by s (hal s)))"
proof -
  let ?r = "soft_exec sha OP_COUNTER COUNTER_MODE_INCREMENT (counter_as_param2 c) [] (hal s)"
  have e: "?r = advance c u32_to_le_bytes (hal s)"
    by (cases c) (simp_all add: soft_exec_def opcode_defs named_counter_def)
  show ?thesis
  proof (cases "counts (hal s) c < COUNTER_LIMIT")
    case True
    with e soft_execute [of sha OP_COUNTER COUNTER_MODE_INCREMENT "counter_as_param2 c" "[]" s _ _
        "replicate (1 + 4 + 2) 0" EXEC_TIME_COUNTER_MS] show ?thesis
      by (simp add: advance_def counter_increment_def counter_internal_def and_then_def of_result_def return_ok_def
          try_into_array_def le_simps del: replicate.simps)
  next
    case False
    then have "?r = ([0x0F], hal s)" using e by (simp add: advance_def)
    from soft_run [OF _ this, of "replicate 7 0" EXEC_TIME_COUNTER_MS] obtain buf' where
      "run_command (soft_hal sha) OP_COUNTER COUNTER_MODE_INCREMENT (counter_as_param2 c) [] EXEC_TIME_COUNTER_MS
         (replicate 7 0) s = (Inr (4, buf'), answered_by s (hal s))" "take 4 buf' = response_frame [0x0F]"
      by (auto simp del: replicate.simps)
    moreover have "from_status_byte 0x0F = Some ExecutionError" by code_simp
    ultimately have "execute_command (soft_hal sha) OP_COUNTER COUNTER_MODE_INCREMENT (counter_as_param2 c) []
        EXEC_TIME_COUNTER_MS (replicate 7 0) s = (Inl (Chip ExecutionError), answered_by s (hal s))"
      unfolding execute_command_Chip by blast
    with False show ?thesis
      by (simp add: counter_increment_def counter_internal_def and_then_def del: replicate.simps)
  qed
qed

lemma soft_nonce:
  assumes "length v \<le> 155"
  shows "nonce_passthrough (soft_hal sha) TempKey v s = (Inr (), answered_by s ((hal s)\<lparr>temp_key := v\<rparr>))"
proof -
  have "soft_exec sha OP_NONCE (NONCE_MODE_PASSTHROUGH OR nonce_as_param1_bits TempKey) 0 v (hal s) = ([0], (hal s)\<lparr>temp_key := v\<rparr>)"
    by (simp add: soft_exec_def opcode_defs NONCE_MODE_PASSTHROUGH_def NONCE_TARGET_TEMPKEY_def)
  from soft_status [OF this assms] show ?thesis by (simp add: nonce_passthrough_def)
qed

lemma soft_gendig:
  "gendig (soft_hal sha) GenDigData k s =
     (Inr (), answered_by s ((hal s)\<lparr>temp_key := chip_gendig sha soft_serial (store (hal s) (Slot (ucast k))) k (temp_key (hal s))\<rparr>))"
proof -
  have "soft_exec sha OP_GENDIG (gendig_as_param1 GenDigData) k [] (hal s) =
      ([0], (hal s)\<lparr>temp_key := chip_gendig sha soft_serial (store (hal s) (Slot (ucast k))) k (temp_key (hal s))\<rparr>)"
    by (simp add: soft_exec_def opcode_defs)
  from soft_status [OF this] show ?thesis by (simp add: gendig_def)
qed

lemma data_address_slot: "unat i < 16 \<Longrightarrow> ucast (drop_bit 3 (data_address (Slot i) 0 0)) = i"
proof -
  assume "unat i < 16"
  then have "take_bit 5 i = i" by (simp add: word_unat_eq_iff unsigned_take_bit_eq take_bit_nat_eq_self)
  then have i: "i AND 0x1F = i" by (simp add: take_bit_eq_mask mask_eq_exp_minus_1)
  show ?thesis unfolding data_address_def Let_def
    by (simp add: i, rule bit_word_eqI, auto simp: bit_simps dest: bit_imp_le_length)
qed

lemma soft_write_32:
  assumes "unat i < 16" and "length v = 32"
  shows "write_32 (soft_hal sha) ZoneData (data_address (Slot i) 0 0) v s =
    (Inr (), answered_by s ((hal s)\<lparr>store := (store (hal s))(Slot i := v)\<rparr>))"
proof -
  have "soft_exec sha OP_WRITE (write_param1 ZoneData True False) (data_address (Slot i) 0 0) v (hal s) =
      ([0], (hal s)\<lparr>store := (store (hal s))(Slot i := v)\<rparr>)"
    using assms by (simp add: soft_exec_def opcode_defs write_param1_def PARAM1_FLAG_32_BYTES_def soft_data_write_def
        data_address_slot)
  from soft_status [OF this] assms(2) show ?thesis by (simp add: write_32_def)
qed

lemma soft_write_encrypted:
  assumes "unat i < 16" and "length p = 64"
  defines "plain \<equiv> \<lambda>s. xor_bytes (take 32 p) (temp_key (hal s))" and "a \<equiv> data_address (Slot i) 0 0"
  shows "write_32_encrypted (soft_hal sha) ZoneData a p s =
    (if drop 32 p = chip_write_mac sha soft_serial (temp_key (hal s)) a (plain s)
     then (Inr (), answered_by s ((hal s)\<lparr>store := (store (hal s))(Slot i := plain s)\<rparr>))
     else (Inl (Chip ExecutionError), answered_by s (hal s)))"
proof -
  let ?ok = "drop 32 p = chip_write_mac sha soft_serial (temp_key (hal s)) a (plain s)"
  have "soft_exec sha OP_WRITE (write_param1 ZoneData True True) a p (hal s) =
      (if ?ok then ([0], (hal s)\<lparr>store := (store (hal s))(Slot i := plain s)\<rparr>) else ([0x0F], hal s))"
    using assms(1,2) by (simp add: soft_exec_def opcode_defs write_param1_def PARAM1_FLAG_32_BYTES_def PARAM1_FLAG_ENCRYPTED_def
        soft_data_write_def data_address_slot plain_def a_def Let_def)
  then show ?thesis using assms(2) by (simp add: write_32_encrypted_def soft_status from_status_byte_def split: if_splits)
qed

lemma soft_checkmac_run:
  assumes "length data \<le> 155"
  shows "run_command (soft_hal sha) OP_CHECKMAC p1 p2 data ms (replicate 4 0) s =
    (Inr (4, response_frame (fst (soft_checkmac sha p2 data (hal s)))), answered_by s (snd (soft_checkmac sha p2 data (hal s))))"
proof -
  have "length (fst (soft_checkmac sha p2 data (hal s))) = 1"
    by (simp add: soft_checkmac_def advance_def split: option.split)
  then obtain b h where e: "soft_checkmac sha p2 data (hal s) = ([b], h)"
    by (cases "soft_checkmac sha p2 data (hal s)") (auto simp: length_Suc_conv)
  then have "soft_exec sha OP_CHECKMAC p1 p2 data (hal s) = ([b], h)" by (simp add: soft_exec_def opcode_defs)
  from soft_run_status [OF this assms] e show ?thesis by simp
qed

lemma soft_slot_of: "Slot (ucast (slot_param2 slot)) = slot"
proof -
  have "ucast (ucast b :: u16) = b" for b :: u8
    by (rule bit_word_eqI) (auto simp: bit_simps dest: bit_imp_le_length)
  then show ?thesis by (cases slot) (simp add: slot_param2_def)
qed

lemma soft_checkmac_verdict:
  fixes sha :: hash
  assumes "length ch = 32" and "length resp = 32" and "length od = 13"
  defines "ok \<equiv> \<lambda>s slot. resp = chip_checkmac sha soft_serial (store (hal s) slot) ch od"
  shows "ok s slot \<Longrightarrow> checkmac (soft_hal sha) slot ch resp od s = (Inr True, answered_by s (hal s))"
    and "\<not> ok s slot \<Longrightarrow> bound_counter (slot_param2 slot) = Some c \<Longrightarrow> counts (hal s) c < COUNTER_LIMIT \<Longrightarrow>
      checkmac (soft_hal sha) slot ch resp od s = (Inr False, answered_by s (snd (advance c (\<lambda>_. [1]) (hal s))))"
proof -
  have "slice (ch @ resp @ od) 32 64 = resp" using assms by (simp add: slice_def)
  note run = soft_checkmac_run [of "ch @ resp @ od" sha 0 "slot_param2 slot" EXEC_TIME_CHECKMAC_MS s]
    this soft_slot_of [of slot]
  show "checkmac (soft_hal sha) slot ch resp od s = (Inr True, answered_by s (hal s))" if "ok s slot"
    unfolding checkmac_verdict [OF assms(1-3)] using run that assms(1-3) by (simp add: soft_checkmac_def ok_def del: replicate.simps)
  show "checkmac (soft_hal sha) slot ch resp od s = (Inr False, answered_by s (snd (advance c (\<lambda>_. [1]) (hal s))))"
    if "\<not> ok s slot" "bound_counter (slot_param2 slot) = Some c" "counts (hal s) c < COUNTER_LIMIT"
    unfolding checkmac_verdict [OF assms(1-3)] using run that assms(1-3)
    by (simp add: soft_checkmac_def ok_def advance_def del: replicate.simps)
qed

lemma response_frame_inject: "response_frame [a] = response_frame [b] \<longleftrightarrow> a = b"
  by (auto simp: response_frame_def with_crc_def)

lemma soft_checkmac_decides:
  assumes "length ch = 32" and "length resp = 32" and "length od = 13"
    and "checkmac (soft_hal sha) slot ch resp od s = (Inr b, t)"
  shows "b \<longleftrightarrow> resp = chip_checkmac sha soft_serial (store (hal s) slot) ch od"
proof -
  let ?r = "soft_checkmac sha (slot_param2 slot) (ch @ resp @ od) (hal s)"
  have "fst ?r = [if b then 0 else 1]"
    using assms(4) soft_checkmac_run [of "ch @ resp @ od" sha 0 "slot_param2 slot" EXEC_TIME_CHECKMAC_MS s] assms(1-3)
    unfolding checkmac_verdict [OF assms(1-3)] by (auto simp: response_frame_inject soft_checkmac_def advance_def
        simp del: replicate.simps split: option.splits if_splits)
  moreover have "resp = chip_checkmac sha soft_serial (store (hal s) slot) ch od \<longleftrightarrow> fst ?r = [0]"
    using assms(1-3) soft_slot_of [of slot]
    by (auto simp: soft_checkmac_def slice_def advance_def split: option.split)
  ultimately show ?thesis by simp
qed

lemma soft_config: "read_config_zone (soft_hal sha) (replicate 128 0) s = (Inr (take 4 soft_serial @ [0, 0, 0x60, 3] @ drop 4 soft_serial @ replicate 19 0 @ replicate 96 0x55),
    answered_by s (hal s))"
proof -
  have r: "read_32 (soft_hal sha) ZoneConfig (config_or_otp_address b 0) t = (Inr (soft_read 0x80 (config_or_otp_address b 0)), answered_by t (hal t))"
    (is "_ = (Inr ?p, _)") for b t
  proof -
    have "soft_exec sha OP_READ (read_param1 ZoneConfig True) (config_or_otp_address b 0) [] (hal t) = (?p, hal t)"
      by (simp add: soft_exec_def opcode_defs read_param1_def PARAM1_FLAG_32_BYTES_def)
    moreover have l: "length ?p = 32" by (simp add: soft_read_def soft_serial_def)
    ultimately show ?thesis
      using soft_execute [of sha OP_READ "read_param1 ZoneConfig True" "config_or_otp_address b 0" "[]" t ?p "hal t"
          "replicate (1 + BLOCK_SIZE + 2) 0" EXEC_TIME_READ_MS]
      by (simp add: read_32_def and_then_def of_result_def try_into_array_def BLOCK_SIZE_def del: replicate.simps)
  qed
  have a: "config_or_otp_address 0 0 = 0" "config_or_otp_address 1 0 = 8" "config_or_otp_address 2 0 = 16" "config_or_otp_address 3 0 = 24"
    by code_simp+
  have z: "soft_read 0x80 8 = replicate 32 0x55" "soft_read 0x80 16 = replicate 32 0x55" "soft_read 0x80 24 = replicate 32 0x55"
    by code_simp+
  have c: "copy_at (copy_at (copy_at (copy_at (replicate 128 0) 0 (soft_read 0x80 0)) 32 (replicate 32 0x55)) 64 (replicate 32 0x55)) 96
      (replicate 32 0x55) = take 4 soft_serial @ [0, 0, 0x60, 3] @ drop 4 soft_serial @ replicate 19 0 @ replicate 96 0x55" by code_simp
  have "[0..<CONFIG_ZONE_BLOCK_COUNT] = [0, 1, 2, 3]" by (simp add: CONFIG_ZONE_BLOCK_COUNT_def upt_rec)
  then show ?thesis unfolding read_config_zone_def
    using r [of 0] r [of 1] r [of 2] r [of 3] c
    by (simp add: and_then_def a z return_ok_def BLOCK_SIZE_def answered_by_def del: replicate.simps)
qed

lemma soft_info: "info_revision (soft_hal sha) s = (Inr [0, 0, 0x60, 3], answered_by s (hal s))"
proof -
  have "soft_exec sha OP_INFO INFO_MODE_REVISION 0 [] (hal s) = ([0, 0, 0x60, 3], hal s)" by (simp add: soft_exec_def)
  from soft_execute [OF this, of "replicate 7 0" EXEC_TIME_INFO_MS] show ?thesis
    by (simp add: info_revision_def and_then_def of_result_def try_into_array_def return_ok_def del: replicate.simps)
qed

lemma soft_genkey: "genkey_create (soft_hal sha) slot s = (Inr (replicate 64 0), answered_by s (hal s))"
proof -
  have "soft_exec sha OP_GENKEY GENKEY_MODE_CREATE (slot_param2 slot) [] (hal s) = (replicate 64 0, hal s)"
    by (simp add: soft_exec_def opcode_defs)
  from soft_execute [OF this, of "replicate 67 0" EXEC_TIME_GENKEY_MS] show ?thesis
    by (simp add: genkey_create_def genkey_internal_def and_then_def of_result_def try_into_array_def PUBLIC_KEY_SIZE_def
        del: replicate.simps)
qed

end
