(* ===== verification/Retry_Bound.thy ===== *)
theory Retry_Bound
  imports Service_Policy Chip_Observer Soft_Chip
begin

text \<open>
  How many PINs and PUKs can be guessed. The bound comes from the service and the chip
  together: the service refuses to present a PIN when the counter shows an exhausted batch,
  and the chip advances the counter of a slot on each mismatch. The locale
  \<open>limited_use\<close> states what the service relies on of the chip
  (\<^verbatim>\<open>docs/config-zone-layout.md\<close>: slot 5 is bound to Counter0, slot 6 to Counter1);
  everything else is derived from the code: no method but a confirmed check, or an
  emergency reset of two exhausted batches, gives attempts back.
\<close>

unbundle bit_operations_syntax

section \<open>The contract of the chip\<close>

fun counter_slot :: "CounterId \<Rightarrow> Slot" where
  "counter_slot Counter0 = SLOT_PIN_HASH"
| "counter_slot Counter1 = SLOT_PUK_HASH"

fun counter_batch :: "CounterId \<Rightarrow> u8" where
  "counter_batch Counter0 = PIN_MAX_RETRIES"
| "counter_batch Counter1 = PUK_MAX_RETRIES"

text \<open>
  The packets that may advance a counter: CheckMac on the slot bound to it, and the
  increment of the counter itself.
\<close>

definition advances :: "CounterId \<Rightarrow> bytes \<Rightarrow> bool" where
  "advances c wire \<longleftrightarrow>
     6 \<le> length wire \<and> wire ! 0 = WORD_ADDRESS_COMMAND \<and>
     (wire ! 2 = OP_CHECKMAC \<and> u16_from_le_bytes (wire ! 4) (wire ! 5) = slot_param2 (counter_slot c) \<or>
      wire ! 2 = OP_COUNTER \<and> wire ! 3 = COUNTER_MODE_INCREMENT \<and>
        u16_from_le_bytes (wire ! 4) (wire ! 5) = counter_as_param2 c)"

lemma advances_frame:
  "advances c (WORD_ADDRESS_COMMAND # command_frame op p1 p2 data) \<longleftrightarrow>
     op = OP_CHECKMAC \<and> p2 = slot_param2 (counter_slot c) \<or>
     op = OP_COUNTER \<and> p1 = COUNTER_MODE_INCREMENT \<and> p2 = counter_as_param2 c"
proof -
  let ?w = "WORD_ADDRESS_COMMAND # command_frame op p1 p2 data"
  have "?w ! 2 = op" "?w ! 3 = p1" "?w ! 4 = ucast p2" "?w ! 5 = ucast (drop_bit 8 p2)"
    by (simp_all add: command_frame_def with_crc_def u16_to_le_bytes_def)
  then show ?thesis by (simp add: advances_def u16_from_to_le)
qed

lemma slot_param2_inject: "slot_param2 a = slot_param2 b \<longleftrightarrow> a = b"
proof -
  have u: "unat (slot_param2 s) = unat (slot_as_u8 s)" for s
    using unat_u8_less [of "slot_as_u8 s"]
    by (simp add: slot_param2_def unsigned_ucast_eq take_bit_nat_eq_self)
  show ?thesis by (metis Slot.collapse u word_unat_eq_iff)
qed

lemma map_sum_eq_Inr: "map_sum f id r = Inr v \<longleftrightarrow> r = Inr v" "Inr v = map_sum f id r \<longleftrightarrow> r = Inr v"
  by (cases r; auto)+

text \<open>\<open>steps p m\<close>: the computation raises \<open>p\<close> by at most one.\<close>

definition steps :: "('s \<Rightarrow> nat) \<Rightarrow> ('s, 'e, 'a) act \<Rightarrow> bool" where
  "steps p m \<longleftrightarrow> (\<forall>s. p (snd (m s)) \<in> {p s, Suc (p s)})"

lemma stepsE: "steps p m \<Longrightarrow> m s = (r, t) \<Longrightarrow> p t \<in> {p s, Suc (p s)}"
  unfolding steps_def by (metis snd_conv)

lemma keeps_steps: "keeps p m \<Longrightarrow> steps p m"
  by (simp add: keeps_def steps_def)

lemma steps_first: "steps p m \<Longrightarrow> (\<And>a. keeps p (f a)) \<Longrightarrow> steps p (and_then m f)"
  unfolding steps_def keeps_def and_then_def
  by (simp split: prod.split sum.split) (metis snd_conv)

lemma steps_later: "keeps p m \<Longrightarrow> (\<And>a. steps p (f a)) \<Longrightarrow> steps p (and_then m f)"
  unfolding steps_def keeps_def and_then_def
  by (simp split: prod.split sum.split) (metis snd_conv)

lemma steps_attempt: "steps p m \<Longrightarrow> steps p (attempt m)"
  unfolding steps_def attempt_def by (simp add: case_prod_beta)

text \<open>
  \<open>count c h\<close> is the value of counter \<open>c\<close> in the chip behind the bus. Only the packets
  above change it, by at most one; reading a counter returns it; a CheckMac that reports a
  mismatch has advanced it. This is the contract of a chip whose zones are locked: before
  the configuration zone is locked, a write of its block 1 sets the initial values of the
  counters (bytes 52 to 67), and \<^verbatim>\<open>docs/config-zone-layout.md\<close> promises counters that only
  increment for the locked chip. A chip that is still to be locked does not satisfy
  \<open>other_packets\<close>.
\<close>

locale limited_use =
  fixes H :: "('h, 'e) AteccHal" and count :: "CounterId \<Rightarrow> 'h \<Rightarrow> nat"
  assumes quiet: "count c (snd (i2c_read H addr n h)) = count c h" "count c (snd (pulse_sda_low H us h)) = count c h"
      "count c (delay_us H us h) = count c h" "count c (delay_ms H ms h) = count c h"
    and other_packets: "\<not> advances c wire \<Longrightarrow> count c (snd (i2c_write H addr wire h)) = count c h"
    and one_step: "count c (snd (i2c_write H addr wire h)) \<in> {count c h, Suc (count c h)}"
    and reading: "counter_read H c s = (Inr v, t) \<Longrightarrow> unat v = count c (hal s)"
    and mismatch: "checkmac H (counter_slot c) ch resp od s = (Inr False, t) \<Longrightarrow>
      count c (hal t) = Suc (count c (hal s))"

sublocale limited_use \<subseteq> observed: chip_observer H "count c" "advances c" for c
  using quiet other_packets by unfold_locales (simp_all add: advances_def)

context limited_use begin

lemma steps_run_command: "steps (\<lambda>s. count c (hal s)) (run_command H op p1 p2 data ms buf)"
proof (cases "length data \<le> 155")
  case True
  let ?w = "WORD_ADDRESS_COMMAND # command_frame op p1 p2 data"
  have "steps (\<lambda>s. count c (hal s)) (on_hal (\<lambda>addr. map_err Hal (i2c_write H addr ?w)))"
    using one_step [of c _ ?w]
    by (auto simp: steps_def on_hal_def map_err_def split: prod.splits sum.splits) (metis snd_conv)+
  then show ?thesis unfolding run_command_ok [OF True] by (rule steps_first) (rule observed.keeps_awaiting)
next
  case False
  then show ?thesis by (intro keeps_steps keepsI) (simp add: run_command_too_long)
qed

lemma steps_checkmac: "steps (\<lambda>s. count c (hal s)) (checkmac H slot ch r od)"
  unfolding checkmac_def execute_command_status_def Let_def
  by (intro steps_first steps_attempt steps_run_command keeps_case_prod keeps_case_ResponseFrame
      keeps_and_then keeps_if keeps_map_err keeps_of_result keeps_ok keeps_err)

lemma keeps_commands:
  "keeps (\<lambda>s. count c (hal s)) (random H)" "keeps (\<lambda>s. count c (hal s)) (info_revision H)"
  "keeps (\<lambda>s. count c (hal s)) (counter_read H c')" "keeps (\<lambda>s. count c (hal s)) (gendig H gz k)"
  "keeps (\<lambda>s. count c (hal s)) (genkey_create H slot)" "keeps (\<lambda>s. count c (hal s)) (genkey_public H slot)"
  "keeps (\<lambda>s. count c (hal s)) (nonce_passthrough H target v)" "keeps (\<lambda>s. count c (hal s)) (sign_external H slot)"
  "keeps (\<lambda>s. count c (hal s)) (read_4 H z a)" "keeps (\<lambda>s. count c (hal s)) (read_32 H z a)"
  "keeps (\<lambda>s. count c (hal s)) (write_4 H z a d)" "keeps (\<lambda>s. count c (hal s)) (write_32 H z a d)"
  "keeps (\<lambda>s. count c (hal s)) (write_32_encrypted H z a d)" "keeps (\<lambda>s. count c (hal s)) (lock_config_zone H crc)"
  "keeps (\<lambda>s. count c (hal s)) (lock_data_zone H)" "keeps (\<lambda>s. count c (hal s)) (lock_slot H slot)"
  "c' \<noteq> c \<Longrightarrow> keeps (\<lambda>s. count c (hal s)) (counter_increment H c')"
  "slot \<noteq> counter_slot c \<Longrightarrow> keeps (\<lambda>s. count c (hal s)) (checkmac H slot ch r od)"
proof -
  have o: "OP_COUNTER \<noteq> OP_CHECKMAC" "COUNTER_MODE_READ \<noteq> COUNTER_MODE_INCREMENT"
    by (simp_all add: opcode_defs COUNTER_MODE_READ_def COUNTER_MODE_INCREMENT_def)
  have d: "c' \<noteq> c \<Longrightarrow> counter_as_param2 c' \<noteq> counter_as_param2 c" by (cases c; cases c') auto
  show "c' \<noteq> c \<Longrightarrow> keeps (\<lambda>s. count c (hal s)) (counter_increment H c')"
    using o d unfolding counter_increment_def counter_internal_def
    by (intro keeps_and_then observed.keeps_execute keeps_of_result keeps_ok) (simp add: advances_frame)
  show "slot \<noteq> counter_slot c \<Longrightarrow> keeps (\<lambda>s. count c (hal s)) (checkmac H slot ch r od)"
    using o unfolding checkmac_def Let_def
    by (intro keeps_and_then keeps_attempt observed.keeps_execute keeps_of_result) (auto simp: advances_frame slot_param2_inject)
  show "keeps (\<lambda>s. count c (hal s)) (counter_read H c')"
    using o unfolding counter_read_def counter_internal_def
    by (intro keeps_and_then observed.keeps_execute keeps_of_result keeps_ok) (simp add: advances_frame)
qed (auto simp: command_defs opcode_defs Let_def advances_frame intro!: keeps_and_then observed.keeps_execute keeps_if)

end

section \<open>The methods of the service\<close>

text \<open>The attempts that the value of a counter leaves.\<close>

definition left :: "CounterId \<Rightarrow> nat \<Rightarrow> nat" where
  "left c n =
     (let batch = unat (counter_batch c) in if n = 0 then batch else (batch - n mod batch) mod batch)"

lemma retries_left: "unat (retries_remaining v (counter_batch c)) = left c (unat v)"
  using unat_retries_remaining [of "counter_batch c" v]
  by (cases c) (simp_all add: left_def PIN_MAX_RETRIES_def PUK_MAX_RETRIES_def word_unat_eq_iff [of v])

lemma left_bound: "left Counter0 n \<le> 5" "left Counter1 n \<le> 10"
  by (simp_all add: left_def PIN_MAX_RETRIES_def PUK_MAX_RETRIES_def)

lemma batch_Suc:
  assumes b: "2 \<le> b" and l: "(if n = 0 then b else (b - n mod b) mod b) \<noteq> (0 :: nat)"
  shows "Suc ((b - Suc n mod b) mod b) = (if n = 0 then b else (b - n mod b) mod b)"
proof (cases "n mod b = 0")
  case True
  with l have "n = 0" by (auto split: if_splits)
  with b show ?thesis by simp
next
  case False
  then have "n \<noteq> 0" by (metis mod_0)
  moreover have "n mod b < b" using b by simp
  ultimately show ?thesis using b False
    by (cases "Suc (n mod b) = b") (auto simp: mod_Suc Suc_diff_Suc)
qed

lemma left_Suc: "left c n \<noteq> 0 \<Longrightarrow> Suc (left c (Suc n)) = left c n"
  by (cases c)
    (simp_all add: left_def Let_def PIN_MAX_RETRIES_def PUK_MAX_RETRIES_def batch_Suc del: not_gr_zero neq0_conv)

text \<open>
  The check that \<open>verify_pin\<close>, \<open>set_pin\<close>, \<open>unblock_pin\<close> and \<open>set_puk\<close> share, and the
  verdict of the chip in it, if it comes to one.
\<close>

definition guarded ::
  "('h, 'e, 'c) Env \<Rightarrow> CounterId \<Rightarrow> (bytes \<Rightarrow> bytes) \<Rightarrow> 'e CryptoServiceError \<Rightarrow> (u8 \<Rightarrow> 'e CryptoServiceError) \<Rightarrow>
   (bytes \<Rightarrow> ('h, 'e, 'c, unit) svc) \<Rightarrow> ('h, 'e, 'c, unit) svc" where
  "guarded E c hash blocked wrong rest =
     and_then (read_counter E c) (\<lambda>n.
       if retries_remaining n (counter_batch c) = 0 then return_err blocked
       else
     and_then (cached_serial E) (\<lambda>sn.
     and_then (checkmac_with_hash E (counter_slot c) (hash sn) sn) (\<lambda>verified.
       if \<not> verified then
         and_then (read_counter E c) (\<lambda>m. return_err (wrong (retries_remaining m (counter_batch c))))
       else rest sn)))"

definition verdict_on ::
  "('h, 'e, 'c) Env \<Rightarrow> CounterId \<Rightarrow> (bytes \<Rightarrow> bytes) \<Rightarrow> ('h, 'c) CryptoService \<Rightarrow> bool option" where
  "verdict_on E c hash s =
     (case read_counter E c s of
        (Inl _, _) \<Rightarrow> None
      | (Inr n, s) \<Rightarrow>
          if retries_remaining n (counter_batch c) = 0 then None
          else (case cached_serial E s of
             (Inl _, _) \<Rightarrow> None
           | (Inr sn, s) \<Rightarrow>
               (case fst (checkmac_with_hash E (counter_slot c) (hash sn) sn s) of
                  Inl _ \<Rightarrow> None | Inr b \<Rightarrow> Some b)))"

definition pin_hashed :: "('h, 'e, 'c) Env \<Rightarrow> bytes \<Rightarrow> bytes \<Rightarrow> bytes" where
  "pin_hashed E pin sn = pin_hash (sha256 E) pin (pin_salt (sha256 E) sn)"

definition puk_hashed :: "('h, 'e, 'c) Env \<Rightarrow> bytes \<Rightarrow> bytes \<Rightarrow> bytes" where
  "puk_hashed E puk sn = puk_hash (sha256 E) puk (puk_salt (sha256 E) sn)"

text \<open>The verdict on the PIN (\<open>Counter0\<close>) or PUK (\<open>Counter1\<close>) that a call presents.\<close>

fun guess :: "('h, 'e, 'c) Env \<Rightarrow> ServiceOp \<Rightarrow> CounterId \<Rightarrow> ('h, 'c) CryptoService \<Rightarrow> bool option" where
  "guess E (OpVerifyPin p) Counter0 s =
     (if list_all is_ascii_digit p then verdict_on E Counter0 (pin_hashed E p) s else None)"
| "guess E (OpSetPin p q k) Counter0 s =
     (if list_all is_ascii_digit p \<and> list_all is_ascii_digit q
      then verdict_on E Counter0 (pin_hashed E p) s else None)"
| "guess E (OpUnblockPin u q k) Counter1 s =
     (if list_all is_ascii_digit u \<and> list_all is_ascii_digit q
      then verdict_on E Counter1 (puk_hashed E u) s else None)"
| "guess E (OpSetPuk u v k) Counter1 s =
     (if list_all is_ascii_digit u \<and> list_all is_ascii_digit v \<and> is_session_active E s
      then verdict_on E Counter1 (puk_hashed E u) s else None)"
| "guess E _ _ s = None"

lemma check_format_cases:
  "check_format code s = (if list_all is_ascii_digit code then (Inr (), s) else (Inl (projl (fst (check_format code s))), s))"
proof (cases "list_all is_ascii_digit code")
  case True
  then have "validate_digits code = Inr ()" by simp
  with True show ?thesis by (simp only: check_format_def map_err_of_result of_result_def) simp
next
  case False
  then obtain e where "validate_digits code = Inl e" by (cases "validate_digits code") (auto simp del: split_paired_Ex)
  with False show ?thesis by (simp only: check_format_def map_err_of_result of_result_def) simp
qed

lemma all_CounterId: "(\<forall>c. P c) \<longleftrightarrow> P Counter0 \<and> P Counter1"
  by (metis CounterId.exhaust)

lemma check_format_then:
  "outcome (and_then (check_format code) (\<lambda>_. m)) s = (if list_all is_ascii_digit code then outcome m s else (False, s))"
  unfolding outcome_def and_then_def by (subst check_format_cases) simp

lemma if_conj: "(if a then if b then x else y else y) = (if a \<and> b then x else y)"
  by simp

lemma in_session_then:
  "outcome (and_then (gets (clock_now E)) (\<lambda>now. and_then (gets (\<lambda>s. Session_is_active (session s) now)) (\<lambda>active.
       if \<not> active then return_err e else m now))) s =
   (if is_session_active E s then outcome (m (clock_now E s)) s else (False, s))"
  by (simp add: and_then_def gets_def is_session_active_def outcome_def return_err_def)

lemma guarded_methods:
  "verify_pin E p = and_then (check_format p) (\<lambda>_. guarded E Counter0 (pin_hashed E p) PinBlocked PinIncorrect
     (\<lambda>sn. and_then (refresh_counter_batch E Counter0 PIN_MAX_RETRIES) (\<lambda>_. open_session_now E)))"
  "set_pin E p q k = and_then (check_format p) (\<lambda>_. and_then (check_format q) (\<lambda>_.
     guarded E Counter0 (pin_hashed E p) PinBlocked PinIncorrect
       (\<lambda>sn. and_then (write_slot_encrypted E SLOT_PIN_HASH (pin_hashed E q sn) k sn) (\<lambda>_.
         and_then (refresh_counter_batch E Counter0 PIN_MAX_RETRIES) (\<lambda>_. open_session_now E)))))"
  "unblock_pin E u q k = and_then (check_format u) (\<lambda>_. and_then (check_format q) (\<lambda>_.
     guarded E Counter1 (puk_hashed E u) Bricked PukIncorrect
       (\<lambda>sn. and_then (write_slot_encrypted E SLOT_PIN_HASH (pin_hashed E q sn) k sn) (\<lambda>_.
         and_then (refresh_counter_batch E Counter1 PUK_MAX_RETRIES) (\<lambda>_.
           refresh_counter_batch E Counter0 PIN_MAX_RETRIES)))))"
  "set_puk E u v k = and_then (check_format u) (\<lambda>_. and_then (check_format v) (\<lambda>_.
     and_then (gets (clock_now E)) (\<lambda>now. and_then (gets (\<lambda>s. Session_is_active (session s) now)) (\<lambda>active.
       if \<not> active then return_err PinRequired
       else guarded E Counter1 (puk_hashed E u) Bricked PukIncorrect
         (\<lambda>sn. and_then (write_slot_encrypted E SLOT_PUK_HASH (puk_hashed E v sn) k sn) (\<lambda>_.
           and_then (refresh_counter_batch E Counter1 PUK_MAX_RETRIES) (\<lambda>_. touch_session now)))))))"
  unfolding verify_pin_def set_pin_def unblock_pin_def set_puk_def guarded_def pin_hashed_def puk_hashed_def
    Let_def counter_slot.simps counter_batch.simps
  by (rule refl)+

text \<open>
  What happens to a token whose holder knows neither code: any methods with any arguments,
  as long as the chip confirms no code and no emergency reset is granted, and in between
  anything that leaves the chip alone (time passes, the microcontroller is reset). The
  numbers count the PINs and PUKs that the chip has compared and rejected.
\<close>

inductive attack ::
  "('h, 'e, 'c) Env \<Rightarrow> ('h, 'c) CryptoService \<Rightarrow> nat \<Rightarrow> nat \<Rightarrow> ('h, 'c) CryptoService \<Rightarrow> bool" for E s where
  start: "attack E s 0 0 s"
| call: "attack E s (pins + of_bool (guess E oper Counter0 t = Some False))
           (puks + of_bool (guess E oper Counter1 t = Some False)) u"
    if "attack E s pins puks t" and "perform E oper t = (success, u)"
      and "\<forall>c. guess E oper c t \<noteq> Some True"
      and "\<forall>k. oper = OpEmergencyReset k \<longrightarrow> \<not> (\<exists>v. both_exhausted E t v)"
| environment: "attack E s pins puks t \<Longrightarrow> hal (atecc u) = hal (atecc t) \<Longrightarrow> attack E s pins puks u"

locale retry_service = limited_use "env_hal E" count
  for E :: "('h, 'e, 'c) Env" and count :: "CounterId \<Rightarrow> 'h \<Rightarrow> nat"
begin

abbreviation cnt :: "CounterId \<Rightarrow> ('h, 'c) CryptoService \<Rightarrow> nat" where
  "cnt c s \<equiv> count c (hal (atecc s))"

lemmas count_on_atecc = observed.keeps_svc_on_atecc

lemmas count_in_channel = observed.keeps_svc_in_channel [OF _ refl]

lemmas keeps_loops = keeps_commands(10) [THEN keeps_command_loops(1)] keeps_commands(11) [THEN keeps_command_loops(2)]
  keeps_commands(5) [THEN keeps_command_loops(3)]

lemma keeps_reads:
  "keeps (cnt c) (read_counter E c')" "keeps (cnt c) (read_whole_config E)" "keeps (cnt c) (cached_serial E)"
  "keeps (cnt c) (generate_random_puk E)" "keeps (cnt c) (write_slot_encrypted E slot p k sn)"
  "keeps (cnt c) (check_format code)"
proof -
  show w: "keeps (cnt c) (read_whole_config E)" unfolding read_whole_config_def read_config_zone_def
    by (intro count_in_channel keeps_loops)
  show "keeps (cnt c) (read_counter E c')" unfolding read_counter_def by (intro count_in_channel keeps_commands)
  show "keeps (cnt c) (cached_serial E)" unfolding cached_serial_def Let_def
    by (intro keeps_and_then keeps_gets keeps_case_option keeps_ok w keeps_modify) simp
  show "keeps (cnt c) (generate_random_puk E)" unfolding generate_random_puk_def
    by (intro keeps_and_then keeps_ok count_in_channel keeps_commands)
  show "keeps (cnt c) (write_slot_encrypted E slot p k sn)" unfolding write_slot_encrypted_def Let_def
    by (intro count_in_channel keeps_and_then keeps_commands)
  show "keeps (cnt c) (check_format code)" by simp
qed

lemma keeps_other_methods:
  "keeps (cnt c) (service_info E)" "keeps (cnt c) (get_pubkey E slot)" "keeps (cnt c) (service_genkey_create E slot)"
  "keeps (cnt c) (read_config_slot E slot)" "keeps (cnt c) (read_config_block E b)"
  "keeps (cnt c) (write_config_block E b d)" "keeps (cnt c) (service_read_slot_block E slot b)"
  "keeps (cnt c) (service_read_slot_word E slot b off)" "keeps (cnt c) (get_pin_status E)"
  "keeps (cnt c) (service_lock_config_zone E crc)" "keeps (cnt c) (service_lock_data_zone E)"
  "keeps (cnt c) (service_lock_slot E slot)" "keeps (cnt c) (provision_slot E slot v)"
  "keeps (cnt c) (service_sign E slot digest)" "keeps (cnt c) (provision_initial_puk E)"
  "keeps (cnt c) (provision_initial_pin E)" "keeps (cnt c) (provision_initial_io_key E)"
  by (auto simp: service_info_def is_provisioned_def get_pubkey_def service_genkey_create_def read_config_slot_def
      read_config_block_def write_config_block_def service_read_slot_block_def service_read_slot_word_def
      get_pin_status_def service_lock_config_zone_def service_lock_data_zone_def service_lock_slot_def
      provision_slot_def service_sign_def provision_initial_puk_def provision_initial_pin_def
      provision_initial_io_key_def touch_session_def read_slot_block_def read_slot_word_def Let_def
      intro!: keeps_intros keeps_modify count_in_channel keeps_commands keeps_loops keeps_reads)

lemma steps_on_atecc: "steps (\<lambda>a. count c (hal a)) m \<Longrightarrow> steps (cnt c) (on_atecc m)"
  by (auto simp: steps_def on_atecc_def split: prod.split) (metis snd_conv)+

lemma checkmac_steps: "steps (cnt c) (checkmac_with_hash E slot v sn)"
  unfolding checkmac_with_hash_def Let_def
  by (intro steps_on_atecc steps_later [OF observed.keeps_channel(1)] steps_later [OF keeps_commands(1)]
      steps_first steps_attempt steps_checkmac observed.keeps_channel keeps_and_then keeps_of_result)

lemma checkmac_other: "slot \<noteq> counter_slot c \<Longrightarrow> keeps (cnt c) (checkmac_with_hash E slot v sn)"
  unfolding checkmac_with_hash_def Let_def
  by (intro count_on_atecc keeps_and_then observed.keeps_channel keeps_attempt keeps_of_result keeps_commands)

lemma checkmac_mismatch:
  assumes "checkmac_with_hash E (counter_slot c) v sn s = (Inr False, t)"
  shows "cnt c t = Suc (cnt c s)"
proof -
  let ?H = "env_hal E"
  from assms obtain a1 a2 a3 a4 ch resp od where
    "open_channel ?H (atecc s) = (Inr (), a1)" "random ?H a1 = (Inr ch, a2)"
    "checkmac ?H (counter_slot c) ch resp od a2 = (Inr False, a3)"
    "close ?H a3 = (Inr (), a4)" "t = s\<lparr>atecc := a4\<rparr>"
    by (auto simp: checkmac_with_hash_def on_atecc_def Let_def and_then_eq_Inr attempt_eq_Inr of_result_def
        map_sum_eq_Inr split: prod.splits)
  with keepsE [OF observed.keeps_channel(1)] keepsE [OF observed.keeps_channel(2)] keepsE [OF keeps_commands(1)] mismatch
  show ?thesis by fastforce
qed

lemma read_counter_Inr:
  assumes "read_counter E c s = (Inr v, t)"
  shows "unat v = cnt c s"
proof -
  let ?H = "env_hal E"
  from assms obtain a1 a2 where "open_channel ?H (atecc s) = (Inr (), a1)" "counter_read ?H c a1 = (Inr v, a2)"
    by (auto simp: read_counter_def in_channel_def on_atecc_def and_then_eq_Inr return_ok_def map_sum_eq_Inr
        split: prod.splits)
  with keepsE [OF observed.keeps_channel(1)] reading show ?thesis by fastforce
qed

lemma compared_counts:
  assumes "checkmac_with_hash E (counter_slot c) hash sn s = (r, t)"
  shows "cnt c t \<in> {cnt c s, Suc (cnt c s)}" and "c' \<noteq> c \<Longrightarrow> cnt c' t = cnt c' s"
proof -
  show "cnt c t \<in> {cnt c s, Suc (cnt c s)}" using stepsE [OF checkmac_steps assms] .
  assume "c' \<noteq> c"
  then have "counter_slot c \<noteq> counter_slot c'"
    by (cases c; cases c') (simp_all add: SLOT_PIN_HASH_def SLOT_PUK_HASH_def)
  from keepsE [OF checkmac_other [OF this] assms] show "cnt c' t = cnt c' s" .
qed

lemma guarded_cases:
  assumes "verdict_on E c hash s \<noteq> Some True" and "guarded E c hash blocked wrong rest s = (r, t)"
  shows "(c' \<noteq> c \<longrightarrow> cnt c' t = cnt c' s) \<and>
    left c (cnt c t) + of_bool (verdict_on E c hash s = Some False) \<le> left c (cnt c s)"
proof -
  obtain rn s1 where n: "read_counter E c s = (rn, s1)" by fastforce
  have k1: "cnt d s1 = cnt d s" for d using keepsE [OF keeps_reads(1) n] .
  show ?thesis
  proof (cases "isl rn \<or> retries_remaining (projr rn) (counter_batch c) = 0")
    case True
    with assms(2) n have "t = s1" by (cases rn) (auto simp: guarded_def and_then_def return_err_def)
    with True n k1 show ?thesis by (cases rn) (auto simp: verdict_on_def)
  next
    case False
    then obtain v where v: "rn = Inr v" "retries_remaining v (counter_batch c) \<noteq> 0" by (cases rn) auto
    have l: "left c (cnt c s) \<noteq> 0"
      using v(2) read_counter_Inr [of c s v s1] n v(1) retries_left [of v c] by (simp add: word_unat_eq_iff)
    obtain rs s2 where sn: "cached_serial E s1 = (rs, s2)" by fastforce
    have k2: "cnt d s2 = cnt d s" for d using keepsE [OF keeps_reads(3) sn] k1 by simp
    show ?thesis
    proof (cases rs)
      case (Inl e)
      with assms(2) n v sn have "t = s2" by (simp add: guarded_def and_then_def)
      with k2 n v sn Inl show ?thesis by (simp add: verdict_on_def)
    next
      case (Inr x)
      obtain rv s3 where m: "checkmac_with_hash E (counter_slot c) (hash x) x s2 = (rv, s3)" by fastforce
      note st = compared_counts(1) [OF m, unfolded k2] and ot = compared_counts(2) [OF m, unfolded k2]
      have vd: "verdict_on E c hash s = (case rv of Inl _ \<Rightarrow> None | Inr b \<Rightarrow> Some b)"
        using n v sn Inr m by (simp add: verdict_on_def)
      show ?thesis
      proof (cases rv)
        case (Inl e)
        with assms(2) n v sn Inr m have "t = s3" by (simp add: guarded_def and_then_def)
        with Inl vd st ot left_Suc [OF l] show ?thesis by auto
      next
        case (Inr b)
        with vd assms(1) have b: "\<not> b" by simp
        with assms(2) n v sn \<open>rs = Inr x\<close> m Inr have "t = snd (read_counter E c s3)"
          by (auto simp: guarded_def and_then_def return_err_def split: prod.splits sum.splits)
        then have "cnt d t = cnt d s3" for d using keepsD [OF keeps_reads(1)] by simp
        with b Inr vd ot left_Suc [OF l] checkmac_mismatch [of c "hash x" x s2 s3] m k2 show ?thesis by simp
      qed
    qed
  qed
qed

text \<open>A call in which the chip confirms no code and whose emergency reset is not granted.\<close>

lemma reset_refused_keeps:
  assumes "\<not> (\<exists>u. both_exhausted E s u)" and "emergency_reset E k s = (r, t)"
  shows "cnt c t = cnt c s"
proof -
  obtain r0 s1 where r0: "read_counter E Counter0 s = (r0, s1)" by fastforce
  obtain r1 s2 where r1: "read_counter E Counter1 s1 = (r1, s2)" by fastforce
  from assms r0 r1 have "t = s1 \<or> t = s2"
    by (auto simp: both_exhausted_def emergency_reset_def and_then_def return_err_def Let_def
        split: sum.splits if_splits)
  with keepsE [OF keeps_reads(1) r0, of c] keepsE [OF keeps_reads(1) r1, of c] show ?thesis by auto
qed

lemma outcome_keeps_left:
  "keeps (cnt c) m \<Longrightarrow> outcome m s = (success, t) \<Longrightarrow> left c (cnt c t) \<le> left c (cnt c s)"
  by (auto simp: outcome_eq dest!: keepsE)

lemmas outcome_keeps_lefts = keeps_other_methods [THEN outcome_keeps_left] keeps_reads(1) [THEN outcome_keeps_left]

lemma guarded_left:
  assumes "outcome (guarded E d hash blocked wrong rest) s = (success, t)" and "verdict_on E d hash s \<noteq> Some True"
  shows "left c (cnt c t) + of_bool (c = d \<and> verdict_on E d hash s = Some False) \<le> left c (cnt c s)"
  using assms guarded_cases [OF assms(2), of blocked wrong rest _ t c] by (cases "c = d") (auto simp: outcome_eq)

lemma presented_left:
  assumes "perform E oper s = (if ok then outcome (guarded E d hash blocked wrong rest) s else (False, s))"
    and "\<forall>c. guess E oper c s = (if c = d \<and> ok then verdict_on E d hash s else None)"
    and "perform E oper s = (success, t)" and "\<And>d. guess E oper d s \<noteq> Some True"
  shows "left c (cnt c t) + of_bool (guess E oper c s = Some False) \<le> left c (cnt c s)"
proof (cases ok)
  case True
  with assms(2) assms(4) [of d] have "verdict_on E d hash s \<noteq> Some True" by simp
  with True assms(1-3) guarded_left [of d hash blocked wrong rest s success t c] show ?thesis by auto
next
  case False
  with assms show ?thesis by simp
qed

lemma perform_left:
  assumes "perform E oper s = (success, t)" and "\<And>d. guess E oper d s \<noteq> Some True"
    and "\<And>k. oper = OpEmergencyReset k \<Longrightarrow> \<not> (\<exists>u. both_exhausted E s u)"
  shows "left c (cnt c t) + of_bool (guess E oper c s = Some False) \<le> left c (cnt c s)"
proof (cases oper)
  case (OpVerifyPin p)
  show ?thesis by (rule presented_left [where d = Counter0, OF _ _ assms(1,2)])
      (unfold OpVerifyPin perform.simps guarded_methods check_format_then, rule refl, simp add: all_CounterId)
next
  case (OpSetPin p q k)
  show ?thesis by (rule presented_left [where d = Counter0, OF _ _ assms(1,2)])
      (unfold OpSetPin perform.simps guarded_methods check_format_then if_conj, rule refl, simp add: all_CounterId)
next
  case (OpUnblockPin u q k)
  show ?thesis by (rule presented_left [where d = Counter1, OF _ _ assms(1,2)])
      (unfold OpUnblockPin perform.simps guarded_methods check_format_then if_conj, rule refl, simp add: all_CounterId)
next
  case (OpSetPuk u q k)
  show ?thesis by (rule presented_left [where d = Counter1, OF _ _ assms(1,2)])
      (unfold OpSetPuk perform.simps guarded_methods check_format_then in_session_then if_conj, rule refl,
       simp add: all_CounterId)
next
  case (OpEmergencyReset k)
  with assms(1) obtain r where "emergency_reset E k s = (r, t)" by (auto simp: outcome_eq)
  from reset_refused_keeps [OF assms(3) [OF OpEmergencyReset] this] OpEmergencyReset show ?thesis by (cases c) simp_all
next
  case OpCloseSession
  with assms(1) show ?thesis by (cases c) (auto simp: close_session_def)
qed (insert assms(1), (cases c; simp; erule outcome_keeps_lefts))+

lemma attack_left:
  assumes "attack E s pins puks t"
  shows "left Counter0 (cnt Counter0 t) + pins \<le> left Counter0 (cnt Counter0 s)"
    and "left Counter1 (cnt Counter1 t) + puks \<le> left Counter1 (cnt Counter1 s)"
  using assms
proof (induction rule: attack.induct)
  case (call pins puks t oper success u)
  have "left c (cnt c u) + of_bool (guess E oper c t = Some False) \<le> left c (cnt c t)" for c
    using call.hyps by (intro perform_left) auto
  from this [of Counter0] this [of Counter1] call.IH
  show "left Counter0 (cnt Counter0 u) + (pins + of_bool (guess E oper Counter0 t = Some False))
      \<le> left Counter0 (cnt Counter0 s)"
    and "left Counter1 (cnt Counter1 u) + (puks + of_bool (guess E oper Counter1 t = Some False))
      \<le> left Counter1 (cnt Counter1 s)" by linarith+
qed simp_all

end

section \<open>The contract on the simulated chip\<close>

definition counted :: "CounterId \<Rightarrow> soft_chip \<Rightarrow> nat" where
  "counted c s = unat (counts s c)"

lemma counted_update [simp]:
  "counted c (s\<lparr>pending := bs\<rparr>) = counted c s" "counted c (s\<lparr>temp_key := k\<rparr>) = counted c s"
  "counted c (s\<lparr>store := f\<rparr>) = counted c s"
  by (simp_all add: counted_def)

lemma counted_answered [simp]: "counted c (hal (answered_by s h)) = counted c h"
  by (simp add: answered_by_def)

lemma counted_advance:
  "counted c (snd (advance d reply s)) = (if c = d \<and> counts s c < COUNTER_LIMIT then Suc (counted c s) else counted c s)"
proof -
  have "v < COUNTER_LIMIT \<Longrightarrow> unat (v + 1) = Suc (unat v)" for v :: u32
    by (simp add: unat_word_ariths word_less_nat_alt COUNTER_LIMIT_def)
  then show ?thesis by (simp add: counted_def advance_def)
qed

lemma slot_param2_counter: "slot_param2 SLOT_PIN_HASH = 5" "slot_param2 SLOT_PUK_HASH = 6"
  by (simp_all add: slot_param2_def SLOT_PIN_HASH_def SLOT_PUK_HASH_def)

lemma counted_exec:
  fixes sha :: hash and op p1 :: u8 and p2 :: u16 and data :: bytes and s :: soft_chip and c :: CounterId
  defines "s' \<equiv> snd (soft_exec sha op p1 p2 data s)"
    and "loud \<equiv> op = OP_CHECKMAC \<and> p2 = slot_param2 (counter_slot c) \<or>
      op = OP_COUNTER \<and> p1 = COUNTER_MODE_INCREMENT \<and> p2 = counter_as_param2 c"
  shows "counted c s' \<in> {counted c s, Suc (counted c s)} \<and> (\<not> loud \<longrightarrow> counted c s' = counted c s)"
proof -
  consider (counter) "op = OP_COUNTER" | (checkmac) "op = OP_CHECKMAC" | (other) "op \<noteq> OP_COUNTER" "op \<noteq> OP_CHECKMAC"
    by blast
  then show ?thesis
  proof cases
    case counter
    then have "s' = snd (case named_counter p2 of None \<Rightarrow> ([0x03], s)
        | Some c \<Rightarrow> if p1 = COUNTER_MODE_INCREMENT then advance c u32_to_le_bytes s else (u32_to_le_bytes (counts s c), s))"
      by (simp add: s'_def soft_exec_def opcode_defs)
    with counter show ?thesis
      by (cases c) (simp_all add: loud_def named_counter_def counted_advance)
  next
    case checkmac
    then have "s' = snd (soft_checkmac sha p2 data s)" by (simp add: s'_def soft_exec_def opcode_defs)
    with checkmac show ?thesis
      by (cases c) (simp_all add: loud_def soft_checkmac_def bound_counter_def counted_advance slot_param2_counter)
  next
    case other
    then have "counted c s' = counted c s"
      by (simp add: s'_def soft_exec_def soft_data_write_def Let_def)
    then show ?thesis by simp
  qed
qed

lemma counted_write:
  "counted c (snd (soft_write sha addr wire s)) \<in> {counted c s, Suc (counted c s)}"
  "\<not> advances c wire \<Longrightarrow> counted c (snd (soft_write sha addr wire s)) = counted c s"
  using counted_exec [where c = c and sha = sha and s = s and op = "wire ! 2" and ?p1.0 = "wire ! 3" and
      ?p2.0 = "u16_from_le_bytes (wire ! 4) (wire ! 5)" and data = "slice wire 6 (length wire - 2)"]
  by (auto simp: soft_write_def advances_def case_prod_beta)

lemma soft_mismatch:
  assumes "checkmac (soft_hal sha) (counter_slot c) ch resp od s = (Inr False, t)"
  shows "counted c (hal t) = Suc (counted c (hal s))"
proof -
  obtain data where r: "run_command (soft_hal sha) OP_CHECKMAC CHECKMAC_MODE_CHALLENGE (slot_param2 (counter_slot c)) data
      EXEC_TIME_CHECKMAC_MS (replicate 4 0) s = (Inr (4, response_frame [1]), t)"
    using assms by (auto simp: checkmac_def Let_def status_verdict)
  then have l: "length data \<le> 155" by (cases "length data \<le> 155") (simp_all add: run_command_too_long)
  have b: "bound_counter (slot_param2 (counter_slot c)) = Some c"
    by (cases c) (simp_all add: slot_param2_counter bound_counter_def)
  from r [unfolded soft_checkmac_run [OF l]] counted_advance [of c c "\<lambda>_. [1]" "hal s"] show ?thesis
    by (auto simp: soft_checkmac_def b advance_def response_frame_inject split: if_splits)
qed

definition soft_env :: "hash \<Rightarrow> (soft_chip, unit, u64) Env" where
  "soft_env sha = \<lparr>env_hal = soft_hal sha, now_ms = (\<lambda>c h. c), sha256 = sha\<rparr>"

lemma soft_env_sel [simp]: "env_hal (soft_env sha) = soft_hal sha" "sha256 (soft_env sha) = sha" "now_ms (soft_env sha) c h = c"
  by (simp_all add: soft_env_def)

interpretation counting: retry_service "soft_env sha" counted for sha
proof unfold_locales
  fix c addr wire h s v t
  show "counter_read (env_hal (soft_env sha)) c s = (Inr v, t) \<Longrightarrow> unat v = counted c (hal s)"
    by (simp add: soft_counter_read counted_def)
  show "counted c (snd (i2c_write (env_hal (soft_env sha)) addr wire h)) \<in> {counted c h, Suc (counted c h)}"
    using counted_write(1) by simp
qed (simp_all add: counted_write(2) soft_mismatch)

section \<open>Properties\<close>

text \<open>
  The number of guesses is limited. Let the chip be locked and keep its contract: a counter changes by
  CheckMac on its slot and by its own increment only, by one, reading it returns it, and a
  CheckMac that reports a mismatch has advanced it. From any state, whatever methods are
  called with whatever arguments, and however often the microcontroller is restarted in
  between: as long as the chip has confirmed no code and no emergency reset was granted, the
  PINs and PUKs it has compared and rejected, added to the attempts left, do not exceed the
  attempts left at the start. So at most 5 wrong PINs and at most 10 wrong PUKs reach the
  chip, and no method gives an attempt back.
\<close>

theorem guesses_are_limited:
  assumes "limited_use (env_hal E) count" and "attack E s pins puks t"
  shows "pins + left Counter0 (count Counter0 (hal (atecc t))) \<le> left Counter0 (count Counter0 (hal (atecc s))) \<and>
    puks + left Counter1 (count Counter1 (hal (atecc t))) \<le> left Counter1 (count Counter1 (hal (atecc s))) \<and>
    pins \<le> 5 \<and> puks \<le> 10"
proof -
  from assms(1) have "retry_service E count" by (rule retry_service.intro)
  from retry_service.attack_left [OF this assms(2)] left_bound show ?thesis by (metis add.commute add_leD1 order_trans)
qed

text \<open>A token whose PIN slot holds the hash of 0000, under a hash that adds up the bytes.\<close>

definition sum_hash :: hash where
  "sum_hash m = replicate 32 (sum_list m)"

definition fresh_token :: "(soft_chip, u64) CryptoService" where
  "fresh_token =
     (CryptoService_new (Atecc_new \<lparr>counts = (\<lambda>_. 0),
        store = (\<lambda>slot. if slot = SLOT_PIN_HASH then pin_hash sum_hash PIN_DEFAULT (pin_salt sum_hash soft_serial)
                         else replicate 32 0),
        temp_key = [], pending = []\<rparr>) 0)\<lparr>serial := Some soft_serial\<rparr>"

definition after_wrong_pin :: "(soft_chip, u64) CryptoService" where
  "after_wrong_pin = snd (perform (soft_env sum_hash) (OpVerifyPin (ascii ''1111'')) fresh_token)"

lemma fresh_token_reads:
  "read_counter (soft_env sum_hash) c fresh_token = (Inr 0, fresh_token)"
  "cached_serial (soft_env sum_hash) fresh_token = (Inr soft_serial, fresh_token)"
  by (simp_all add: read_counter_def in_channel_def on_atecc_def and_then_def soft_counter_read soft_channel return_ok_def
      fresh_token_def CryptoService_new_def Atecc_new_def Atecc_with_address_def answered_by_def cached_serial_def gets_def)

lemma fresh_token_rejects:
  "fst (checkmac_with_hash (soft_env sum_hash) SLOT_PIN_HASH (pin_hashed (soft_env sum_hash) (ascii ''1111'') soft_serial)
     soft_serial fresh_token) = Inr False"
proof -
  let ?a = "answered_by (atecc fresh_token) (hal (atecc fresh_token))" and ?od = "checkmac_other_data 5 soft_serial"
    and ?v = "pin_hashed (soft_env sum_hash) (ascii ''1111'') soft_serial"
  let ?ch = "replicate 32 7" and ?r = "checkmac_response sum_hash ?v (replicate 32 7) ?od soft_serial"
  have ne: "?r \<noteq> chip_checkmac sum_hash soft_serial (store (hal ?a) SLOT_PIN_HASH) ?ch ?od"
    unfolding answered_by_def fresh_token_def pin_hashed_def soft_env_sel by code_simp
  have "counts (hal ?a) Counter0 < COUNTER_LIMIT"
    by (simp add: answered_by_def fresh_token_def CryptoService_new_def Atecc_new_def Atecc_with_address_def COUNTER_LIMIT_def)
  from soft_checkmac_verdict(2) [OF _ _ _ ne, of Counter0] this
  have "\<exists>t. checkmac (soft_hal sum_hash) SLOT_PIN_HASH ?ch ?r ?od ?a = (Inr False, t)"
    by (simp add: checkmac_response_def sum_hash_def bound_counter_def slot_param2_def SLOT_PIN_HASH_def del: replicate.simps)
  then show ?thesis
    by (auto simp: checkmac_with_hash_def on_atecc_def and_then_def Let_def soft_random soft_channel attempt_def
        of_result_def case_prod_beta SLOT_PIN_HASH_def answered_by_def simp del: replicate.simps)
qed

theorem guesses_are_limited_witness:
  "attack (soft_env sum_hash) fresh_token 1 0 after_wrong_pin \<and>
   1 + left Counter0 (counted Counter0 (hal (atecc after_wrong_pin))) \<le> left Counter0 (counted Counter0 (hal (atecc fresh_token)))"
proof -
  let ?E = "soft_env sum_hash" and ?p = "ascii ''1111''"
  let ?op = "OpVerifyPin ?p"
  have "verdict_on ?E Counter0 (pin_hashed ?E ?p) fresh_token = Some False"
    using fresh_token_rejects by (simp add: verdict_on_def retries_remaining_def PIN_MAX_RETRIES_def fresh_token_reads)
  moreover have "list_all is_ascii_digit ?p" by code_simp
  ultimately have g: "guess ?E ?op Counter0 fresh_token = Some False" by simp
  have "perform ?E ?op fresh_token = (fst (perform ?E ?op fresh_token), after_wrong_pin)"
    by (simp add: after_wrong_pin_def)
  from attack.call [OF attack.start this] g have a: "attack ?E fresh_token 1 0 after_wrong_pin"
    by (simp add: all_CounterId)
  from guesses_are_limited [OF counting.limited_use_axioms a] a show ?thesis by simp
qed

end
