(* ===== verification/Credential_Store.thy ===== *)
theory Credential_Store
  imports Retry_Bound
begin

text \<open>
  The PIN hash, the PUK hash and the I/O key in the chip. The service never reads these
  slots back: that a PIN which was set is the PIN that is accepted afterwards depends on the
  chip doing its part of the encrypted write and of CheckMac. The locale \<open>credential_store\<close>
  states this part, as \<^verbatim>\<open>encrypted_write.rs\<close> and \<^verbatim>\<open>pin.rs\<close> document it; under it
  the codes are followed from the method that sets them to the method that checks them.
\<close>

unbundle bit_operations_syntax

section \<open>The contract of the chip\<close>

datatype Credential = PinHash | PukHash | IoKey

fun credential_slot :: "Credential \<Rightarrow> Slot" where
  "credential_slot PinHash = SLOT_PIN_HASH"
| "credential_slot PukHash = SLOT_PUK_HASH"
| "credential_slot IoKey = SLOT_IO_KEY"

text \<open>The packets that may change the slot: a Write that addresses it in the data zone.\<close>

definition stores :: "Credential \<Rightarrow> bytes \<Rightarrow> bool" where
  "stores c wire \<longleftrightarrow>
     6 \<le> length wire \<and> wire ! 0 = WORD_ADDRESS_COMMAND \<and> wire ! 2 = OP_WRITE \<and> wire ! 3 AND 0x03 = 0x02 \<and>
     ucast (drop_bit 3 (u16_from_le_bytes (wire ! 4) (wire ! 5))) AND 0x1F = slot_as_u8 (credential_slot c)"

lemma stores_frame:
  "stores c (WORD_ADDRESS_COMMAND # command_frame op p1 p2 data) \<longleftrightarrow>
     op = OP_WRITE \<and> p1 AND 0x03 = 0x02 \<and> ucast (drop_bit 3 p2) AND 0x1F = slot_as_u8 (credential_slot c)"
  unfolding stores_def frame_fields using frame_fields(6) [of op p1 p2 data] by auto

text \<open>
  \<open>val c h\<close> is the value of a slot, \<open>temp h\<close> is TempKey. A command that may change a slot
  has changed it if it reports success, and has changed it or not if its answer is lost.
\<close>

locale credential_store =
  fixes H :: "('h, 'e) AteccHal" and sha :: hash and sn :: bytes and val :: "Credential \<Rightarrow> 'h \<Rightarrow> bytes"
    and temp :: "'h \<Rightarrow> bytes"
  assumes serial_length: "length sn = 9" and hash_length: "length (sha m) = 32"
    and quiet: "val c (snd (i2c_read H addr n h)) = val c h" "val c (snd (pulse_sda_low H us h)) = val c h"
      "val c (delay_us H us h) = val c h" "val c (delay_ms H ms h) = val c h"
    and other_packets: "\<not> stores c wire \<Longrightarrow> val c (snd (i2c_write H addr wire h)) = val c h"
    and reading: "read_config_zone H (replicate 128 0) s = (Inr z, t) \<Longrightarrow> serial_of_config z = sn"
    and nonce: "nonce_passthrough H TempKey v s = (Inr (), t) \<Longrightarrow> temp (hal t) = v"
    and digesting: "gendig H GenDigData (slot_param2 (credential_slot c)) s = (Inr (), t) \<Longrightarrow>
      temp (hal t) = chip_gendig sha sn (val c (hal s)) (slot_param2 (credential_slot c)) (temp (hal s))"
    and plain_write: "length v = 32 \<Longrightarrow> write_32 H ZoneData (data_address (credential_slot c) 0 0) v s = (r, t) \<Longrightarrow>
      val c (hal t) = v \<or> isl r \<and> val c (hal t) = val c (hal s)"
    and encrypted_write: "length p = 64 \<Longrightarrow>
      write_32_encrypted H ZoneData (data_address (credential_slot c) 0 0) p s = (r, t) \<Longrightarrow>
      drop 32 p = chip_write_mac sha sn (temp (hal s)) (data_address (credential_slot c) 0 0) (xor_bytes (take 32 p) (temp (hal s))) \<and>
        val c (hal t) = xor_bytes (take 32 p) (temp (hal s)) \<or>
      isl r \<and> val c (hal t) = val c (hal s)"
    and verdicts: "length ch = 32 \<Longrightarrow> length resp = 32 \<Longrightarrow> length od = 13 \<Longrightarrow>
      checkmac H (credential_slot c) ch resp od s = (Inr b, t) \<Longrightarrow>
      b \<longleftrightarrow> resp = chip_checkmac sha sn (val c (hal s)) ch od"

sublocale credential_store \<subseteq> held: chip_observer H "val c" "stores c" for c
  using quiet other_packets by unfold_locales (simp_all add: stores_def)

lemma credential_slots:
  "slot_as_u8 (credential_slot c) AND 0x1F = slot_as_u8 (credential_slot c)"
  "credential_slot c = credential_slot d \<longleftrightarrow> c = d"
  by (cases c; cases d; simp add: SLOT_PIN_HASH_def SLOT_PUK_HASH_def SLOT_IO_KEY_def)+

lemma write_zone_bits:
  "write_param1 ZoneConfig b e AND 0x03 = 0" "write_param1 ZoneData b e AND 0x03 = 2"
  by (simp_all add: write_param1_def PARAM1_FLAG_32_BYTES_def PARAM1_FLAG_ENCRYPTED_def)

context credential_store begin

lemma keeps_commands:
  "keeps (\<lambda>s. val c (hal s)) (random H)" "keeps (\<lambda>s. val c (hal s)) (info_revision H)"
  "keeps (\<lambda>s. val c (hal s)) (counter_read H k)" "keeps (\<lambda>s. val c (hal s)) (counter_increment H k)"
  "keeps (\<lambda>s. val c (hal s)) (gendig H gz n)" "keeps (\<lambda>s. val c (hal s)) (genkey_create H slot)"
  "keeps (\<lambda>s. val c (hal s)) (genkey_public H slot)" "keeps (\<lambda>s. val c (hal s)) (nonce_passthrough H target v)"
  "keeps (\<lambda>s. val c (hal s)) (sign_external H slot)" "keeps (\<lambda>s. val c (hal s)) (read_4 H z a)"
  "keeps (\<lambda>s. val c (hal s)) (read_32 H z a)" "keeps (\<lambda>s. val c (hal s)) (lock_config_zone H crc)"
  "keeps (\<lambda>s. val c (hal s)) (lock_data_zone H)" "keeps (\<lambda>s. val c (hal s)) (lock_slot H slot)"
  "keeps (\<lambda>s. val c (hal s)) (checkmac H slot ch r od)"
  "keeps (\<lambda>s. val c (hal s)) (write_4 H ZoneConfig a d)" "keeps (\<lambda>s. val c (hal s)) (write_32 H ZoneConfig a d)"
  by (auto simp: command_defs counter_read_def counter_increment_def opcode_defs Let_def stores_frame write_zone_bits
      intro!: keeps_and_then keeps_attempt held.keeps_execute keeps_if)

lemma keeps_other_slot:
  assumes "slot \<noteq> credential_slot c" and "slot_as_u8 slot AND 0x1F = slot_as_u8 slot"
  shows "keeps (\<lambda>s. val c (hal s)) (write_32 H ZoneData (data_address slot 0 0) d)"
    "keeps (\<lambda>s. val c (hal s)) (write_32_encrypted H ZoneData (data_address slot 0 0) d)"
proof -
  have "\<not> stores c (WORD_ADDRESS_COMMAND # command_frame OP_WRITE p1 (data_address slot 0 0) d)" for p1
    using assms by (cases slot; cases "credential_slot c") (simp add: stores_frame data_address_fields)
  then show "keeps (\<lambda>s. val c (hal s)) (write_32 H ZoneData (data_address slot 0 0) d)"
    "keeps (\<lambda>s. val c (hal s)) (write_32_encrypted H ZoneData (data_address slot 0 0) d)"
    unfolding write_32_def write_32_encrypted_def by (simp_all add: held.keeps_execute)
qed

end

section \<open>Computations that set a quantity\<close>

text \<open>
  \<open>sets_at p v m s\<close>: from \<open>s\<close>, a success leaves \<open>p\<close> at \<open>v\<close>, an error leaves it at \<open>v\<close> or as
  it was.
\<close>

definition sets_at :: "('s \<Rightarrow> 'v) \<Rightarrow> 'v \<Rightarrow> ('s, 'e, 'a) act \<Rightarrow> 's \<Rightarrow> bool" where
  "sets_at p v m s \<longleftrightarrow> (case m s of (r, t) \<Rightarrow> p t = v \<or> isl r \<and> p t = p s)"

lemma sets_atI: "(\<And>r t. m s = (r, t) \<Longrightarrow> p t = v \<or> isl r \<and> p t = p s) \<Longrightarrow> sets_at p v m s"
  by (simp add: sets_at_def split: prod.split)

lemma sets_atD: "sets_at p v m s \<Longrightarrow> m s = (r, t) \<Longrightarrow> p t = v \<or> isl r \<and> p t = p s"
  by (simp add: sets_at_def)

lemma sets_after:
  assumes "keeps p m" and "\<And>a t. m s = (Inr a, t) \<Longrightarrow> sets_at p v (f a) t"
  shows "sets_at p v (and_then m f) s"
proof -
  obtain r t where m: "m s = (r, t)" by fastforce
  with keepsE [OF assms(1)] assms(2) show ?thesis
    by (cases r) (auto simp: sets_at_def and_then_def split: prod.split)
qed

lemma sets_before:
  assumes "sets_at p v m s" and "\<And>a. keeps p (f a)"
  shows "sets_at p v (and_then m f) s"
proof (rule sets_atI)
  fix r t assume "and_then m f s = (r, t)"
  then consider e where "m s = (Inl e, t)" "isl r" | a u where "m s = (Inr a, u)" "f a u = (r, t)"
    by (auto simp: and_then_def split: prod.splits sum.splits)
  then show "p t = v \<or> isl r \<and> p t = p s"
    using sets_atD [OF assms(1)] keepsE [OF assms(2)] by cases fastforce+
qed

lemma sets_fails: "sets_at p v (return_err e) s"
  by (simp add: sets_at_def return_err_def)

lemma sets_map_err: "sets_at p v m s \<Longrightarrow> sets_at p v (map_err g m) s"
  by (auto simp: sets_at_def map_err_def split: prod.splits sum.splits)

section \<open>Which calls may change which credential\<close>

fun may_change :: "('h, 'e, 'c) Env \<Rightarrow> ServiceOp \<Rightarrow> Credential \<Rightarrow> ('h, 'c) CryptoService \<Rightarrow> bool" where
  "may_change E (OpSetPin p q k) c s \<longleftrightarrow> c = PinHash \<and> guess E (OpSetPin p q k) Counter0 s = Some True"
| "may_change E (OpUnblockPin u q k) c s \<longleftrightarrow> c = PinHash \<and> guess E (OpUnblockPin u q k) Counter1 s = Some True"
| "may_change E (OpSetPuk u v k) c s \<longleftrightarrow> c = PukHash \<and> guess E (OpSetPuk u v k) Counter1 s = Some True"
| "may_change E (OpEmergencyReset k) c s \<longleftrightarrow> c \<noteq> IoKey \<and> (\<exists>t. both_exhausted E s t)"
| "may_change E (OpProvisionSlot slot v) c s \<longleftrightarrow> slot = credential_slot c"
| "may_change E OpProvisionInitialPin c s \<longleftrightarrow> c = PinHash"
| "may_change E OpProvisionInitialPuk c s \<longleftrightarrow> c = PukHash"
| "may_change E OpProvisionInitialIoKey c s \<longleftrightarrow> c = IoKey"
| "may_change E _ c s \<longleftrightarrow> False"

text \<open>Without a confirmation of the chip, what a method does after the check does not matter.\<close>

lemma guarded_unconfirmed:
  "verdict_on E c hash s \<noteq> Some True \<Longrightarrow> guarded E c hash blocked wrong rest s = guarded E c hash blocked wrong rest' s"
  by (auto simp: guarded_def verdict_on_def and_then_def split: prod.splits sum.splits if_splits)

section \<open>Rejected codes\<close>

text \<open>The two answers that blame the code are given only on a mismatch reported by the chip.\<close>

lemma on_atecc_errors: "on_atecc m s = (Inl e, t) \<Longrightarrow> \<exists>x. e = AteccFailure x"
  by (cases "m (atecc s)") (auto simp: on_atecc_def map_sum_def split: sum.splits)

lemma cached_serial_errors: "cached_serial E s = (Inl e, t) \<Longrightarrow> \<exists>x. e = AteccFailure x"
  by (auto simp: cached_serial_def and_then_def gets_def return_ok_def modify_def Let_def read_whole_config_def in_channel_def
      split: option.splits prod.splits sum.splits dest!: on_atecc_errors)

lemma guarded_errors:
  assumes "guarded E c hash blocked wrong rest s = (Inl e, t)" and "verdict_on E c hash s \<noteq> Some False"
  shows "e = blocked \<or> (\<exists>x. e = AteccFailure x) \<or> (\<exists>x u. rest x u = (Inl e, t))"
proof -
  have r: "read_counter E c s = (Inl e, t) \<Longrightarrow> \<exists>x. e = AteccFailure x"
    by (simp add: read_counter_def in_channel_def on_atecc_errors)
  have m: "checkmac_with_hash E (counter_slot c) v x u = (Inl e, t) \<Longrightarrow> \<exists>x. e = AteccFailure x" for v x u
    by (simp add: checkmac_with_hash_def Let_def on_atecc_errors)
  show ?thesis using assms r m
    by (auto simp: guarded_def verdict_on_def and_then_def return_err_def split: prod.splits sum.splits if_splits
        dest!: cached_serial_errors)
qed

lemma rejections:
  "verify_pin E p s = (Inl (PinIncorrect n), t) \<Longrightarrow> verdict_on E Counter0 (pin_hashed E p) s = Some False"
  "unblock_pin E u q k s = (Inl (PukIncorrect n), t) \<Longrightarrow> verdict_on E Counter1 (puk_hashed E u) s = Some False"
proof -
  have c: "check_format code s = (Inl e, t) \<Longrightarrow> \<exists>x. e = InvalidFormat x" for code and s :: "('x, 'y) CryptoService" and e :: "'z CryptoServiceError" and t
    by (auto simp: check_format_def map_err_of_result of_result_def map_sum_def split: sum.splits)
  have f: "refresh_counter_batch E k b s = (Inl e, t) \<Longrightarrow> \<exists>x. e = AteccFailure x" for k b s e t
    by (simp add: refresh_counter_batch_def Let_def on_atecc_errors)
  have w: "write_slot_encrypted E slot v k x s = (Inl e, t) \<Longrightarrow> \<exists>x. e = AteccFailure x" for slot v k x s e t
    by (simp add: write_slot_encrypted_def Let_def in_channel_def on_atecc_errors)
  show "verdict_on E Counter0 (pin_hashed E p) s = Some False" if "verify_pin E p s = (Inl (PinIncorrect n), t)"
    using that unfolding guarded_methods
    by (auto simp: and_then_eq_Inl open_session_now_eq dest!: c f guarded_errors)
  show "verdict_on E Counter1 (puk_hashed E u) s = Some False" if "unblock_pin E u q k s = (Inl (PukIncorrect n), t)"
    using that unfolding guarded_methods by (auto simp: and_then_eq_Inl dest!: c f w guarded_errors)
qed

section \<open>The service on such a chip\<close>

locale credential_service = credential_store "env_hal E" "sha256 E" sn val temp
  for E :: "('h, 'e, 'c) Env" and sn :: bytes and val :: "Credential \<Rightarrow> 'h \<Rightarrow> bytes" and temp :: "'h \<Rightarrow> bytes"
begin

abbreviation held_by :: "Credential \<Rightarrow> ('h, 'c) CryptoService \<Rightarrow> bytes" where
  "held_by c s \<equiv> val c (hal (atecc s))"

lemmas held_on_atecc = held.keeps_svc_on_atecc

lemmas held_in_channel = held.keeps_svc_in_channel [OF _ refl]

lemmas keeps_loops = keeps_commands(11) [THEN keeps_command_loops(1)] keeps_commands(16) [THEN keeps_command_loops(2)]
  keeps_commands(6) [THEN keeps_command_loops(3)] keeps_command_loops(4) [OF keeps_commands(4) held.keeps_channel(2)]

lemma keeps_workflows:
  "keeps (held_by c) (read_counter E k)" "keeps (held_by c) (read_whole_config E)" "keeps (held_by c) (cached_serial E)"
  "keeps (held_by c) (generate_random_puk E)" "keeps (held_by c) (checkmac_with_hash E slot v x)"
  "keeps (held_by c) (refresh_counter_batch E k b)" "keeps (held_by c) (open_session_now E)"
  "keeps (held_by c) (touch_session now)"
proof -
  show w: "keeps (held_by c) (read_whole_config E)" unfolding read_whole_config_def read_config_zone_def
    by (intro held_in_channel keeps_loops)
  show "keeps (held_by c) (cached_serial E)" unfolding cached_serial_def Let_def
    by (intro keeps_and_then keeps_gets keeps_case_option keeps_ok w keeps_modify) simp
  show "keeps (held_by c) (read_counter E k)" "keeps (held_by c) (generate_random_puk E)"
    unfolding read_counter_def generate_random_puk_def
    by (intro keeps_and_then keeps_ok held_in_channel keeps_commands)+
  show "keeps (held_by c) (checkmac_with_hash E slot v x)" "keeps (held_by c) (refresh_counter_batch E k b)"
    unfolding checkmac_with_hash_def refresh_counter_batch_def Let_def
    by (intro held_on_atecc keeps_and_then held.keeps_channel keeps_commands keeps_attempt keeps_of_result keeps_loops)+
  show "keeps (held_by c) (open_session_now E)" "keeps (held_by c) (touch_session now)"
    unfolding open_session_now_def touch_session_def by (intro keeps_and_then keeps_gets keeps_modify, simp)+
qed

lemma keeps_methods:
  "keeps (held_by c) (service_info E)" "keeps (held_by c) (get_pubkey E slot)" "keeps (held_by c) (service_genkey_create E slot)"
  "keeps (held_by c) (read_config_slot E slot)" "keeps (held_by c) (read_config_block E b)"
  "keeps (held_by c) (write_config_block E b d)" "keeps (held_by c) (service_read_slot_block E slot b)"
  "keeps (held_by c) (service_read_slot_word E slot b off)" "keeps (held_by c) (get_pin_status E)"
  "keeps (held_by c) (service_lock_config_zone E crc)" "keeps (held_by c) (service_lock_data_zone E)"
  "keeps (held_by c) (service_lock_slot E slot)" "keeps (held_by c) (service_sign E slot digest)"
  "keeps (held_by c) (verify_pin E pin)"
  unfolding service_info_def is_provisioned_def get_pubkey_def service_genkey_create_def read_config_slot_def
    read_config_block_def write_config_block_def service_read_slot_block_def service_read_slot_word_def
    get_pin_status_def service_lock_config_zone_def service_lock_data_zone_def service_lock_slot_def
    service_sign_def read_slot_block_def read_slot_word_def verify_pin_def Let_def
  by (intro keeps_intros keeps_check_format held_in_channel keeps_commands keeps_loops keeps_workflows)+

text \<open>The service knows the serial number of the chip, or will read it.\<close>

definition knows_serial :: "('h, 'c) CryptoService \<Rightarrow> bool" where
  "knows_serial s \<longleftrightarrow> serial s \<in> {None, Some sn}"

lemma cached_serial_value:
  assumes "knows_serial s" and "cached_serial E s = (Inr x, t)"
  shows "x = sn"
proof (cases "serial s")
  case None
  with assms(2) obtain z u where "read_whole_config E s = (Inr z, u)" "x = serial_of_config z"
    by (auto simp: cached_serial_def and_then_eq_Inr gets_def return_ok_def modify_def Let_def)
  then show ?thesis by (auto simp: read_whole_config_def in_channel_Inr dest: reading)
next
  case (Some y)
  with assms show ?thesis by (auto simp: cached_serial_def and_then_def gets_def return_ok_def knows_serial_def)
qed

lemma sets_on_atecc: "sets_at (\<lambda>a. val c (hal a)) v m (atecc s) \<Longrightarrow> sets_at (held_by c) v (on_atecc m) s"
  by (auto simp: sets_at_def on_atecc_def map_sum_def split: prod.splits sum.splits)

lemma sets_in_channel:
  assumes "\<And>a. open_channel (env_hal E) (atecc s) = (Inr (), a) \<Longrightarrow> sets_at (\<lambda>a. val c (hal a)) v m a"
  shows "sets_at (held_by c) v (in_channel E m) s"
  unfolding in_channel_def
  by (intro sets_on_atecc sets_after [OF held.keeps_channel(1)] sets_before keeps_and_then held.keeps_channel keeps_ok)
    (auto intro: assms)

text \<open>The encrypted write: with the key of the chip, the value of the slot becomes the plaintext.\<close>

lemma encrypted_value:
  fixes c :: Credential
  assumes "length v = 32" and "temp (hal a) = derive_session_key (sha256 E) k n i sn"
  defines "p \<equiv> build_encrypted_write_payload (encrypt_payload v (temp (hal a)))
      (write_mac (sha256 E) (temp (hal a)) v (credential_slot c) 0 sn)"
  shows "sets_at (\<lambda>a. val c (hal a)) v (write_32_encrypted (env_hal E) ZoneData (data_address (credential_slot c) 0 0) p) a"
proof -
  have l: "length (temp (hal a)) = 32" "length (write_mac (sha256 E) (temp (hal a)) v (credential_slot c) 0 sn) = 32"
    using assms(2) by (simp_all add: derive_session_key_def write_mac_def hash_length Let_def)
  then have p: "p = encrypt_payload v (temp (hal a)) @ write_mac (sha256 E) (temp (hal a)) v (credential_slot c) 0 sn"
    unfolding p_def using assms(1) by (intro build_payload_eq) simp_all
  have "length p = 64" "xor_bytes (take 32 p) (temp (hal a)) = v"
    using p l assms(1) encrypt_payload_involutive [of v "temp (hal a)"] by (simp_all add: xor_bytes_encrypt)
  then show ?thesis by (intro sets_atI) (drule encrypted_write, auto)
qed

lemma slot_param2_io: "ucast (slot_as_u8 SLOT_IO_KEY) = slot_param2 (credential_slot IoKey)"
  by (simp add: slot_param2_def)

lemma sets_encrypted:
  assumes "length v = 32" and "k = held_by IoKey s"
  shows "sets_at (held_by c) v (write_slot_encrypted E (credential_slot c) v k sn) s"
  unfolding write_slot_encrypted_def Let_def slot_param2_io
proof (intro sets_in_channel sets_after keeps_commands)
  fix a n a1 a2 a3 and u1 u2 :: unit
  assume o: "open_channel (env_hal E) (atecc s) = (Inr (), a)" and r: "random (env_hal E) a = (Inr n, a1)"
    and nn: "nonce_passthrough (env_hal E) TempKey n a1 = (Inr u1, a2)"
    and g: "gendig (env_hal E) GenDigData (slot_param2 (credential_slot IoKey)) a2 = (Inr u2, a3)"
  have "val IoKey (hal a2) = k"
    using keepsE [OF held.keeps_channel(1) o] keepsE [OF keeps_commands(1) r] keepsE [OF keeps_commands(8) nn] assms(2)
    by metis
  moreover have "temp (hal a2) = n" using nonce nn by simp
  ultimately have "temp (hal a3) = derive_session_key (sha256 E) k n (slot_as_u8 SLOT_IO_KEY) sn"
    using digesting [of IoKey a2 a3] g host_digests(1) [OF serial_length, of "sha256 E" k n "slot_as_u8 SLOT_IO_KEY"]
    by (simp add: slot_param2_io)
  from encrypted_value [OF assms(1) this]
  show "sets_at (\<lambda>a. val c (hal a)) v (write_32_encrypted (env_hal E) ZoneData (data_address (credential_slot c) 0 0)
     (build_encrypted_write_payload
       (encrypt_payload v (derive_session_key (sha256 E) k n (slot_as_u8 SLOT_IO_KEY) sn))
       (write_mac (sha256 E) (derive_session_key (sha256 E) k n (slot_as_u8 SLOT_IO_KEY) sn) v (credential_slot c) 0 sn))) a3"
    using \<open>temp (hal a3) = _\<close> by simp
qed

lemma keeps_encrypted: "d \<noteq> c \<Longrightarrow> keeps (held_by d) (write_slot_encrypted E (credential_slot c) v k x)"
  unfolding write_slot_encrypted_def Let_def
  by (intro held_in_channel keeps_and_then keeps_commands keeps_other_slot) (simp_all add: credential_slots)

text \<open>The check that precedes a change: the serial number in it is the one of the chip.\<close>

lemma knows_serial_kept: "keeps serial m \<Longrightarrow> m s = (r, t) \<Longrightarrow> knows_serial t \<longleftrightarrow> knows_serial s"
  by (auto simp: knows_serial_def dest: keepsE)

lemma sets_guarded:
  assumes "knows_serial s" and "\<And>u. (\<And>d. held_by d u = held_by d s) \<Longrightarrow> sets_at (held_by c) v (rest sn) u"
  shows "sets_at (held_by c) v (guarded E k hash blocked wrong rest) s"
  unfolding guarded_def
proof (rule sets_after [OF keeps_workflows(1)])
  fix n s1 assume n: "read_counter E k s = (Inr n, s1)"
  have "keeps serial (read_counter E k)" by (simp add: read_counter_def)
  from knows_serial_kept [OF this n] assms(1) have k1: "knows_serial s1" by simp
  show "sets_at (held_by c) v (if retries_remaining n (counter_batch k) = 0 then return_err blocked
      else and_then (cached_serial E) (\<lambda>x. and_then (checkmac_with_hash E (counter_slot k) (hash x) x) (\<lambda>verified.
        if \<not> verified then and_then (read_counter E k) (\<lambda>m. return_err (wrong (retries_remaining m (counter_batch k))))
        else rest x))) s1" (is "sets_at _ _ (if ?z then _ else ?m) _")
  proof (cases ?z)
    case False
    have "sets_at (held_by c) v ?m s1"
    proof (rule sets_after [OF keeps_workflows(3)], rule sets_after [OF keeps_workflows(5)])
      fix x s2 b s3
      assume x: "cached_serial E s1 = (Inr x, s2)" and m: "checkmac_with_hash E (counter_slot k) (hash x) x s2 = (Inr b, s3)"
      have "held_by d s3 = held_by d s" for d
        using keepsE [OF keeps_workflows(1) n] keepsE [OF keeps_workflows(3) x] keepsE [OF keeps_workflows(5) m] by metis
      moreover have "x = sn" using cached_serial_value [OF k1 x] .
      ultimately show "sets_at (held_by c) v (if \<not> b then and_then (read_counter E k) (\<lambda>m. return_err (wrong (retries_remaining m (counter_batch k))))
          else rest x) s3" using assms(2) by (simp add: sets_after [OF keeps_workflows(1) sets_fails])
    qed
    with False show ?thesis by simp
  qed (simp add: sets_fails)
qed

lemma sets_checked:
  "sets_at p v m s \<Longrightarrow> sets_at p v (and_then (check_format code) (\<lambda>_. m)) s"
  by (rule sets_after [OF keeps_check_format]) simp

lemma hashed_length [simp]: "length (pin_hashed E p x) = 32" "length (puk_hashed E p x) = 32"
  by (simp_all add: pin_hashed_def puk_hashed_def pin_hash_def puk_hash_def hash_length)

lemmas sets_encrypted_pin = sets_encrypted [where c = PinHash, simplified]

lemmas sets_encrypted_puk = sets_encrypted [where c = PukHash, simplified]

lemma sets_coded_methods:
  assumes "knows_serial s" and "k = held_by IoKey s"
  shows "sets_at (held_by PinHash) (pin_hashed E q sn) (set_pin E p q k) s"
    "sets_at (held_by PinHash) (pin_hashed E q sn) (unblock_pin E p q k) s"
    "sets_at (held_by PukHash) (puk_hashed E q sn) (set_puk E p q k) s"
proof -
  show "sets_at (held_by PinHash) (pin_hashed E q sn) (set_pin E p q k) s"
    "sets_at (held_by PinHash) (pin_hashed E q sn) (unblock_pin E p q k) s"
    unfolding guarded_methods
    by (intro sets_checked sets_guarded assms(1) sets_before sets_encrypted_pin keeps_and_then keeps_workflows; simp add: assms(2))+
  have g: "m s = (Inr a, t) \<Longrightarrow> t = s" if "m = gets f" for m f a t using that by (auto simp: gets_def)
  show "sets_at (held_by PukHash) (puk_hashed E q sn) (set_puk E p q k) s"
    unfolding guarded_methods
    by (intro sets_checked, rule sets_after [OF keeps_gets], drule g [OF refl], hypsubst, rule sets_after [OF keeps_gets],
        drule g [OF refl], hypsubst, simp add: sets_fails, intro impI sets_guarded assms(1) sets_before sets_encrypted_puk
        keeps_and_then keeps_workflows; simp add: assms(2))
qed

lemma sets_provision_slot:
  assumes "length v = 32"
  shows "sets_at (held_by c) v (provision_slot E (credential_slot c) v) s"
proof -
  have "sets_at (\<lambda>a. val c (hal a)) v (write_32 (env_hal E) ZoneData (data_address (credential_slot c) 0 0) v) a" for a
    using plain_write [OF assms] by (intro sets_atI)
  then have "sets_at (held_by c) v (in_channel E (write_32 (env_hal E) ZoneData (data_address (credential_slot c) 0 0) v)) s"
    by (intro sets_in_channel)
  then show ?thesis by (cases c) (simp_all add: provision_slot_def)
qed

lemma keeps_provision_slot: "credential_slot d \<noteq> slot \<Longrightarrow> keeps (held_by d) (provision_slot E slot v)"
proof -
  assume d: "credential_slot d \<noteq> slot"
  show ?thesis
  proof (cases "\<exists>c. slot = credential_slot c")
    case True
    with d have "keeps (\<lambda>s. val d (hal s)) (write_32 (env_hal E) ZoneData (data_address slot 0 0) v)"
      by (intro keeps_other_slot) (auto simp: credential_slots)
    then show ?thesis unfolding provision_slot_def Let_def by (intro keeps_if keeps_err held_in_channel)
  next
    case False
    then have "slot \<noteq> SLOT_PIN_HASH" "slot \<noteq> SLOT_PUK_HASH" "slot \<noteq> SLOT_IO_KEY"
      by (metis credential_slot.simps)+
    then show ?thesis by (simp add: provision_slot_def keeps_err)
  qed
qed

text \<open>The three provisioning methods and the emergency reset.\<close>

lemma sets_initial_pin:
  "knows_serial s \<Longrightarrow> sets_at (held_by PinHash) (pin_hashed E PIN_DEFAULT sn) (provision_initial_pin E) s"
  unfolding provision_initial_pin_def pin_hashed_def [symmetric]
  by (rule sets_after [OF keeps_workflows(3)], drule (1) cached_serial_value)
    (use sets_provision_slot [where c = PinHash] in \<open>simp add: hash_length\<close>)

lemma initial_puk_held:
  assumes "knows_serial s" and "provision_initial_puk E s = (Inr puk, t)"
  shows "held_by PukHash t = puk_hashed E puk sn"
proof -
  from assms(2) obtain x s1 s2 where x: "cached_serial E s = (Inr x, s1)"
    and p: "provision_slot E SLOT_PUK_HASH (puk_hashed E puk x) s2 = (Inr (), t)"
    by (auto simp: provision_initial_puk_def and_then_eq_Inr return_ok_def puk_hashed_def)
  from sets_atD [OF sets_provision_slot [where c = PukHash] p [folded credential_slot.simps]] cached_serial_value [OF assms(1) x]
  show ?thesis by simp
qed

lemma initial_io_key_held:
  assumes "provision_initial_io_key E s = (Inr key, t)"
  shows "held_by IoKey t = key"
proof -
  from assms obtain s1 where k: "in_channel E (random (env_hal E)) s = (Inr key, s1)"
    and p: "provision_slot E SLOT_IO_KEY key s1 = (Inr (), t)"
    by (auto simp: provision_initial_io_key_def and_then_eq_Inr return_ok_def)
  have "length key = 32" by (rule sized_in_channel [OF random_reply.sized_reply_axioms k])
  from sets_atD [OF sets_provision_slot [where c = IoKey, OF this] p [folded credential_slot.simps]] show ?thesis by simp
qed

lemma reset_held:
  assumes "knows_serial s" and "k = held_by IoKey s" and "emergency_reset E k s = (Inr puk, t)"
  shows "held_by PinHash t = pin_hashed E PIN_DEFAULT sn" "held_by PukHash t = puk_hashed E puk sn"
proof -
  from assms(3) obtain c0 s1 c1 s2 x s3 s4 s5 s6 s7 s8 where
    r: "read_counter E Counter0 s = (Inr c0, s1)" "read_counter E Counter1 s1 = (Inr c1, s2)"
    and x: "cached_serial E s2 = (Inr x, s3)"
    and g: "in_channel E (regenerate_keys (env_hal E) [0, 1, 2, 3, 4, 7]) s3 = (Inr (), s4)"
    and u: "generate_random_puk E s4 = (Inr puk, s5)"
    and w: "write_slot_encrypted E (credential_slot PukHash) (puk_hashed E puk x) k x s5 = (Inr (), s6)"
    and f: "refresh_counter_batch E Counter1 PUK_MAX_RETRIES s6 = (Inr (), s7)"
    and v: "write_slot_encrypted E (credential_slot PinHash) (pin_hashed E PIN_DEFAULT x) k x s7 = (Inr (), s8)"
    and f': "refresh_counter_batch E Counter0 PIN_MAX_RETRIES s8 = (Inr (), t)"
    by (auto simp: emergency_reset_def and_then_eq_Inr return_ok_def Let_def pin_hashed_def puk_hashed_def split: if_splits)
  have ks: "keeps serial (read_counter E c)" for c by (simp add: read_counter_def)
  have "x = sn" using cached_serial_value [OF _ x] assms(1) knows_serial_kept [OF ks r(1)] knows_serial_kept [OF ks r(2)] by simp
  note keep = keepsE [OF keeps_workflows(1) r(1)] keepsE [OF keeps_workflows(1) r(2)] keepsE [OF keeps_workflows(3) x]
    keepsE [OF held_in_channel(1) [OF keeps_loops(3)] g] keepsE [OF keeps_workflows(4) u]
  have io: "k = held_by IoKey s5" using keep [of IoKey] assms(2) by simp
  have io': "k = held_by IoKey s7"
    using io keepsE [OF keeps_encrypted w, of IoKey] keepsE [OF keeps_workflows(6) f, of IoKey] by simp
  from sets_atD [OF sets_encrypted [OF _ io', of _ PinHash] v [unfolded \<open>x = sn\<close>]]
  show "held_by PinHash t = pin_hashed E PIN_DEFAULT sn" using keepsE [OF keeps_workflows(6) f', of PinHash] by simp
  from sets_atD [OF sets_encrypted [OF _ io, of _ PukHash] w [unfolded \<open>x = sn\<close>]]
  show "held_by PukHash t = puk_hashed E puk sn"
    using keepsE [OF keeps_workflows(6) f, of PukHash] keepsE [OF keeps_encrypted v, of PukHash]
      keepsE [OF keeps_workflows(6) f', of PukHash] by simp
qed

lemma guarded_holds:
  assumes "verdict_on E k hash s \<noteq> Some True \<or> (\<forall>x. keeps (held_by c) (rest x))"
  shows "held_by c (snd (outcome (guarded E k hash blocked wrong rest) s)) = held_by c s"
proof -
  have g: "keeps (held_by c) (guarded E k hash blocked wrong rest')" if "\<forall>x. keeps (held_by c) (rest' x)" for rest'
    using that unfolding guarded_def by (auto intro!: keeps_intros keeps_workflows)
  have "held_by c (snd (guarded E k hash blocked wrong rest s)) = held_by c s"
  proof (cases "verdict_on E k hash s = Some True")
    case True
    with assms show ?thesis by (intro keepsD g) simp
  next
    case False
    from guarded_unconfirmed [OF this, of blocked wrong rest "\<lambda>_. return_err blocked"] keepsD [OF g [of "\<lambda>_. return_err blocked"], of s] show ?thesis by (simp add: keeps_err)
  qed
  then show ?thesis by (simp add: outcome_def case_prod_beta)
qed

lemma outcome_holds: "keeps (held_by c) m \<Longrightarrow> held_by c (snd (outcome m s)) = held_by c s"
  by (drule keepsD) (simp add: outcome_def case_prod_beta)

lemma reset_holds:
  assumes "c = IoKey \<or> \<not> (\<exists>t. both_exhausted E s t)"
  shows "held_by c (snd (outcome (emergency_reset E k) s)) = held_by c s"
proof (cases "\<exists>t. both_exhausted E s t")
  case True
  with assms have "c = IoKey" by blast
  then have "keeps (held_by c) (write_slot_encrypted E SLOT_PUK_HASH p k x)" "keeps (held_by c) (write_slot_encrypted E SLOT_PIN_HASH p k x)" for p x
    using keeps_encrypted [of c PukHash] keeps_encrypted [of c PinHash] by simp_all
  then have "keeps (held_by c) (emergency_reset E k)" unfolding emergency_reset_def Let_def
    by (intro keeps_intros keeps_workflows held_in_channel keeps_loops)
  then show ?thesis by (rule outcome_holds)
next
  case False
  obtain r0 s1 where r0: "read_counter E Counter0 s = (r0, s1)" by fastforce
  obtain r1 s2 where r1: "read_counter E Counter1 s1 = (r1, s2)" by fastforce
  have "snd (emergency_reset E k s) \<in> {s1, s2}"
    using False r0 r1 by (auto simp: both_exhausted_def emergency_reset_def and_then_def return_err_def Let_def split: sum.splits if_splits)
  then have "held_by c (snd (emergency_reset E k s)) = held_by c s"
    using keepsE [OF keeps_workflows(1) r0, of c] keepsE [OF keeps_workflows(1) r1, of c] by auto
  then show ?thesis by (simp add: outcome_def case_prod_beta)
qed

lemma keeps_other_writes:
  "c \<noteq> PinHash \<Longrightarrow> keeps (held_by c) (write_slot_encrypted E SLOT_PIN_HASH v k x)"
  "c \<noteq> PukHash \<Longrightarrow> keeps (held_by c) (write_slot_encrypted E SLOT_PUK_HASH v k x)"
  "c \<noteq> PinHash \<Longrightarrow> keeps (held_by c) (provision_initial_pin E)"
  "c \<noteq> PukHash \<Longrightarrow> keeps (held_by c) (provision_initial_puk E)"
  "c \<noteq> IoKey \<Longrightarrow> keeps (held_by c) (provision_initial_io_key E)"
proof -
  show "c \<noteq> PinHash \<Longrightarrow> keeps (held_by c) (write_slot_encrypted E SLOT_PIN_HASH v k x)"
    "c \<noteq> PukHash \<Longrightarrow> keeps (held_by c) (write_slot_encrypted E SLOT_PUK_HASH v k x)"
    using keeps_encrypted [of c PinHash] keeps_encrypted [of c PukHash] by simp_all
  have "c \<noteq> d \<Longrightarrow> keeps (held_by c) (provision_slot E (credential_slot d) v)" for d v
    by (intro keeps_provision_slot) (simp add: credential_slots)
  from this [of PinHash] this [of PukHash] this [of IoKey]
  show "c \<noteq> PinHash \<Longrightarrow> keeps (held_by c) (provision_initial_pin E)"
    "c \<noteq> PukHash \<Longrightarrow> keeps (held_by c) (provision_initial_puk E)"
    "c \<noteq> IoKey \<Longrightarrow> keeps (held_by c) (provision_initial_io_key E)"
    unfolding provision_initial_pin_def provision_initial_puk_def provision_initial_io_key_def
    by (auto intro!: keeps_and_then keeps_workflows keeps_ok held_in_channel keeps_commands)
qed

lemma perform_holds: "\<not> may_change E oper c s \<Longrightarrow> held_by c (snd (perform E oper s)) = held_by c s"
proof (cases oper)
  case (OpSetPin p q k)
  assume "\<not> may_change E oper c s"
  with OpSetPin show ?thesis unfolding OpSetPin perform.simps guarded_methods check_format_then if_conj
    by (cases "c = PinHash") (auto intro!: guarded_holds keeps_and_then keeps_other_writes keeps_workflows)
next
  case (OpUnblockPin p q k)
  assume "\<not> may_change E oper c s"
  with OpUnblockPin show ?thesis unfolding OpUnblockPin perform.simps guarded_methods check_format_then if_conj
    by (cases "c = PinHash") (auto intro!: guarded_holds keeps_and_then keeps_other_writes keeps_workflows)
next
  case (OpSetPuk p q k)
  assume "\<not> may_change E oper c s"
  with OpSetPuk show ?thesis unfolding OpSetPuk perform.simps guarded_methods check_format_then in_session_then if_conj
    by (cases "c = PukHash") (auto intro!: guarded_holds keeps_and_then keeps_other_writes keeps_workflows)
qed (auto simp: close_session_def intro!: outcome_holds reset_holds keeps_methods keeps_workflows keeps_other_writes keeps_provision_slot)

text \<open>CheckMac compares the hash of the code with the slot, under a challenge of the chip.\<close>

lemma checkmac_compares:
  assumes "checkmac_with_hash E (credential_slot c) v sn s = (Inr b, t)" and "length v = 32"
  shows "\<exists>ch. length ch = 32 \<and>
    (b \<longleftrightarrow> checkmac_response (sha256 E) v ch (checkmac_other_data (slot_as_u8 (credential_slot c)) sn) sn =
            checkmac_response (sha256 E) (held_by c s) ch (checkmac_other_data (slot_as_u8 (credential_slot c)) sn) sn)"
proof -
  let ?H = "env_hal E" and ?od = "checkmac_other_data (slot_as_u8 (credential_slot c)) sn"
  from assms(1) obtain a1 a2 a3 ch where o: "open_channel ?H (atecc s) = (Inr (), a1)" and r: "random ?H a1 = (Inr ch, a2)"
    and m: "checkmac ?H (credential_slot c) ch (checkmac_response (sha256 E) v ch ?od sn) ?od a2 = (Inr b, a3)"
    by (auto simp: checkmac_with_hash_def on_atecc_def Let_def and_then_eq_Inr attempt_eq_Inr of_result_def
        map_sum_eq_Inr split: prod.splits)
  have l: "length ch = 32" by (rule sized_reply.reply_size [OF random_reply.sized_reply_axioms r])
  have "val c (hal a2) = held_by c s" using keepsE [OF held.keeps_channel(1) o] keepsE [OF keeps_commands(1) r] by metis
  moreover have "length (checkmac_response (sha256 E) v ch ?od sn) = 32" by (simp add: checkmac_response_def hash_length)
  ultimately show ?thesis using verdicts [OF l _ _ m] l by (intro exI [of _ ch]) (simp add: host_digests(3) [OF serial_length])
qed

lemma held_code_verdict:
  assumes "knows_serial s" and "verdict_on E k hash s = Some b" and "counter_slot k = credential_slot c"
    and "length (hash sn) = 32"
  shows "\<exists>ch. length ch = 32 \<and>
    (b \<longleftrightarrow> checkmac_response (sha256 E) (hash sn) ch (checkmac_other_data (slot_as_u8 (credential_slot c)) sn) sn =
            checkmac_response (sha256 E) (held_by c s) ch (checkmac_other_data (slot_as_u8 (credential_slot c)) sn) sn)"
proof -
  from assms(2) obtain n s1 x s2 t where r: "read_counter E k s = (Inr n, s1)" and x: "cached_serial E s1 = (Inr x, s2)"
    and m: "checkmac_with_hash E (counter_slot k) (hash x) x s2 = (Inr b, t)"
    by (auto simp: verdict_on_def split: prod.splits sum.splits if_splits) (metis prod.collapse)
  have "keeps serial (read_counter E k)" by (simp add: read_counter_def)
  from knows_serial_kept [OF this r] assms(1) cached_serial_value [OF _ x] have "x = sn" by simp
  with m assms(3) have m: "checkmac_with_hash E (credential_slot c) (hash sn) sn s2 = (Inr b, t)" by simp
  have "held_by c s2 = held_by c s" using keepsE [OF keeps_workflows(1) r] keepsE [OF keeps_workflows(3) x] by metis
  with checkmac_compares [OF m assms(4)] show ?thesis by simp
qed

lemma held_code_not_rejected:
  assumes "knows_serial s" and "counter_slot k = credential_slot c" and "length (hash sn) = 32" and "held_by c s = hash sn"
  shows "verdict_on E k hash s \<noteq> Some False"
  using assms held_code_verdict [of s k hash False c] by auto

end

section \<open>The contract on the simulated chip\<close>

definition soft_val :: "Credential \<Rightarrow> soft_chip \<Rightarrow> bytes" where
  "soft_val c s = store s (credential_slot c)"

lemma soft_val_update [simp]:
  "soft_val c (s\<lparr>pending := bs\<rparr>) = soft_val c s" "soft_val c (s\<lparr>temp_key := k\<rparr>) = soft_val c s"
  "soft_val c (s\<lparr>counts := f\<rparr>) = soft_val c s"
  "soft_val c (s\<lparr>store := g\<rparr>) = g (credential_slot c)"
  by (simp_all add: soft_val_def)

lemma soft_val_answered [simp]: "soft_val c (hal (answered_by s h)) = soft_val c h" "temp_key (hal (answered_by s h)) = temp_key h"
  by (simp_all add: answered_by_def)

lemma soft_val_exec:
  assumes "\<not> (op = OP_WRITE \<and> p1 AND 0x03 = 0x02 \<and> ucast (drop_bit 3 p2) AND 0x1F = slot_as_u8 (credential_slot c))"
  shows "soft_val c (snd (soft_exec sha op p1 p2 data s)) = soft_val c s"
proof -
  have "soft_val c (snd (advance d reply s)) = soft_val c s" for d reply by (simp add: advance_def)
  moreover have "soft_val c (snd (soft_data_write sha p1 p2 data s)) = soft_val c s" if "op = OP_WRITE" "p1 AND 0x03 = 0x02"
  proof -
    have "Slot (ucast (drop_bit 3 p2)) \<noteq> credential_slot c"
      using assms that credential_slots(1) [of c] by (cases "credential_slot c") auto
    then show ?thesis by (auto simp: soft_data_write_def Let_def soft_val_def)
  qed
  ultimately show ?thesis
    by (simp add: soft_exec_def soft_checkmac_def split: option.split)
qed

lemma soft_val_write: "\<not> stores c wire \<Longrightarrow> soft_val c (snd (soft_write sha addr wire s)) = soft_val c s"
  using soft_val_exec [where c = c and op = "wire ! 2" and ?p1.0 = "wire ! 3" and
      ?p2.0 = "u16_from_le_bytes (wire ! 4) (wire ! 5)"]
  by (auto simp: soft_write_def stores_def case_prod_beta)

lemma credential_slot_index: "\<exists>i. credential_slot c = Slot i \<and> unat i < 16"
  by (cases c) (simp_all add: SLOT_PIN_HASH_def SLOT_PUK_HASH_def SLOT_IO_KEY_def)

lemma length_sum_hash [simp]: "length (sum_hash m) = 32"
  by (simp add: sum_hash_def)

interpretation soft: credential_service "soft_env sum_hash" soft_serial soft_val temp_key
proof unfold_locales
  let ?H = "env_hal (soft_env sum_hash)"
  fix c v s t r p ch resp od b z m
  obtain i where i: "credential_slot c = Slot i" "unat i < 16" using credential_slot_index by blast
  show "length soft_serial = 9" by (simp add: soft_serial_def)
  show "read_config_zone ?H (replicate 128 0) s = (Inr z, t) \<Longrightarrow> serial_of_config z = soft_serial"
    unfolding soft_env_sel soft_config by (auto simp: serial_of_config_def soft_serial_def CHIP_SERIAL_LEN_def slice_def copy_at_def numeral_eq_Suc)
  show "nonce_passthrough ?H TempKey v s = (Inr (), t) \<Longrightarrow> temp_key (hal t) = v"
  proof (cases "length v \<le> 155")
    case False
    then show "nonce_passthrough ?H TempKey v s = (Inr (), t) \<Longrightarrow> temp_key (hal t) = v"
      by (simp add: nonce_passthrough_def execute_command_status_def and_then_def run_command_too_long)
  qed (auto simp: soft_nonce)
  have "Slot (ucast (slot_param2 (credential_slot c))) = credential_slot c"
    by (cases c) (simp_all add: SLOT_PIN_HASH_def SLOT_PUK_HASH_def SLOT_IO_KEY_def slot_param2_def)
  then show "gendig ?H GenDigData (slot_param2 (credential_slot c)) s = (Inr (), t) \<Longrightarrow>
      temp_key (hal t) = chip_gendig (sha256 (soft_env sum_hash)) soft_serial (soft_val c (hal s)) (slot_param2 (credential_slot c)) (temp_key (hal s))"
    by (auto simp: soft_gendig soft_val_def)
  show "length v = 32 \<Longrightarrow> write_32 ?H ZoneData (data_address (credential_slot c) 0 0) v s = (r, t) \<Longrightarrow>
      soft_val c (hal t) = v \<or> isl r \<and> soft_val c (hal t) = soft_val c (hal s)"
    using i by (auto simp: soft_write_32)
  show "length p = 64 \<Longrightarrow> write_32_encrypted ?H ZoneData (data_address (credential_slot c) 0 0) p s = (r, t) \<Longrightarrow>
      drop 32 p = chip_write_mac (sha256 (soft_env sum_hash)) soft_serial (temp_key (hal s)) (data_address (credential_slot c) 0 0)
          (xor_bytes (take 32 p) (temp_key (hal s))) \<and> soft_val c (hal t) = xor_bytes (take 32 p) (temp_key (hal s)) \<or>
      isl r \<and> soft_val c (hal t) = soft_val c (hal s)"
    using i by (auto simp: soft_write_encrypted split: if_splits)
  show "length ch = 32 \<Longrightarrow> length resp = 32 \<Longrightarrow> length od = 13 \<Longrightarrow> checkmac ?H (credential_slot c) ch resp od s = (Inr b, t) \<Longrightarrow>
      b \<longleftrightarrow> resp = chip_checkmac (sha256 (soft_env sum_hash)) soft_serial (soft_val c (hal s)) ch od"
    using soft_checkmac_decides [of ch resp od sum_hash "credential_slot c" s b t] by (simp add: soft_val_def)
qed (simp_all add: soft_val_write)

text \<open>Workflows of the service on this chip, in a state with no answer pending.\<close>

definition with_chip :: "(soft_chip, 'c) CryptoService \<Rightarrow> soft_chip \<Rightarrow> (soft_chip, 'c) CryptoService" where
  "with_chip s h = s\<lparr>atecc := answered_by (atecc s) h\<rparr>"

lemma with_chip_sel [simp]:
  "hal (atecc (with_chip s h)) = h\<lparr>pending := []\<rparr>" "serial (with_chip s h) = serial s" "session (with_chip s h) = session s"
  "with_chip (with_chip s h) h' = with_chip s h'" "with_chip s (h\<lparr>pending := bs\<rparr>) = with_chip s h"
  by (simp_all add: with_chip_def answered_by_def)

lemma soft_in_channel:
  assumes "body (answered_by (atecc s) (hal (atecc s))) = (Inr v, answered_by (atecc s) h)"
  shows "in_channel (soft_env sha) body s = (Inr v, with_chip s h)"
  using assms by (simp add: in_channel_def on_atecc_def and_then_def soft_channel return_ok_def with_chip_def answered_by_def)

lemma soft_read_counter:
  "read_counter (soft_env sha) c s = (Inr (counts (hal (atecc s)) c), with_chip s (hal (atecc s)))"
  unfolding read_counter_def by (rule soft_in_channel) (simp add: soft_counter_read answered_by_def)

lemma soft_write_slot:
  assumes "unat i < 16" and "length v = 32" and "k = store (hal (atecc s)) SLOT_IO_KEY"
  shows "\<exists>tk. write_slot_encrypted (soft_env sum_hash) (Slot i) v k soft_serial s =
    (Inr (), with_chip s ((hal (atecc s))\<lparr>temp_key := tk, store := (store (hal (atecc s)))(Slot i := v)\<rparr>))"
proof -
  let ?tk = "derive_session_key sum_hash k (replicate 32 7) 8 soft_serial" and ?a = "data_address (Slot i) 0 0"
  let ?p = "build_encrypted_write_payload (encrypt_payload v ?tk) (write_mac sum_hash ?tk v (Slot i) 0 soft_serial)"
  have sn: "length soft_serial = 9" by (simp add: soft_serial_def)
  have t: "chip_gendig sum_hash soft_serial k 8 (replicate 32 7) = ?tk"
    using host_digests(1) [OF sn, of sum_hash k "replicate 32 7" 8] by simp
  have l: "length ?tk = 32" "length (write_mac sum_hash ?tk v (Slot i) 0 soft_serial) = 32"
    by (simp_all add: derive_session_key_def write_mac_def Let_def)
  then have p: "?p = encrypt_payload v ?tk @ write_mac sum_hash ?tk v (Slot i) 0 soft_serial"
    using assms(2) by (intro build_payload_eq) simp_all
  have q: "length ?p = 64" "xor_bytes (take 32 ?p) ?tk = v" "drop 32 ?p = chip_write_mac sum_hash soft_serial ?tk ?a v"
    using p l assms(2) encrypt_payload_involutive [of v ?tk] host_digests(2) [OF sn, of sum_hash ?tk v "Slot i"]
    by (simp_all add: xor_bytes_encrypt)
  have "write_slot_encrypted (soft_env sum_hash) (Slot i) v k soft_serial s =
    (Inr (), with_chip s ((hal (atecc s))\<lparr>temp_key := ?tk, store := (store (hal (atecc s)))(Slot i := v)\<rparr>))"
    unfolding write_slot_encrypted_def Let_def
    using soft_write_encrypted [OF assms(1) q(1), of sum_hash] q(2,3) assms(3) t
    by (intro soft_in_channel) (simp add: and_then_def soft_random soft_nonce soft_gendig answered_by_def SLOT_IO_KEY_def
        del: replicate.simps)
  then show ?thesis by blast
qed

lemma soft_refresh_fresh:
  assumes "counts (hal (atecc s)) c = 0" and "2 \<le> unat b"
  shows "\<exists>h. refresh_counter_batch (soft_env sha) c b s = (Inr (), with_chip s h)"
proof -
  have "unat (refresh_bumps 0 b) = 1" using unat_refresh_bumps [OF assms(2), of 0] by simp
  then show ?thesis
    using assms(1) by (auto simp: refresh_counter_batch_def Let_def on_atecc_def and_then_def soft_channel soft_counter_read
        soft_counter_increment attempt_def answered_by_def with_chip_def COUNTER_LIMIT_def numeral_eq_Suc)
qed

text \<open>The PIN of the token is changed from 0000 to 1234.\<close>

definition new_pin :: bytes where "new_pin = ascii ''1234''"

definition demo_key :: bytes where "demo_key = replicate 32 0"

lemma fresh_token_with_chip: "with_chip fresh_token (hal (atecc fresh_token)) = fresh_token"
  by (simp add: with_chip_def fresh_token_def CryptoService_new_def Atecc_new_def Atecc_with_address_def answered_by_def)

lemma fresh_token_confirms:
  "checkmac_with_hash (soft_env sum_hash) SLOT_PIN_HASH (pin_hashed (soft_env sum_hash) PIN_DEFAULT soft_serial) soft_serial
     fresh_token = (Inr True, fresh_token)"
proof -
  let ?v = "pin_hashed (soft_env sum_hash) PIN_DEFAULT soft_serial" and ?od = "checkmac_other_data 5 soft_serial"
  let ?a = "answered_by (atecc fresh_token) (hal (atecc fresh_token))"
  have "store (hal ?a) SLOT_PIN_HASH = ?v"
    by (simp add: answered_by_def fresh_token_def CryptoService_new_def Atecc_new_def Atecc_with_address_def pin_hashed_def)
  moreover have "length soft_serial = 9" by (simp add: soft_serial_def)
  ultimately have "checkmac_response sum_hash ?v (replicate 32 7) ?od soft_serial =
      chip_checkmac sum_hash soft_serial (store (hal ?a) SLOT_PIN_HASH) (replicate 32 7) ?od"
    by (simp add: host_digests(3))
  from soft_checkmac_verdict(1) [OF _ _ _ this] have
    "checkmac (soft_hal sum_hash) SLOT_PIN_HASH (replicate 32 7) (checkmac_response sum_hash ?v (replicate 32 7) ?od soft_serial) ?od ?a = (Inr True, ?a)"
    by (simp add: checkmac_response_def answered_by_def del: replicate.simps)
  then show ?thesis using fresh_token_with_chip
    by (simp add: checkmac_with_hash_def on_atecc_def and_then_def Let_def soft_random soft_channel attempt_def
        of_result_def SLOT_PIN_HASH_def answered_by_def with_chip_def del: replicate.simps)
qed

lemma fresh_token_chip:
  "counts (hal (atecc fresh_token)) c = 0" "store (hal (atecc fresh_token)) SLOT_IO_KEY = demo_key" "soft_val IoKey (hal (atecc fresh_token)) = demo_key"
  "serial fresh_token = Some soft_serial" "soft_val PinHash (hal (atecc fresh_token)) = pin_hashed (soft_env sum_hash) PIN_DEFAULT soft_serial"
  by (simp_all add: fresh_token_def CryptoService_new_def Atecc_new_def Atecc_with_address_def soft_val_def pin_hashed_def
      demo_key_def SLOT_IO_KEY_def SLOT_PIN_HASH_def)

lemma check_format_digits: "list_all is_ascii_digit code \<Longrightarrow> check_format code s = (Inr (), s)"
  by simp

lemma fresh_set_pin:
  "\<exists>t. set_pin (soft_env sum_hash) PIN_DEFAULT new_pin demo_key fresh_token = (Inr (), t) \<and>
       soft_val PinHash (hal (atecc t)) = pin_hashed (soft_env sum_hash) new_pin soft_serial"
proof -
  let ?E = "soft_env sum_hash" and ?h = "pin_hashed (soft_env sum_hash) new_pin soft_serial"
  obtain tk where w: "write_slot_encrypted ?E SLOT_PIN_HASH ?h demo_key soft_serial fresh_token =
      (Inr (), with_chip fresh_token ((hal (atecc fresh_token))\<lparr>temp_key := tk, store := (store (hal (atecc fresh_token)))(SLOT_PIN_HASH := ?h)\<rparr>))"
    (is "_ = (_, ?s1)") using soft_write_slot [of 5 ?h demo_key fresh_token] by (auto simp: fresh_token_chip SLOT_PIN_HASH_def)
  obtain h where f: "refresh_counter_batch ?E Counter0 PIN_MAX_RETRIES ?s1 = (Inr (), with_chip ?s1 h)"
    using soft_refresh_fresh [of ?s1 Counter0 PIN_MAX_RETRIES sum_hash] by (auto simp: fresh_token_chip PIN_MAX_RETRIES_def)
  have d: "list_all is_ascii_digit PIN_DEFAULT" "list_all is_ascii_digit new_pin" by code_simp+
  have r: "retries_remaining 0 PIN_MAX_RETRIES \<noteq> 0" by code_simp
  have "set_pin ?E PIN_DEFAULT new_pin demo_key fresh_token = open_session_now ?E (with_chip ?s1 h)"
    unfolding guarded_methods guarded_def and_then_def
    using d w f r fresh_token_confirms by (simp add: fresh_token_reads check_format_digits)
  then obtain t where t: "set_pin ?E PIN_DEFAULT new_pin demo_key fresh_token = (Inr (), t)"
    by (simp add: open_session_now_eq)
  moreover have "soft.knows_serial fresh_token" by (simp add: soft.knows_serial_def fresh_token_chip)
  from sets_atD [OF soft.sets_coded_methods(1) [OF this, of demo_key] t]
  have "soft_val PinHash (hal (atecc t)) = ?h" by (simp add: fresh_token_chip)
  ultimately show ?thesis by blast
qed

text \<open>After a restart the token accepts its PIN and opens a session.\<close>

lemma restarted_token_reads:
  "read_counter (soft_env sum_hash) c (CryptoService_new (atecc fresh_token) 0) = (Inr 0, CryptoService_new (atecc fresh_token) 0)"
  "cached_serial (soft_env sum_hash) (CryptoService_new (atecc fresh_token) 0) = (Inr soft_serial, fresh_token)"
proof -
  let ?s = "CryptoService_new (atecc fresh_token) 0 :: (soft_chip, u64) CryptoService"
  have w: "with_chip ?s (hal (atecc ?s)) = ?s" "?s\<lparr>serial := Some soft_serial\<rparr> = fresh_token"
    by (simp_all add: with_chip_def fresh_token_def CryptoService_new_def Atecc_new_def Atecc_with_address_def answered_by_def)
  show "read_counter (soft_env sum_hash) c ?s = (Inr 0, ?s)"
    unfolding soft_read_counter w(1) by (simp add: CryptoService_new_def fresh_token_chip)
  obtain zone where z: "read_whole_config (soft_env sum_hash) ?s = (Inr zone, ?s)" "serial_of_config zone = soft_serial"
  proof
    show "read_whole_config (soft_env sum_hash) ?s = (Inr (take 4 soft_serial @ [0, 0, 0x60, 3] @ drop 4 soft_serial @ replicate 19 0 @ replicate 96 0x55), ?s)"
      unfolding read_whole_config_def
      by (rule soft_in_channel [where s = ?s and h = "hal (atecc ?s)", unfolded w(1)]) (simp add: soft_config answered_by_def del: replicate.simps)
  qed (simp add: serial_of_config_def soft_serial_def CHIP_SERIAL_LEN_def slice_def copy_at_def numeral_eq_Suc)
  have "serial ?s = None" by (simp add: CryptoService_new_def)
  then show "cached_serial (soft_env sum_hash) ?s = (Inr soft_serial, fresh_token)"
    using w(2) by (simp add: cached_serial_def and_then_def gets_def z return_ok_def modify_def Let_def)
qed

lemma restarted_token_verifies:
  "\<exists>t. verify_pin (soft_env sum_hash) PIN_DEFAULT (CryptoService_new (atecc fresh_token) 0) = (Inr (), t) \<and>
     is_session_active (soft_env sum_hash) t"
proof -
  let ?E = "soft_env sum_hash"
  obtain h where f: "refresh_counter_batch ?E Counter0 PIN_MAX_RETRIES fresh_token = (Inr (), with_chip fresh_token h)"
    using soft_refresh_fresh [of fresh_token Counter0 PIN_MAX_RETRIES sum_hash] by (auto simp: fresh_token_chip PIN_MAX_RETRIES_def)
  have d: "list_all is_ascii_digit PIN_DEFAULT" by code_simp
  have r: "retries_remaining 0 PIN_MAX_RETRIES \<noteq> 0" by code_simp
  have "verify_pin ?E PIN_DEFAULT (CryptoService_new (atecc fresh_token) 0) = open_session_now ?E (with_chip fresh_token h)"
    unfolding verify_pin_def and_then_def Let_def
    using d f r fresh_token_confirms by (simp add: restarted_token_reads check_format_digits pin_hashed_def)
  then show ?thesis
    by (simp add: open_session_now_eq is_session_active_def clock_now_def session_defs Session_is_active_def u64_saturating_sub_def
        SESSION_TIMEOUT_MS_def)
qed

section \<open>Properties\<close>

text \<open>
  The credentials change only with authority. Let the chip keep its contract for the slots
  of the PIN hash, the PUK hash and the I/O key. If a method leaves a different value in one
  of these slots, then it is SetPin with an old PIN that the chip confirmed, UnblockPin or
  SetPuk with a PUK that the chip confirmed (SetPuk also within a session), an emergency
  reset while both batches of attempts are exhausted (which never touches the I/O key), or
  one of the provisioning methods for that slot.
\<close>

theorem credentials_change_only_when_authorised:
  assumes "credential_store (env_hal E) (sha256 E) sn val temp" and "perform E oper s = (success, t)"
    and "val c (hal (atecc t)) \<noteq> val c (hal (atecc s))"
  shows "may_change E oper c s"
proof -
  from assms(1) have "credential_service E sn val temp" by (rule credential_service.intro)
  from credential_service.perform_holds [OF this, of oper c s] assms(2,3) show ?thesis by auto
qed

theorem credentials_change_only_when_authorised_witness:
  "\<exists>t. perform (soft_env sum_hash) (OpSetPin PIN_DEFAULT new_pin demo_key) fresh_token = (True, t) \<and>
       soft_val PinHash (hal (atecc t)) \<noteq> soft_val PinHash (hal (atecc fresh_token)) \<and>
       guess (soft_env sum_hash) (OpSetPin PIN_DEFAULT new_pin demo_key) Counter0 fresh_token = Some True"
proof -
  let ?E = "soft_env sum_hash" and ?op = "OpSetPin PIN_DEFAULT new_pin demo_key"
  obtain t where t: "set_pin ?E PIN_DEFAULT new_pin demo_key fresh_token = (Inr (), t)"
    "soft_val PinHash (hal (atecc t)) = pin_hashed ?E new_pin soft_serial" using fresh_set_pin by blast
  from t(1) have p: "perform ?E ?op fresh_token = (True, t)" by (simp add: outcome_def)
  have "pin_hash sum_hash new_pin (pin_salt sum_hash soft_serial) \<noteq> pin_hash sum_hash PIN_DEFAULT (pin_salt sum_hash soft_serial)" by code_simp
  then have n: "soft_val PinHash (hal (atecc t)) \<noteq> soft_val PinHash (hal (atecc fresh_token))"
    by (simp add: t(2) fresh_token_chip pin_hashed_def)
  from credentials_change_only_when_authorised [OF soft.credential_store_axioms p n] p n show ?thesis by simp
qed

text \<open>
  C8. What the slots hold after a method, for a service that knows the serial number of the
  chip and is given the I/O key of the chip. A successful SetPin or UnblockPin leaves the
  hash of the new PIN in the PIN slot, a successful SetPuk that of the new PUK in the PUK
  slot, and one that fails leaves the new hash or the old one. Provisioning leaves
  the hash of 0000, respectively of the PUK and the I/O key it returns; the emergency reset
  leaves the hash of 0000 and that of the PUK it returns.
\<close>

theorem credentials_after_methods:
  assumes "credential_store (env_hal E) (sha256 E) sn val temp" and "serial s \<in> {None, Some sn}"
    and "k = val IoKey (hal (atecc s))"
  shows "(set_pin E p q k s = (r, t) \<longrightarrow>
        val PinHash (hal (atecc t)) = pin_hashed E q sn \<or> isl r \<and> val PinHash (hal (atecc t)) = val PinHash (hal (atecc s))) \<and>
    (unblock_pin E p q k s = (r, t) \<longrightarrow>
        val PinHash (hal (atecc t)) = pin_hashed E q sn \<or> isl r \<and> val PinHash (hal (atecc t)) = val PinHash (hal (atecc s))) \<and>
    (set_puk E p q k s = (r, t) \<longrightarrow>
        val PukHash (hal (atecc t)) = puk_hashed E q sn \<or> isl r \<and> val PukHash (hal (atecc t)) = val PukHash (hal (atecc s))) \<and>
    (provision_initial_pin E s = (Inr (), t) \<longrightarrow> val PinHash (hal (atecc t)) = pin_hashed E PIN_DEFAULT sn) \<and>
    (provision_initial_puk E s = (Inr code, t) \<longrightarrow> val PukHash (hal (atecc t)) = puk_hashed E code sn) \<and>
    (provision_initial_io_key E s = (Inr code, t) \<longrightarrow> val IoKey (hal (atecc t)) = code) \<and>
    (emergency_reset E k s = (Inr code, t) \<longrightarrow>
        val PinHash (hal (atecc t)) = pin_hashed E PIN_DEFAULT sn \<and> val PukHash (hal (atecc t)) = puk_hashed E code sn)"
proof -
  from assms(1) have c: "credential_service E sn val temp" by (rule credential_service.intro)
  have n: "credential_service.knows_serial sn s" using assms(2) by (simp add: credential_service.knows_serial_def [OF c])
  note held = credential_service.sets_coded_methods [OF c n assms(3), THEN sets_atD] credential_service.sets_initial_pin [OF c n, THEN sets_atD]
    credential_service.initial_puk_held [OF c n] credential_service.initial_io_key_held [OF c] credential_service.reset_held [OF c n assms(3)]
  show ?thesis by (intro conjI impI) (auto dest: held)
qed

theorem credentials_after_methods_witness:
  "\<exists>t. set_pin (soft_env sum_hash) PIN_DEFAULT new_pin demo_key fresh_token = (Inr (), t) \<and>
       soft_val PinHash (hal (atecc t)) = pin_hashed (soft_env sum_hash) new_pin soft_serial"
proof -
  obtain t where t: "set_pin (soft_env sum_hash) PIN_DEFAULT new_pin demo_key fresh_token = (Inr (), t)"
    using fresh_set_pin by blast
  with credentials_after_methods [OF soft.credential_store_axioms, of fresh_token demo_key PIN_DEFAULT new_pin "Inr ()" t] show ?thesis
    by (simp add: fresh_token_chip)
qed

text \<open>
  A code that was set is accepted. In any state in which the PIN slot holds the hash of a
  PIN, VerifyPin with this PIN is never answered \<open>PinIncorrect\<close>, and likewise UnblockPin with
  the PUK whose hash is in the PUK slot is never answered \<open>PukIncorrect\<close>; and a PIN that is
  confirmed gives, under a challenge of the chip, the response of the hash in the slot.
\<close>

theorem stored_code_is_accepted:
  assumes "credential_store (env_hal E) (sha256 E) sn val temp" and "serial s \<in> {None, Some sn}"
  shows "(val PinHash (hal (atecc s)) = pin_hashed E p sn \<longrightarrow> verify_pin E p s \<noteq> (Inl (PinIncorrect n), t)) \<and>
    (val PukHash (hal (atecc s)) = puk_hashed E u sn \<longrightarrow> unblock_pin E u q k s \<noteq> (Inl (PukIncorrect n), t)) \<and>
    (guess E (OpVerifyPin p) Counter0 s = Some True \<longrightarrow>
       (\<exists>challenge. length challenge = 32 \<and>
          checkmac_response (sha256 E) (pin_hashed E p sn) challenge (checkmac_other_data 5 sn) sn =
          checkmac_response (sha256 E) (val PinHash (hal (atecc s))) challenge (checkmac_other_data 5 sn) sn))"
proof -
  from assms(1) have c: "credential_service E sn val temp" by (rule credential_service.intro)
  have n: "credential_service.knows_serial sn s" using assms(2) by (simp add: credential_service.knows_serial_def [OF c])
  note accepted = credential_service.held_code_not_rejected [OF c n] rejections credential_service.hashed_length [OF c]
  have "verify_pin E p s \<noteq> (Inl (PinIncorrect n), t)" if "val PinHash (hal (atecc s)) = pin_hashed E p sn"
    using that accepted(1) [of Counter0 PinHash "pin_hashed E p"] accepted(2-) by fastforce
  moreover have "unblock_pin E u q k s \<noteq> (Inl (PukIncorrect n), t)" if "val PukHash (hal (atecc s)) = puk_hashed E u sn"
    using that accepted(1) [of Counter1 PukHash "puk_hashed E u"] accepted(2-) by fastforce
  moreover have "\<exists>challenge. length challenge = 32 \<and>
      checkmac_response (sha256 E) (pin_hashed E p sn) challenge (checkmac_other_data 5 sn) sn =
      checkmac_response (sha256 E) (val PinHash (hal (atecc s))) challenge (checkmac_other_data 5 sn) sn"
    if "guess E (OpVerifyPin p) Counter0 s = Some True"
    using that credential_service.held_code_verdict [OF c n, of Counter0 "pin_hashed E p" True PinHash] accepted(4)
    by (auto simp: SLOT_PIN_HASH_def split: if_splits)
  ultimately show ?thesis by blast
qed

theorem stored_code_is_accepted_witness:
  "\<forall>n t. verify_pin (soft_env sum_hash) PIN_DEFAULT fresh_token \<noteq> (Inl (PinIncorrect n), t)"
  using stored_code_is_accepted [OF soft.credential_store_axioms, of fresh_token PIN_DEFAULT]
  by (simp add: fresh_token_chip)

end
