(* ===== verification/Firmware_System.thy ===== *)
theory Firmware_System
  imports Firmware_Tasks Credential_Store
begin

text \<open>
  All tasks of the firmware together: an interleaving of their turns in any order, with
  any reports, button levels and bus behaviour (\<open>system_step\<close>), the same steps as a function of a
  schedule (\<open>run_turns\<close>), what holds in every reachable state, the run of a signature, and
  two races between a touch and the end of its request. The example runs use the simulated chip.
\<close>

section \<open>The interleaving\<close>

datatype Phase = Ready | Waiting Slot bytes | Confirmed Slot bytes

text \<open>
  Ghost fields: \<open>presses\<close> counts the debounced presses of the button, \<open>entries\<close> the
  transitions of the state machine into \<open>Signing\<close>, \<open>signs\<close> the calls of the signing
  method. The last three refer to the moment at which the latest signature request was
  accepted: \<open>touched\<close> tells whether such a transition happened since then, \<open>queued_then\<close>
  is the number of presses that were waiting in the event queue at that moment, and
  \<open>pressed_since\<close> the number of presses since then. A transition into \<open>Signing\<close> need not
  come from a press made since then: it may consume one that was already queued.
\<close>

record ('h, 'c) System =
  fw :: "('h, 'c) Firmware"
  phase :: Phase
  sm :: StateTask
  button :: Debouncer
  anim :: "Animation option"
  presses :: nat
  entries :: nat
  signs :: nat
  touched :: bool
  queued_then :: nat
  pressed_since :: nat

abbreviation chans :: "('h, 'c) System \<Rightarrow> Channels" where
  "chans s \<equiv> channels (fw s)"

definition on_channels :: "(Channels \<Rightarrow> Channels) \<Rightarrow> ('h, 'c) Firmware \<Rightarrow> ('h, 'c) Firmware" where
  "on_channels f w = w\<lparr>channels := f (channels w)\<rparr>"

inductive system_step :: "('h, 'e, 'c) Env \<Rightarrow> ('h, 'c) System \<Rightarrow> ('h, 'c) System \<Rightarrow> bool" for E where
  responded: "phase s = Ready \<Longrightarrow> begin_request E rx (fw s) = (Responded n, w) \<Longrightarrow>
     system_step E s (s\<lparr>fw := w\<rparr>)"
| waiting: "phase s = Ready \<Longrightarrow> begin_request E rx (fw s) = (AwaitTouch slot d, w) \<Longrightarrow>
     system_step E s (s\<lparr>fw := w, phase := Waiting slot d, touched := False,
       queued_then := count_list (EVENT_CHANNEL (chans s)) TouchPressed, pressed_since := 0\<rparr>)"
| timed_out: "phase s = Waiting slot d \<Longrightarrow> handle_sign_timed_out (fw s) = (n, w) \<Longrightarrow>
     system_step E s (s\<lparr>fw := w, phase := Ready\<rparr>)"
| confirmed: "phase s = Waiting slot d \<Longrightarrow> TOUCH_CONFIRMED (chans s) \<Longrightarrow>
     system_step E s (s\<lparr>fw := on_channels (\<lambda>ch. ch\<lparr>TOUCH_CONFIRMED := False\<rparr>) (fw s),
                        phase := Confirmed slot d\<rparr>)"
| signed: "phase s = Confirmed slot d \<Longrightarrow> handle_sign_confirmed E slot d (fw s) = (n, w) \<Longrightarrow>
     system_step E s (s\<lparr>fw := w, phase := Ready, signs := Suc (signs s)\<rparr>)"
| state_turn: "state_task_turn entered now (sm s) (chans s) = Some (t, ch) \<Longrightarrow>
     (enters \<longleftrightarrow> sm_state (sm s) \<noteq> Signing \<and> sm_state t = Signing) \<Longrightarrow>
     system_step E s (s\<lparr>fw := on_channels (\<lambda>_. ch) (fw s), sm := t,
                        entries := entries s + of_bool enters, touched := (touched s \<or> enters)\<rparr>)"
| sampled: "sample_once pressed (button s) (chans s) = (b, ch) \<Longrightarrow>
     system_step E s (s\<lparr>fw := on_channels (\<lambda>_. ch) (fw s), button := b,
       presses := presses s + of_bool (fst (Debouncer_sample pressed (button s)) = Some True),
       pressed_since := pressed_since s + of_bool (fst (Debouncer_sample pressed (button s)) = Some True)\<rparr>)"
| animated: "animation_turn tick_elapsed (anim s) (chans s) = Some (a, ch) \<Longrightarrow>
     system_step E s (s\<lparr>fw := on_channels (\<lambda>_. ch) (fw s), anim := a\<rparr>)"
| elapsed: "channels w = chans s \<Longrightarrow> tx_buf w = tx_buf (fw s) \<Longrightarrow>
     session (service w) = session (service (fw s)) \<Longrightarrow> serial (service w) = serial (service (fw s)) \<Longrightarrow>
     system_step E s (s\<lparr>fw := w\<rparr>)"

text \<open>
  After \<^verbatim>\<open>main.rs\<close> has spawned the tasks and posted \<open>BootComplete\<close>, and the state
  task has published the initial state.
\<close>

definition boot_channels :: Channels where
  "boot_channels = post_event BootComplete Channels_new"

definition system_boot :: "'h Atecc \<Rightarrow> 'c \<Rightarrow> bool \<Rightarrow> ('h, 'c) System" where
  "system_boot a c pressed =
     (case state_task_start boot_channels of (t, ch) \<Rightarrow>
        \<lparr>fw = \<lparr>service = CryptoService_new a c, tx_buf = replicate REPORT_SIZE 0, channels = ch\<rparr>,
         phase = Ready, sm = t, button = Debouncer_new pressed, anim = None,
         presses = 0, entries = 0, signs = 0, touched = False, queued_then = 0, pressed_since = 0\<rparr>)"

section \<open>What a request does to the channels\<close>

definition silent :: "('h, 'c) handler \<Rightarrow> bool" where
  "silent h \<longleftrightarrow> (\<forall>w. channels (snd (h w)) = channels w)"

lemma silentI: "(\<And>w. channels (snd (h w)) = channels w) \<Longrightarrow> silent h"
  and silentD: "silent h \<Longrightarrow> channels (snd (h w)) = channels w"
  by (simp_all add: silent_def)

lemma silent_write_status [simp, intro]: "silent (write_status status data)"
  by (simp add: silent_def write_status_def split: sum.split)

lemma silent_write_error [simp, intro]: "silent (write_error e)"
  by (cases e) (auto split: AteccErrorKind.split)

lemma silent_write_lock_error [simp, intro]: "silent (write_lock_error e)"
  by (simp add: write_lock_error_def)

lemma silent_answer [intro]:
  assumes "\<And>e. silent (on_err e)"
  shows "silent (answer m encode on_err)"
proof (rule silentI)
  fix w
  show "channels (snd (answer m encode on_err w)) = channels w"
    using silentD [OF assms]
    by (simp add: answer_def on_service_def silentD [OF silent_write_status] split: prod.split sum.split)
qed

lemma silent_wrappers [intro]:
  "(\<And>v. silent (k v)) \<Longrightarrow> silent (with_payload p k)"
  "(\<And>v. silent (k v)) \<Longrightarrow> silent (with_magic p k)"
  "(\<And>v. silent (h v)) \<Longrightarrow> silent (with_slot i h)"
  by (auto simp: with_payload_def with_magic_def with_slot_def split: sum.split PayloadError.split option.split)

lemma silent_case_prod [intro]: "(\<And>a b. silent (k a b)) \<Longrightarrow> silent (case x of (a, b) \<Rightarrow> k a b)"
  by (cases x) simp

lemma silent_if [intro]: "silent h \<Longrightarrow> silent k \<Longrightarrow> silent (if b then h else k)"
  by simp

lemma silent_handlers:
  "silent (handle_info E)" "silent (handle_get_pubkey E data)" "silent (handle_genkey E data)"
  "silent (handle_read_config_zone E data)" "silent (handle_read_config_slot E data)"
  "silent (handle_write_config_zone E data)" "silent (handle_provision_slot E data)"
  "silent (handle_provision_initial_pin E)" "silent (handle_provision_initial_puk E)"
  "silent (handle_provision_io_key E)" "silent (handle_lock_config_zone E data)"
  "silent (handle_lock_data_zone E data)" "silent (handle_lock_slot E data)"
  "silent (handle_set_pin E data)" "silent (handle_unblock_pin E data)" "silent (handle_set_puk E data)"
  "silent (handle_emergency_reset E data)" "silent (handle_read_slot_block E data)"
  "silent (handle_read_slot_word E data)" "silent (handle_get_pin_status E)"
  "silent (handle_read_counter E data)"
  unfolding handle_info_def handle_get_pubkey_def handle_genkey_def handle_read_config_zone_def
    handle_read_config_slot_def handle_write_config_zone_def handle_provision_slot_def
    handle_provision_initial_pin_def handle_provision_initial_puk_def handle_provision_io_key_def
    handle_lock_config_zone_def handle_lock_data_zone_def handle_lock_slot_def handle_set_pin_def
    handle_unblock_pin_def handle_set_puk_def handle_emergency_reset_def handle_read_slot_block_def
    handle_read_slot_word_def handle_get_pin_status_def handle_read_counter_def
  by (intro silent_wrappers silent_case_prod silent_answer silent_if silent_write_error
      silent_write_lock_error silent_write_status)+

lemma silent_close: "silent handle_close_session"
  by (rule silentI) (simp add: handle_close_session_def silentD [OF silent_write_status])

lemma handle_verify_pin_channels:
  "channels (snd (handle_verify_pin E data w)) = channels w \<or>
   channels (snd (handle_verify_pin E data w)) = post_event PinVerified (channels w)"
  by (auto simp: handle_verify_pin_def with_payload_def on_service_def post_def
      silentD [OF silent_write_status] silentD [OF silent_write_error] split: sum.split prod.split)

lemma responding_silent:
  "silent h \<Longrightarrow> responding h w = (p, w') \<Longrightarrow> (\<exists>n. p = Responded n) \<and> channels w' = channels w"
  by (auto simp: responding_def silent_def split: prod.splits) (metis snd_conv)

definition request_channels :: "Progress \<Rightarrow> Channels \<Rightarrow> Channels \<Rightarrow> bool" where
  "request_channels p ch ch' \<longleftrightarrow>
     (case p of
        Responded _ \<Rightarrow> ch' = ch \<or> ch' = post_event PinVerified ch
      | AwaitTouch _ _ \<Rightarrow> ch' = post_event SignRequested (ch\<lparr>TOUCH_CONFIRMED := False\<rparr>))"

lemma responding_channels:
  "silent h \<Longrightarrow> responding h w = (p, w') \<Longrightarrow> request_channels p (channels w) (channels w')"
  by (auto simp: request_channels_def dest!: responding_silent)

lemma sign_start_channels:
  assumes "handle_sign_start E data w = (p, w')"
  shows "request_channels p (channels w) (channels w')"
  using assms
  by (auto simp: handle_sign_start_def post_def request_channels_def Let_def
      dest!: responding_silent [OF silent_write_status] split: sum.splits prod.splits option.splits if_splits)

lemma dispatch_channels:
  "dispatch E op_code data w = (p, w') \<Longrightarrow> request_channels p (channels w) (channels w')"
proof (cases op_code)
  case CmdVerifyPin
  assume "dispatch E op_code data w = (p, w')"
  with CmdVerifyPin show ?thesis using handle_verify_pin_channels [of E data w]
    by (auto simp: responding_def request_channels_def split: prod.splits)
qed (auto intro: responding_channels silent_handlers silent_close sign_start_channels)

lemma begin_request_channels:
  "begin_request E rx w = (p, w') \<Longrightarrow> request_channels p (channels w) (channels w')"
  by (auto simp: begin_request_def intro: dispatch_channels responding_channels split: sum.splits option.splits)

section \<open>Invariant\<close>

fun is_confirmed :: "Phase \<Rightarrow> bool" where
  "is_confirmed (Confirmed _ _) = True"
| "is_confirmed _ = False"

fun is_waiting :: "Phase \<Rightarrow> bool" where
  "is_waiting (Waiting _ _) = True"
| "is_waiting _ = False"

text \<open>
  Every signature has its own transition into \<open>Signing\<close>, and every such transition its
  own press; a press still queued is not used up.
\<close>

definition touch_budget :: "('h, 'c) System \<Rightarrow> bool" where
  "touch_budget s \<longleftrightarrow>
     signs s + of_bool (TOUCH_CONFIRMED (chans s)) + of_bool (is_confirmed (phase s)) \<le> entries s \<and>
     entries s + count_list (EVENT_CHANNEL (chans s)) TouchPressed \<le> presses s"

text \<open>
  A confirmation that the dispatch loop can see belongs to a transition since the request,
  and this transition to a press that was queued at the request or came after it.
\<close>

definition touch_fresh :: "('h, 'c) System \<Rightarrow> bool" where
  "touch_fresh s \<longleftrightarrow>
     (is_waiting (phase s) \<and> TOUCH_CONFIRMED (chans s) \<or> is_confirmed (phase s) \<longrightarrow> touched s) \<and>
     of_bool (touched s) + count_list (EVENT_CHANNEL (chans s)) TouchPressed \<le> queued_then s + pressed_since s"

text \<open>The LEDs show the state, or the state waits to be shown.\<close>

definition published :: "('h, 'c) System \<Rightarrow> bool" where
  "published s \<longleftrightarrow>
     TOKEN_STATE (chans s) = Some (sm_state (sm s)) \<or>
     TOKEN_STATE (chans s) = None \<and> map_option an_state (anim s) = Some (sm_state (sm s))"

definition drawn :: "('h, 'c) System \<Rightarrow> bool" where
  "drawn s \<longleftrightarrow>
     (\<forall>a. anim s = Some a \<longrightarrow> leds a = fst (apply_pattern (led_pattern (an_state a)) (\<not> tick_high a)))"

definition queue_bounded :: "('h, 'c) System \<Rightarrow> bool" where
  "queue_bounded s \<longleftrightarrow> length (EVENT_CHANNEL (chans s)) \<le> EVENT_QUEUE_DEPTH"

definition system_inv :: "('h, 'c) System \<Rightarrow> bool" where
  "system_inv s \<longleftrightarrow> queue_bounded s \<and> timers_wf (sm s) \<and> touch_budget s \<and> touch_fresh s \<and>
     published s \<and> drawn s"

lemmas inv_defs = queue_bounded_def touch_budget_def touch_fresh_def published_def drawn_def
  EVENT_QUEUE_DEPTH_def

lemma post_other:
  assumes "e \<noteq> TouchPressed"
  shows "count_list (EVENT_CHANNEL (post_event e ch)) TouchPressed = count_list (EVENT_CHANNEL ch) TouchPressed"
  using assms by (simp add: post_event_queue)

lemma on_channels_sel [simp]: "channels (on_channels f w) = f (channels w)"
  by (simp add: on_channels_def)

lemma timed_out_channels: "handle_sign_timed_out w = (n, w') \<Longrightarrow> channels w' = post_event TouchTimeout (channels w)"
  using silentD [OF silent_write_status, of StatusTouchTimeout "[]" "post TouchTimeout w"]
  by (simp add: handle_sign_timed_out_def post_def)

lemma signed_channels:
  assumes "handle_sign_confirmed E slot d w = (n, w')"
  shows "channels w' = post_event SignComplete (channels w) \<or>
    channels w' = post_event ErrorRaised (post_event SignComplete (channels w))"
  using arg_cong [where f = "\<lambda>r. channels (snd r)", OF assms]
  by (auto simp: handle_sign_confirmed_def on_service_def post_def Let_def silentD [OF silent_write_status]
      silentD [OF silent_write_error] split: prod.splits sum.splits)

text \<open>Posting an event other than a press keeps everything.\<close>

lemma inv_post:
  assumes "system_inv s" and "e \<noteq> TouchPressed" and "channels w = post_event e (chans s)"
  shows "system_inv (s\<lparr>fw := w\<rparr>)"
  using assms
  by (auto simp: system_inv_def inv_defs post_other post_event_bounded)

lemma inv_same_channels:
  assumes "system_inv s" and "channels w = chans s"
  shows "system_inv (s\<lparr>fw := w\<rparr>)"
  using assms by (simp add: system_inv_def inv_defs)

lemma inv_waiting:
  assumes "system_inv s" and "channels w = post_event SignRequested ((chans s)\<lparr>TOUCH_CONFIRMED := False\<rparr>)"
  shows "system_inv (s\<lparr>fw := w, phase := Waiting slot d, touched := False,
    queued_then := count_list (EVENT_CHANNEL (chans s)) TouchPressed, pressed_since := 0\<rparr>)"
  using assms
  by (auto simp: system_inv_def inv_defs post_other post_event_bounded)

lemma inv_ready:
  assumes "system_inv s"
  shows "system_inv (s\<lparr>phase := Ready\<rparr>)"
  using assms by (auto simp: system_inv_def inv_defs)

lemma inv_confirmed:
  assumes "system_inv s" and "phase s = Waiting slot d" and "TOUCH_CONFIRMED (chans s)"
  shows "system_inv (s\<lparr>fw := on_channels (\<lambda>ch. ch\<lparr>TOUCH_CONFIRMED := False\<rparr>) (fw s),
                       phase := Confirmed slot d\<rparr>)"
  using assms by (auto simp: system_inv_def inv_defs)

lemma inv_signed:
  assumes "system_inv s" and "phase s = Confirmed slot d"
  shows "system_inv (s\<lparr>phase := Ready, signs := Suc (signs s)\<rparr>)"
  using assms by (auto simp: system_inv_def inv_defs)

lemma inv_sampled:
  assumes "system_inv s" and "sample_once pressed (button s) (chans s) = (b, ch)"
  shows "system_inv (s\<lparr>fw := on_channels (\<lambda>_. ch) (fw s), button := b,
    presses := presses s + of_bool (fst (Debouncer_sample pressed (button s)) = Some True),
    pressed_since := pressed_since s + of_bool (fst (Debouncer_sample pressed (button s)) = Some True)\<rparr>)"
proof -
  have ch: "ch = (if fst (Debouncer_sample pressed (button s)) = Some True
      then post_event TouchPressed (chans s) else chans s)"
    using assms(2) by (auto simp: sample_once_def split: prod.splits option.splits if_splits)
  show ?thesis
    using assms(1) count_post_event [of TouchPressed "chans s" TouchPressed]
    by (auto simp: ch system_inv_def inv_defs post_event_bounded)
qed

lemma an_state_draw [simp]: "an_state (snd (animation_draw a)) = an_state a"
  by (simp add: animation_draw_def split: prod.split)

lemma animation_turn_cases:
  assumes "animation_turn tick_elapsed an ch = Some (a, ch')"
  obtains (tick) "ch' = ch" and "map_option an_state a = map_option an_state an" and "an \<noteq> None"
  | (state) st where "TOKEN_STATE ch = Some st" and "ch' = ch\<lparr>TOKEN_STATE := None\<rparr>"
      and "map_option an_state a = Some st"
  using assms by (auto simp: animation_turn_def split: option.splits if_splits)

lemma animation_turn_draws:
  assumes "animation_turn tick_elapsed an ch = Some (a, ch')"
  shows "\<forall>x. a = Some x \<longrightarrow> leds x = fst (apply_pattern (led_pattern (an_state x)) (\<not> tick_high x))"
  using assms
  by (auto simp: animation_turn_def animation_draw_def case_prod_beta split: option.splits if_splits)

lemma inv_animated:
  assumes "system_inv s" and "animation_turn tick_elapsed (anim s) (chans s) = Some (a, ch)"
  shows "system_inv (s\<lparr>fw := on_channels (\<lambda>_. ch) (fw s), anim := a\<rparr>)"
  using assms(2)
proof (cases rule: animation_turn_cases)
  case tick
  with assms(1) animation_turn_draws [OF assms(2)] show ?thesis by (simp add: system_inv_def inv_defs)
next
  case (state st)
  with assms(1) animation_turn_draws [OF assms(2)] show ?thesis by (simp add: system_inv_def inv_defs)
qed

text \<open>What a turn of the state task does to the state, the queue and the signals.\<close>

lemma state_turn_effect:
  assumes "state_task_turn entered now t ch = Some (t', ch')"
  shows "timers_wf t'"
    and "length (EVENT_CHANNEL ch') \<le> length (EVENT_CHANNEL ch)"
    and "TOKEN_STATE ch' = (if sm_state t' \<noteq> sm_state t then Some (sm_state t') else TOKEN_STATE ch)"
    and "TOUCH_CONFIRMED ch' \<longleftrightarrow> TOUCH_CONFIRMED ch \<or> sm_state t \<noteq> Signing \<and> sm_state t' = Signing"
    and "count_list (EVENT_CHANNEL ch') TouchPressed + of_bool (sm_state t \<noteq> Signing \<and> sm_state t' = Signing)
      \<le> count_list (EVENT_CHANNEL ch) TouchPressed"
proof -
  obtain e t0 ch0 where r: "(t', ch') = apply_event now e t0 ch0" and t0: "sm_state t0 = sm_state t"
    and c0: "TOKEN_STATE ch0 = TOKEN_STATE ch" "TOUCH_CONFIRMED ch0 = TOUCH_CONFIRMED ch"
      "length (EVENT_CHANNEL ch0) \<le> length (EVENT_CHANNEL ch)"
    and n: "count_list (EVENT_CHANNEL ch0) TouchPressed + of_bool (e = TouchPressed)
      \<le> count_list (EVENT_CHANNEL ch) TouchPressed"
    using assms
  proof (cases rule: state_task_turn_cases)
    case (event e rest)
    with that [of e t "ch\<lparr>EVENT_CHANNEL := rest\<rparr>"] show thesis by simp
  next
    case (timer e t0)
    with that [of e t0 ch] show thesis by auto
  qed
  from r have t: "t' = fst (apply_event now e t0 ch0)" and c: "ch' = snd (apply_event now e t0 ch0)"
    by (metis fst_conv, metis snd_conv)
  show "timers_wf t'" by (simp add: t apply_event_wf)
  show "length (EVENT_CHANNEL ch') \<le> length (EVENT_CHANNEL ch)" using c0 by (simp add: c)
  show "TOKEN_STATE ch' = (if sm_state t' \<noteq> sm_state t then Some (sm_state t') else TOKEN_STATE ch)"
    using t0 c0 by (simp add: c t apply_event_published)
  show "TOUCH_CONFIRMED ch' \<longleftrightarrow> TOUCH_CONFIRMED ch \<or> sm_state t \<noteq> Signing \<and> sm_state t' = Signing"
    using t0 c0 by (simp add: c t apply_event_signal)
  have "sm_state t \<noteq> Signing \<and> sm_state t' = Signing \<Longrightarrow> e = TouchPressed"
    using enters_signing [of "sm_state t" e] t0 by (simp add: t)
  with n show "count_list (EVENT_CHANNEL ch') TouchPressed +
      of_bool (sm_state t \<noteq> Signing \<and> sm_state t' = Signing) \<le> count_list (EVENT_CHANNEL ch) TouchPressed"
    by (auto simp: c of_bool_def split: if_splits)
qed

lemma inv_state_turn:
  assumes "system_inv s" and turn: "state_task_turn entered now (sm s) (chans s) = Some (t, ch)"
    and "enters \<longleftrightarrow> sm_state (sm s) \<noteq> Signing \<and> sm_state t = Signing"
  shows "system_inv (s\<lparr>fw := on_channels (\<lambda>_. ch) (fw s), sm := t,
    entries := entries s + of_bool enters, touched := (touched s \<or> enters)\<rparr>)"
proof -
  note eff = state_turn_effect [OF turn, folded assms(3)]
  from assms(1) have q: "length (EVENT_CHANNEL (chans s)) \<le> 16"
    and b: "signs s + of_bool (TOUCH_CONFIRMED (chans s)) + of_bool (is_confirmed (phase s)) \<le> entries s"
      "entries s + count_list (EVENT_CHANNEL (chans s)) TouchPressed \<le> presses s"
    and f: "touch_fresh s" and p: "published s" and d: "drawn s" by (simp_all add: system_inv_def inv_defs)
  have "length (EVENT_CHANNEL ch) \<le> 16" using eff(2) q by linarith
  moreover have "signs s + of_bool (TOUCH_CONFIRMED ch) + of_bool (is_confirmed (phase s)) \<le>
      entries s + of_bool enters"
    using b(1) eff(4) by (cases enters; cases "TOUCH_CONFIRMED (chans s)") simp_all
  moreover have "entries s + of_bool enters + count_list (EVENT_CHANNEL ch) TouchPressed \<le> presses s"
    using b(2) eff(5) by linarith
  moreover have "is_waiting (phase s) \<and> TOUCH_CONFIRMED ch \<or> is_confirmed (phase s) \<longrightarrow> touched s \<or> enters"
    using f eff(4) by (auto simp: touch_fresh_def)
  moreover have "of_bool (touched s \<or> enters) + count_list (EVENT_CHANNEL ch) TouchPressed \<le> queued_then s + pressed_since s"
    using f eff(5) by (cases enters; cases "touched s") (auto simp: touch_fresh_def)
  moreover have "TOKEN_STATE ch = Some (sm_state t) \<or>
      TOKEN_STATE ch = None \<and> map_option an_state (anim s) = Some (sm_state t)"
    using p eff(3) by (auto simp: published_def)
  ultimately show ?thesis using eff(1) d by (simp add: system_inv_def inv_defs)
qed

lemma system_boot_inv: "system_inv (system_boot a c pressed)"
  by (simp add: system_inv_def inv_defs system_boot_def state_task_start_def boot_channels_def
      Channels_new_def post_event_queue TokenState_initial_def timers_wf_def user_active_state_def
      post_event_def try_send_def)

lemma system_step_inv:
  assumes "system_inv s" and "system_step E s s'"
  shows "system_inv s'"
  using assms(2)
proof (cases rule: system_step.cases)
  case (responded rx n w)
  then show ?thesis using assms(1) begin_request_channels [OF responded(3)]
    by (auto simp: request_channels_def intro: inv_post inv_same_channels)
next
  case (waiting rx slot d w)
  then show ?thesis using assms(1) begin_request_channels [OF waiting(3)]
    by (auto simp: request_channels_def intro: inv_waiting)
next
  case (timed_out slot d n w)
  then show ?thesis using inv_ready [OF inv_post [OF assms(1) _ timed_out_channels]] by simp
next
  case (signed slot d n w)
  let ?s = "s\<lparr>fw := on_channels (post_event SignComplete) (fw s)\<rparr>"
  have "system_inv ?s" by (rule inv_post [OF assms(1)]) simp_all
  then have "system_inv (s\<lparr>fw := w\<rparr>)"
    using signed_channels [OF signed(3)] inv_post [OF assms(1), of SignComplete w] inv_post [of ?s ErrorRaised w]
    by auto
  then show ?thesis using inv_signed [of "s\<lparr>fw := w\<rparr>"] signed(1,2) by simp
next
  case (confirmed slot d)
  then show ?thesis using inv_confirmed [OF assms(1)] by simp
next
  case (state_turn entered now t ch enters)
  show ?thesis unfolding state_turn(1) using assms(1) state_turn(2,3) by (rule inv_state_turn)
next
  case (sampled pressed b ch)
  show ?thesis unfolding sampled(1) using assms(1) sampled(2) by (rule inv_sampled)
next
  case (animated tick_elapsed a ch)
  show ?thesis unfolding animated(1) using assms(1) animated(2) by (rule inv_animated)
next
  case (elapsed w)
  show ?thesis unfolding elapsed(1) using assms(1) elapsed(2) by (rule inv_same_channels)
qed

interpretation system: step_invariant "\<lambda>s. \<exists>a c b. s = system_boot a c b" "system_step E" system_inv for E
  by unfold_locales (auto intro: system_boot_inv system_step_inv)

section \<open>The lost touch\<close>

text \<open>
  The state machine is in \<open>Signing\<close> although no signature is under way, and nothing that
  would take it out is queued.
\<close>

definition stuck :: "('h, 'c) System \<Rightarrow> bool" where
  "stuck s \<longleftrightarrow> sm_state (sm s) = Signing \<and>
     set (EVENT_CHANNEL (chans s)) \<inter> {SignComplete, ErrorRaised} = {} \<and>
     (phase s = Ready \<or> is_waiting (phase s) \<and> \<not> TOUCH_CONFIRMED (chans s))"

lemma stuck_post:
  assumes "set (EVENT_CHANNEL ch) \<inter> {SignComplete, ErrorRaised} = {}" and "e \<noteq> SignComplete" and "e \<noteq> ErrorRaised"
  shows "set (EVENT_CHANNEL (post_event e ch)) \<inter> {SignComplete, ErrorRaised} = {}"
  using assms set_post_event [of e ch] by blast

lemma stuck_turn:
  assumes "sm_state t = Signing" and "set (EVENT_CHANNEL ch) \<inter> {SignComplete, ErrorRaised} = {}"
    and "state_task_turn entered now t ch = Some (t', ch')"
  shows "sm_state t' = Signing" and "set (EVENT_CHANNEL ch') \<subseteq> set (EVENT_CHANNEL ch)"
proof -
  have "sm_state t' = Signing \<and> set (EVENT_CHANNEL ch') \<subseteq> set (EVENT_CHANNEL ch)"
    using assms(3)
  proof (cases rule: state_task_turn_cases)
    case (event e rest)
    then have "on_event (sm_state t) e = Signing" using assms(1,2) stays_signing [of e] by auto
    moreover have "t' = fst (apply_event now e t (ch\<lparr>EVENT_CHANNEL := rest\<rparr>))"
      "ch' = snd (apply_event now e t (ch\<lparr>EVENT_CHANNEL := rest\<rparr>))"
      using event(2) by (metis fst_conv, metis snd_conv)
    ultimately show ?thesis using event(1) by auto
  next
    case (timer e t0)
    then have "on_event (sm_state t0) e = Signing" using assms(1) stays_signing [of e] by auto
    moreover have "t' = fst (apply_event now e t0 ch)" "ch' = snd (apply_event now e t0 ch)"
      using timer(4) by (metis fst_conv, metis snd_conv)
    ultimately show ?thesis by simp
  qed
  then show "sm_state t' = Signing" "set (EVENT_CHANNEL ch') \<subseteq> set (EVENT_CHANNEL ch)" by simp_all
qed

lemma stuck_step:
  assumes "stuck s" and "system_step E s s'"
  shows "stuck s' \<and> signs s' = signs s"
  using assms(2)
proof (cases rule: system_step.cases)
  case (responded rx n w)
  then show ?thesis using assms(1) begin_request_channels [OF responded(3)]
    by (auto simp: stuck_def request_channels_def dest: set_post_event [THEN subsetD])
next
  case (waiting rx slot d w)
  then show ?thesis using assms(1) begin_request_channels [OF waiting(3)]
    by (auto simp: stuck_def request_channels_def dest: set_post_event [THEN subsetD])
next
  case (timed_out slot d n w)
  then show ?thesis using assms(1) timed_out_channels [OF timed_out(3)]
    by (auto simp: stuck_def dest: set_post_event [THEN subsetD])
next
  case (state_turn entered now t ch enters)
  have s: "sm_state (sm s) = Signing" "set (EVENT_CHANNEL (chans s)) \<inter> {SignComplete, ErrorRaised} = {}"
    using assms(1) by (simp_all add: stuck_def)
  show ?thesis
    using assms(1) stuck_turn [OF s state_turn(2)] state_turn_effect(4) [OF state_turn(2)] s
    by (auto simp: stuck_def state_turn(1))
next
  case (sampled pressed b ch)
  then have "ch = chans s \<or> ch = post_event TouchPressed (chans s)"
    by (auto simp: sample_once_def split: prod.splits option.splits)
  then show ?thesis using assms(1) sampled(1)
    by (auto simp: stuck_def dest: set_post_event [THEN subsetD])
next
  case (animated tick_elapsed a ch)
  from animated(2) have "EVENT_CHANNEL ch = EVENT_CHANNEL (chans s)" "TOUCH_CONFIRMED ch = TOUCH_CONFIRMED (chans s)"
    by (cases rule: animation_turn_cases, simp_all)+
  then show ?thesis using assms(1) animated(1) by (simp add: stuck_def)
qed (use assms(1) in \<open>auto simp: stuck_def\<close>)

interpretation stuck_inv: step_invariant stuck "system_step E" stuck for E
  by unfold_locales (auto dest: stuck_step)

lemma stuck_signs: "(system_step E)\<^sup>*\<^sup>* s s' \<Longrightarrow> stuck s \<Longrightarrow> signs s' = signs s"
proof (induction rule: rtranclp_induct)
  case (step y z)
  then have "stuck y" using stuck_inv.run_inv by blast
  with step show ?case using stuck_step by fastforce
qed simp

section \<open>Executing a schedule\<close>

text \<open>
  The steps as a function: one constructor per rule of \<open>system_step\<close> with what the
  environment contributes to it. \<open>None\<close> means that the turn is not possible. A run can so be
  computed from its schedule.
\<close>

datatype ('h, 'c) Turn =
    ReportArrives bytes
  | WaitTimesOut
  | TouchSeen
  | SignNow
  | StateTurn instant instant
  | SampleButton bool
  | AnimationTurn bool
  | TimePasses "('h, 'c) Firmware \<Rightarrow> ('h, 'c) Firmware"

fun take_turn :: "('h, 'e, 'c) Env \<Rightarrow> ('h, 'c) Turn \<Rightarrow> ('h, 'c) System \<Rightarrow> ('h, 'c) System option" where
  "take_turn E (ReportArrives rx) s =
     (if phase s \<noteq> Ready then None else
      case begin_request E rx (fw s) of
        (Responded n, w) \<Rightarrow> Some (s\<lparr>fw := w\<rparr>)
      | (AwaitTouch slot d, w) \<Rightarrow>
          Some (s\<lparr>fw := w, phase := Waiting slot d, touched := False,
            queued_then := count_list (EVENT_CHANNEL (chans s)) TouchPressed, pressed_since := 0\<rparr>))"
| "take_turn E WaitTimesOut s =
     (if is_waiting (phase s) then Some (s\<lparr>fw := snd (handle_sign_timed_out (fw s)), phase := Ready\<rparr>) else None)"
| "take_turn E TouchSeen s =
     (case phase s of
        Waiting slot d \<Rightarrow>
          if TOUCH_CONFIRMED (chans s)
          then Some (s\<lparr>fw := on_channels (\<lambda>ch. ch\<lparr>TOUCH_CONFIRMED := False\<rparr>) (fw s), phase := Confirmed slot d\<rparr>)
          else None
      | _ \<Rightarrow> None)"
| "take_turn E SignNow s =
     (case phase s of
        Confirmed slot d \<Rightarrow>
          Some (s\<lparr>fw := snd (handle_sign_confirmed E slot d (fw s)), phase := Ready, signs := Suc (signs s)\<rparr>)
      | _ \<Rightarrow> None)"
| "take_turn E (StateTurn entered now) s =
     (case state_task_turn entered now (sm s) (chans s) of
        None \<Rightarrow> None
      | Some (t, ch) \<Rightarrow>
          let enters = (sm_state (sm s) \<noteq> Signing \<and> sm_state t = Signing) in
          Some (s\<lparr>fw := on_channels (\<lambda>_. ch) (fw s), sm := t,
            entries := entries s + of_bool enters, touched := (touched s \<or> enters)\<rparr>))"
| "take_turn E (SampleButton pressed) s =
     (case sample_once pressed (button s) (chans s) of (b, ch) \<Rightarrow>
      let press = of_bool (fst (Debouncer_sample pressed (button s)) = Some True) in
      Some (s\<lparr>fw := on_channels (\<lambda>_. ch) (fw s), button := b,
        presses := presses s + press, pressed_since := pressed_since s + press\<rparr>))"
| "take_turn E (AnimationTurn tick_elapsed) s =
     map_option (\<lambda>(a, ch). s\<lparr>fw := on_channels (\<lambda>_. ch) (fw s), anim := a\<rparr>)
       (animation_turn tick_elapsed (anim s) (chans s))"
| "take_turn E (TimePasses f) s =
     (let w = f (fw s) in
      if channels w = chans s \<and> tx_buf w = tx_buf (fw s) \<and> session (service w) = session (service (fw s)) \<and>
         serial (service w) = serial (service (fw s))
      then Some (s\<lparr>fw := w\<rparr>) else None)"

fun run_turns :: "('h, 'e, 'c) Env \<Rightarrow> ('h, 'c) Turn list \<Rightarrow> ('h, 'c) System \<Rightarrow> ('h, 'c) System option" where
  "run_turns E [] s = Some s"
| "run_turns E (a # as) s = Option.bind (take_turn E a s) (run_turns E as)"

lemma take_turn_step:
  assumes "take_turn E a s = Some s'"
  shows "system_step E s s'"
proof (cases a)
  case (ReportArrives rx)
  obtain p w where b: "begin_request E rx (fw s) = (p, w)" by (rule prod.exhaust)
  then show ?thesis using assms ReportArrives system_step.responded [of s E rx _ w] system_step.waiting [of s E rx _ _ w]
    by (cases p) (auto split: if_splits)
next
  case WaitTimesOut
  then show ?thesis using assms system_step.timed_out [of s _ _ "fst (handle_sign_timed_out (fw s))" "snd (handle_sign_timed_out (fw s))"]
    by (cases "phase s") auto
next
  case TouchSeen
  then show ?thesis using assms system_step.confirmed [of s] by (cases "phase s") (auto split: if_splits)
next
  case SignNow
  then show ?thesis using assms
    by (cases "phase s") (auto intro: system_step.signed [OF _ prod.collapse [symmetric]])
next
  case (StateTurn entered now)
  then show ?thesis using assms system_step.state_turn [of entered now s]
    by (auto simp: Let_def split: option.splits)
next
  case (SampleButton pressed)
  obtain b ch where "sample_once pressed (button s) (chans s) = (b, ch)" by (rule prod.exhaust)
  then show ?thesis using assms SampleButton system_step.sampled [of pressed s b ch E] by (simp add: Let_def)
next
  case (AnimationTurn tick_elapsed)
  then show ?thesis using assms system_step.animated [of tick_elapsed s] by auto
next
  case (TimePasses f)
  then show ?thesis using assms system_step.elapsed [of "f (fw s)" s E] by (auto simp: Let_def split: if_splits)
qed

text \<open>The turns are all the steps there are.\<close>

lemma step_take_turn:
  assumes "system_step E s s'"
  shows "\<exists>a. take_turn E a s = Some s'"
  using assms
proof (cases rule: system_step.cases)
  case (responded rx n w)
  then show ?thesis by (intro exI [of _ "ReportArrives rx"]) simp
next
  case (waiting rx slot d w)
  then show ?thesis by (intro exI [of _ "ReportArrives rx"]) simp
next
  case (timed_out slot d n w)
  then show ?thesis by (intro exI [of _ WaitTimesOut]) simp
next
  case (confirmed slot d)
  then show ?thesis by (intro exI [of _ TouchSeen]) simp
next
  case (signed slot d n w)
  then show ?thesis by (intro exI [of _ SignNow]) simp
next
  case (state_turn entered now t ch enters)
  then show ?thesis by (intro exI [of _ "StateTurn entered now"]) (simp add: Let_def)
next
  case (sampled pressed b ch)
  then show ?thesis by (intro exI [of _ "SampleButton pressed"]) (simp add: Let_def)
next
  case (animated tick_elapsed a ch)
  then show ?thesis by (intro exI [of _ "AnimationTurn tick_elapsed"]) simp
next
  case (elapsed w)
  then show ?thesis by (intro exI [of _ "TimePasses (\<lambda>_. w)"]) simp
qed

lemma run_turns_steps: "run_turns E as s = Some s' \<Longrightarrow> (system_step E)\<^sup>*\<^sup>* s s'"
proof (induction as arbitrary: s)
  case (Cons a as)
  then obtain s1 where "take_turn E a s = Some s1" "run_turns E as s1 = Some s'"
    by (auto simp: bind_eq_Some_conv)
  with Cons.IH take_turn_step [of E a s s1] show ?case by (blast intro: converse_rtranclp_into_rtranclp)
qed simp

lemma steps_run_turns: "(system_step E)\<^sup>*\<^sup>* s s' \<Longrightarrow> \<exists>as. run_turns E as s = Some s'"
proof (induction rule: converse_rtranclp_induct)
  case base
  show ?case by (rule exI [of _ "[]"]) simp
next
  case (step y z)
  then obtain a as where "take_turn E a y = Some z" "run_turns E as z = Some s'" using step_take_turn by blast
  then show ?case by (intro exI [of _ "a # as"]) simp
qed

lemma run_turns_append: "run_turns E (as @ bs) s = Option.bind (run_turns E as s) (run_turns E bs)"
  by (induction as arbitrary: s) (auto intro: Option.bind_cong)

lemma on_channels_service [simp]:
  "service (on_channels f w) = service w" "tx_buf (on_channels f w) = tx_buf w"
  "on_channels f (on_channels g w) = on_channels (\<lambda>ch. f (g ch)) w"
  by (simp_all add: on_channels_def)

lemma on_channels_id [simp]: "on_channels (\<lambda>_. channels w) w = w"
  by (simp add: on_channels_def)

lemma turn_sign_report:
  assumes "phase s = Ready" and "is_session_active E (service (fw s))" and "i < 16" and "length d = 32" and "length padding = 92"
  shows "take_turn E (ReportArrives (report 0x03 (i # d) padding)) s =
    Some (s\<lparr>fw := on_channels (\<lambda>ch. post_event SignRequested (ch\<lparr>TOUCH_CONFIRMED := False\<rparr>)) (fw s),
      phase := Waiting (Slot i) d, touched := False,
      queued_then := count_list (EVENT_CHANNEL (chans s)) TouchPressed, pressed_since := 0\<rparr>)"
proof -
  have "Frame_parse (report 0x03 (i # d) padding) = Inr \<lparr>opcode = 0x03, payload = i # d\<rparr>"
    using assms(4,5) by (intro Frame_parse_report) simp
  moreover have "opcode_from_byte 0x03 = Some CmdSign" by code_simp
  moreover have "parse_sign (i # d) = Inr (i, d)" using assms(4) by (simp add: parse_head_payloads)
  moreover have "Slot_new i = Some (Slot i)" using assms(3) by (simp add: Slot_new_def SLOT_COUNT_def)
  ultimately show ?thesis using assms(1,2)
    by (simp add: begin_request_def handle_sign_start_def Let_def post_def on_channels_def)
qed

lemma replicate_4: "replicate 4 x = [x, x, x, x]"
  and replicate_5: "replicate 5 x = replicate 4 x @ [x]"
  by (simp_all add: numeral_eq_Suc)

text \<open>Four samples at the pressed level change nothing yet, the fifth is a press.\<close>

definition held_button :: Debouncer where
  "held_button = \<lparr>db_stable = False, db_candidate = True, db_count = 4\<rparr>"

definition pressed_button :: Debouncer where
  "pressed_button = \<lparr>db_stable = True, db_candidate = True, db_count = 0\<rparr>"

lemma held_sample: "Debouncer_sample True held_button = (Some True, pressed_button)"
  by code_simp

lemma turns_hold:
  assumes "button s = Debouncer_new False"
  shows "run_turns E (replicate 4 (SampleButton True)) s = Some (s\<lparr>button := held_button\<rparr>)"
proof -
  have steps: "Debouncer_sample True \<lparr>db_stable = False, db_candidate = False, db_count = 0\<rparr> =
      (None, \<lparr>db_stable = False, db_candidate = True, db_count = 1\<rparr>)"
    "Debouncer_sample True \<lparr>db_stable = False, db_candidate = True, db_count = 1\<rparr> =
      (None, \<lparr>db_stable = False, db_candidate = True, db_count = 2\<rparr>)"
    "Debouncer_sample True \<lparr>db_stable = False, db_candidate = True, db_count = 2\<rparr> =
      (None, \<lparr>db_stable = False, db_candidate = True, db_count = 3\<rparr>)"
    "Debouncer_sample True \<lparr>db_stable = False, db_candidate = True, db_count = 3\<rparr> = (None, held_button)"
    by code_simp+
  show ?thesis using assms by (simp add: replicate_4 Debouncer_new_def sample_once_def steps Let_def)
qed

lemma turns_press:
  assumes "button s = Debouncer_new False"
  shows "run_turns E (replicate 5 (SampleButton True)) s =
    Some (s\<lparr>fw := on_channels (post_event TouchPressed) (fw s), button := pressed_button,
      presses := Suc (presses s), pressed_since := Suc (pressed_since s)\<rparr>)"
  using turns_hold [OF assms, of E]
  by (simp add: replicate_5 run_turns_append held_sample sample_once_def Let_def on_channels_def)

lemma written_response_keeps [simp]:
  "service (snd (write_status st x w)) = service w" "channels (snd (write_status st x w)) = channels w"
  "service (snd (write_error e w)) = service w" "channels (snd (write_error e w)) = channels w"
proof -
  show t: "service (snd (write_status st x w)) = service w" "channels (snd (write_status st x w)) = channels w" for st x
    by (simp_all add: write_status_def split: sum.split)
  show "service (snd (write_error e w)) = service w" "channels (snd (write_error e w)) = channels w"
    by (cases e; auto simp: t split: AteccErrorKind.split)+
qed

lemma sign_confirmed_effect:
  assumes "service_sign E slot d (service w) = (r, v)"
  shows "service (snd (handle_sign_confirmed E slot d w)) = v"
    and "channels (snd (handle_sign_confirmed E slot d w)) =
      (case r of Inr _ \<Rightarrow> post_event SignComplete (channels w)
       | Inl _ \<Rightarrow> post_event ErrorRaised (post_event SignComplete (channels w)))"
  using assms by (cases r; simp add: handle_sign_confirmed_def on_service_def post_def Let_def)+

text \<open>The turn of the state task on the oldest event of the queue.\<close>

lemma turn_event:
  assumes "EVENT_CHANNEL (chans s) = e # rest"
  obtains s' where "take_turn E (StateTurn entered now) s = Some s'"
    and "sm_state (sm s') = on_event (sm_state (sm s)) e" and "EVENT_CHANNEL (chans s') = rest"
    and "TOUCH_CONFIRMED (chans s') \<longleftrightarrow> TOUCH_CONFIRMED (chans s) \<or> sm_state (sm s) \<noteq> Signing \<and> on_event (sm_state (sm s)) e = Signing"
    and "entries s' = entries s + of_bool (sm_state (sm s) \<noteq> Signing \<and> on_event (sm_state (sm s)) e = Signing)"
    and "sm s' = fst (apply_event now e (sm s) ((chans s)\<lparr>EVENT_CHANNEL := rest\<rparr>))"
    and "phase s' = phase s" "button s' = button s" "service (fw s') = service (fw s)" "tx_buf (fw s') = tx_buf (fw s)"
    and "signs s' = signs s" "presses s' = presses s" "queued_then s' = queued_then s" "pressed_since s' = pressed_since s"
proof -
  let ?ch = "(chans s)\<lparr>EVENT_CHANNEL := rest\<rparr>"
  obtain t ch where a: "apply_event now e (sm s) ?ch = (t, ch)" by (rule prod.exhaust)
  then have "take_turn E (StateTurn entered now) s = Some (s\<lparr>fw := on_channels (\<lambda>_. ch) (fw s), sm := t,
      entries := entries s + of_bool (sm_state (sm s) \<noteq> Signing \<and> sm_state t = Signing),
      touched := (touched s \<or> sm_state (sm s) \<noteq> Signing \<and> sm_state t = Signing)\<rparr>)"
    using assms by (simp add: state_task_turn_def Let_def)
  with that show thesis
    using apply_event_sel [of now e "sm s" ?ch] apply_event_signal [of now e "sm s" ?ch] by (simp add: a)
qed

text \<open>A signature request and its touch, up to the moment at which the dispatch loop sees the confirmation.\<close>

definition signing_schedule ::
  "u8 \<Rightarrow> bytes \<Rightarrow> bytes \<Rightarrow> instant \<Rightarrow> instant \<Rightarrow> instant \<Rightarrow> instant \<Rightarrow> ('h, 'c) Turn list" where
  "signing_schedule i d padding t1 n1 t2 n2 =
     [ReportArrives (report 0x03 (i # d) padding)] @ [StateTurn t1 n1] @ replicate 5 (SampleButton True) @
     [StateTurn t2 n2, TouchSeen]"

lemma request_waits:
  assumes "phase s = Ready" and "sm_state (sm s) = Authenticated" and "EVENT_CHANNEL (chans s) = []"
    and "is_session_active E (service (fw s))" and "i < 16" and "length d = 32" and "length padding = 92"
  obtains s' where "run_turns E ([ReportArrives (report 0x03 (i # d) padding)] @ [StateTurn t n]) s = Some s'"
    and "phase s' = Waiting (Slot i) d" and "sm_state (sm s') = WaitingForTouch" and "EVENT_CHANNEL (chans s') = []"
    and "\<not> TOUCH_CONFIRMED (chans s')" and "button s' = button s" and "service (fw s') = service (fw s)"
    and "signs s' = signs s" "presses s' = presses s" "entries s' = entries s" "queued_then s' = 0"
proof -
  let ?s0 = "s\<lparr>fw := on_channels (\<lambda>ch. post_event SignRequested (ch\<lparr>TOUCH_CONFIRMED := False\<rparr>)) (fw s),
      phase := Waiting (Slot i) d, touched := False, queued_then := 0, pressed_since := 0\<rparr>"
  have s0: "run_turns E [ReportArrives (report 0x03 (i # d) padding)] s = Some ?s0"
    using turn_sign_report [OF assms(1,4-7)] assms(3) by simp
  have q: "EVENT_CHANNEL (chans ?s0) = [SignRequested]" using assms(3) by (simp add: post_event_queue)
  obtain s1 where s1: "run_turns E [StateTurn t n] ?s0 = Some s1"
    "phase s1 = Waiting (Slot i) d" "sm_state (sm s1) = WaitingForTouch" "EVENT_CHANNEL (chans s1) = []"
    "\<not> TOUCH_CONFIRMED (chans s1)" "button s1 = button s" "service (fw s1) = service (fw s)"
    "signs s1 = signs s" "presses s1 = presses s" "entries s1 = entries s" "queued_then s1 = 0"
    by (rule turn_event [OF q, of E t n]) (use assms(2) in simp)
  have "run_turns E ([ReportArrives (report 0x03 (i # d) padding)] @ [StateTurn t n]) s = Some s1"
    by (simp only: run_turns_append bind.bind_lunit s0 s1(1))
  then show thesis using that s1(2-) by blast
qed

lemma touch_confirms:
  assumes "phase s = Ready" and "sm_state (sm s) = Authenticated" and "EVENT_CHANNEL (chans s) = []"
    and "button s = Debouncer_new False" and "is_session_active E (service (fw s))"
    and "i < 16" and "length d = 32" and "length padding = 92"
  obtains s' where "run_turns E (signing_schedule i d padding t1 n1 t2 n2) s = Some s'"
    and "phase s' = Confirmed (Slot i) d" and "sm_state (sm s') = Signing" and "EVENT_CHANNEL (chans s') = []"
    and "\<not> TOUCH_CONFIRMED (chans s')" and "service (fw s') = service (fw s)"
    and "signs s' = signs s" "presses s' = Suc (presses s)" "entries s' = Suc (entries s)" "queued_then s' = 0"
proof -
  obtain s1 where s1: "run_turns E ([ReportArrives (report 0x03 (i # d) padding)] @ [StateTurn t1 n1]) s = Some s1"
    "phase s1 = Waiting (Slot i) d" "sm_state (sm s1) = WaitingForTouch" "EVENT_CHANNEL (chans s1) = []"
    "\<not> TOUCH_CONFIRMED (chans s1)" "button s1 = button s" "service (fw s1) = service (fw s)"
    "signs s1 = signs s" "presses s1 = presses s" "entries s1 = entries s" "queued_then s1 = 0"
    by (rule request_waits [OF assms(1-3,5-8), of t1 n1])
  define s2 where "s2 = s1\<lparr>fw := on_channels (post_event TouchPressed) (fw s1), button := pressed_button,
      presses := Suc (presses s1), pressed_since := Suc (pressed_since s1)\<rparr>"
  have s2: "run_turns E (replicate 5 (SampleButton True)) s1 = Some s2"
    unfolding s2_def by (rule turns_press) (simp add: s1(6) assms(4))
  have q: "EVENT_CHANNEL (chans s2) = [TouchPressed]" using s1(4) by (simp add: s2_def post_event_queue)
  obtain s3 where s3: "run_turns E [StateTurn t2 n2, TouchSeen] s2 = Some s3"
    "phase s3 = Confirmed (Slot i) d" "sm_state (sm s3) = Signing" "EVENT_CHANNEL (chans s3) = []"
    "\<not> TOUCH_CONFIRMED (chans s3)" "service (fw s3) = service (fw s)"
    "signs s3 = signs s" "presses s3 = Suc (presses s)" "entries s3 = Suc (entries s)" "queued_then s3 = 0"
    by (rule turn_event [OF q, of E t2 n2]) (use s1(2-) in \<open>simp add: s2_def\<close>)
  have "run_turns E (signing_schedule i d padding t1 n1 t2 n2) s = Some s3"
    unfolding signing_schedule_def append_assoc [symmetric]
    by (simp only: run_turns_append [of E "[ReportArrives _] @ [StateTurn _ _]"] run_turns_append [of E "_ @ replicate 5 _"]
        bind.bind_lunit s1(1) s2 s3(1))
  then show thesis using that s3(2-) by blast
qed

lemma expired_turn:
  assumes "timers_wf t" and "EVENT_CHANNEL ch = []"
    and "earliest entered (session_deadline t) (error_deadline t) \<le> now"
  shows "\<exists>t' ch'. state_task_turn entered now t ch = Some (t', ch') \<and>
    sm_state t' = (if user_active_state (sm_state t) \<and> sm_state t \<noteq> Signing \<or> sm_state t = Error then Idle else sm_state t) \<and>
    (sm_state t = Signing \<longrightarrow> session_deadline t' = Some (now + 30000))"
proof -
  obtain e a b where d: "derive_timer_event now (session_deadline t) (error_deadline t) = (e, a, b)"
    by (cases "derive_timer_event now (session_deadline t) (error_deadline t)")
  let ?t = "t\<lparr>session_deadline := a, error_deadline := b\<rparr>"
  obtain t' ch' where t: "apply_event now e ?t ch = (t', ch')" by (rule prod.exhaust)
  have "sm_state t' = on_event (sm_state t) e"
    using apply_event_sel(1) [of now e ?t ch] t by simp
  moreover have "state_task_turn entered now t ch = Some (t', ch')"
    using assms(2,3) d t by (simp add: state_task_turn_def)
  moreover have "session_deadline t' = Some (now + 30000)" if "sm_state t = Signing"
  proof -
    from that assms(1,3) d have "e = SessionEnded" "a = None"
      by (auto simp: timers_wf_def user_active_state_def earliest_def derive_timer_event_def split: option.splits)
    with that t show ?thesis
      by (auto simp: apply_event_def update_timers_def user_active_state_def from_millis_def SESSION_TIMEOUT_MS_def)
  qed
  moreover note timer_event_due [OF assms(1,3) d]
  ultimately show ?thesis by simp
qed

text \<open>
  A token on a soft chip: booted, its PIN verified over USB and the event processed. This
  state is reachable, so the runs that start in it are runs of the system.
\<close>

definition demo_system :: "(soft_chip, u64) System" where
  "demo_system = system_boot (atecc fresh_token) 0 False"

lemma verify_report_answered:
  assumes "verify_pin E PIN_DEFAULT (service w) = (Inr (), v)"
  shows "\<exists>n w'. begin_request E (report 0x07 PIN_DEFAULT (replicate 121 0)) w = (Responded n, w') \<and>
    service w' = v \<and> channels w' = post_event PinVerified (channels w)"
proof -
  let ?r = "write_status StatusOk [] (w\<lparr>service := v, channels := post_event PinVerified (channels w)\<rparr>)"
  have l: "length PIN_DEFAULT = 4" by code_simp
  then have "Frame_parse (report 0x07 PIN_DEFAULT (replicate 121 0)) = Inr \<lparr>opcode = 0x07, payload = PIN_DEFAULT\<rparr>"
    by (intro Frame_parse_report) simp
  moreover have "opcode_from_byte 0x07 = Some CmdVerifyPin" by code_simp
  moreover have "parse_verify_pin PIN_DEFAULT = Inr PIN_DEFAULT" using l by (simp add: parse_short_payloads)
  ultimately have "begin_request E (report 0x07 PIN_DEFAULT (replicate 121 0)) w = (Responded (fst ?r), snd ?r)"
    using assms
    by (simp add: begin_request_def responding_def handle_verify_pin_def with_payload_def on_service_def post_def split: prod.split)
  then show ?thesis by simp
qed

lemma demo_authenticated:
  obtains s where "(system_step (soft_env sum_hash))\<^sup>*\<^sup>* demo_system s"
    and "phase s = Ready" and "sm s = \<lparr>sm_state = Authenticated, session_deadline = Some 30000, error_deadline = None\<rparr>"
    and "EVENT_CHANNEL (chans s) = []" and "button s = Debouncer_new False"
    and "is_session_active (soft_env sum_hash) (service (fw s))"
    and "signs s = 0" "entries s = 0" "presses s = 0"
proof -
  let ?E = "soft_env sum_hash"
  obtain v where v: "verify_pin ?E PIN_DEFAULT (CryptoService_new (atecc fresh_token) 0) = (Inr (), v)" "is_session_active ?E v"
    using restarted_token_verifies by blast
  have d: "service (fw demo_system) = CryptoService_new (atecc fresh_token) 0" "EVENT_CHANNEL (chans demo_system) = [BootComplete]"
    "sm demo_system = \<lparr>sm_state = Booting, session_deadline = None, error_deadline = None\<rparr>"
    "phase demo_system = Ready" "button demo_system = Debouncer_new False"
    "signs demo_system = 0" "entries demo_system = 0" "presses demo_system = 0"
    by (simp_all add: demo_system_def system_boot_def state_task_start_def boot_channels_def post_event_queue Channels_new_def
        TokenState_initial_def)
  obtain s1 where s1: "run_turns ?E [StateTurn 0 0] demo_system = Some s1" "EVENT_CHANNEL (chans s1) = []"
    "service (fw s1) = CryptoService_new (atecc fresh_token) 0" "sm s1 = \<lparr>sm_state = Idle, session_deadline = None, error_deadline = None\<rparr>"
    "phase s1 = Ready" "button s1 = Debouncer_new False" "signs s1 = 0" "entries s1 = 0" "presses s1 = 0"
    by (rule turn_event [OF d(2), of ?E 0 0]) (use d in \<open>simp add: apply_event_def update_timers_def user_active_state_def\<close>)
  obtain n w where w: "begin_request ?E (report 0x07 PIN_DEFAULT (replicate 121 0)) (fw s1) = (Responded n, w)"
    "service w = v" "channels w = post_event PinVerified (chans s1)"
    using verify_report_answered [of ?E "fw s1" v] v(1) s1(3) by auto
  have r: "run_turns ?E [ReportArrives (report 0x07 PIN_DEFAULT (replicate 121 0))] s1 = Some (s1\<lparr>fw := w\<rparr>)"
    using w(1) s1(5) by simp
  have q: "EVENT_CHANNEL (chans (s1\<lparr>fw := w\<rparr>)) = [PinVerified]" using w(3) s1(2) by (simp add: post_event_queue)
  obtain s2 where s2: "run_turns ?E [StateTurn 0 0] (s1\<lparr>fw := w\<rparr>) = Some s2" "EVENT_CHANNEL (chans s2) = []"
    "service (fw s2) = v" "sm s2 = \<lparr>sm_state = Authenticated, session_deadline = Some 30000, error_deadline = None\<rparr>"
    "phase s2 = Ready" "button s2 = Debouncer_new False" "signs s2 = 0" "entries s2 = 0" "presses s2 = 0"
    by (rule turn_event [OF q, of ?E 0 0])
      (use s1 w in \<open>simp add: apply_event_def update_timers_def user_active_state_def from_millis_def SESSION_TIMEOUT_MS_def\<close>)
  have "run_turns ?E ([StateTurn 0 0] @ [ReportArrives (report 0x07 PIN_DEFAULT (replicate 121 0))] @ [StateTurn 0 0]) demo_system = Some s2"
    by (simp only: run_turns_append bind.bind_lunit s1(1) r s2(1))
  from run_turns_steps [OF this] show thesis using that s2 v(2) by blast
qed

text \<open>The same token with a request waiting and the button held for four samples.\<close>

lemma demo_waiting:
  obtains s where "(system_step (soft_env sum_hash))\<^sup>*\<^sup>* demo_system s"
    and "phase s = Waiting (Slot 2) (replicate 32 7)" and "sm_state (sm s) = WaitingForTouch"
    and "EVENT_CHANNEL (chans s) = []" and "button s = held_button"
    and "is_session_active (soft_env sum_hash) (service (fw s))" and "signs s = 0" and "presses s = 0"
proof -
  let ?E = "soft_env sum_hash"
  obtain s0 where s0: "(system_step ?E)\<^sup>*\<^sup>* demo_system s0" "phase s0 = Ready"
    "sm_state (sm s0) = Authenticated" "EVENT_CHANNEL (chans s0) = []"
    "is_session_active ?E (service (fw s0))" "button s0 = Debouncer_new False" "signs s0 = 0" "presses s0 = 0"
    using demo_authenticated by (metis StateTask.select_convs(1))
  obtain s1 where s1: "run_turns ?E ([ReportArrives (report 0x03 (2 # replicate 32 7) (replicate 92 0))] @ [StateTurn 0 0]) s0 = Some s1"
    "phase s1 = Waiting (Slot 2) (replicate 32 7)" "sm_state (sm s1) = WaitingForTouch" "EVENT_CHANNEL (chans s1) = []"
    "button s1 = button s0" "service (fw s1) = service (fw s0)" "signs s1 = signs s0" "presses s1 = presses s0"
    by (rule request_waits [OF s0(2-5), of 2 "replicate 32 7" "replicate 92 0" 0 0]) auto
  have b: "run_turns ?E (replicate 4 (SampleButton True)) s1 = Some (s1\<lparr>button := held_button\<rparr>)"
    using s1(5) s0(6) by (intro turns_hold) simp
  have "(system_step ?E)\<^sup>*\<^sup>* demo_system (s1\<lparr>button := held_button\<rparr>)"
    using s0(1) run_turns_steps [OF s1(1)] run_turns_steps [OF b] by (meson rtranclp_trans)
  then show thesis using that s0 s1 by simp
qed

section \<open>Properties\<close>

text \<open>
  C2. One touch, one signature. In every interleaving of the tasks from boot, with any
  reports, any button levels and any bus behaviour, the number of signing calls never
  exceeds the number of transitions of the state machine into \<open>Signing\<close>, and these never
  exceed the number of debounced presses of the button: no press authorises two
  signatures. Moreover, when the dispatch loop is about to sign, a transition that no
  earlier signature has used has happened since this very request was accepted, and it
  consumed a press that came after the request or was still waiting in the event queue at
  that moment: a confirmation or a press that had been processed before the request does
  not count. In particular, if no press was queued when the request was accepted, the
  button has been pressed since. The event queue never exceeds its 16 entries.
\<close>

theorem touch_per_signature:
  assumes "(system_step E)\<^sup>*\<^sup>* (system_boot a c pressed) s"
  shows "signs s \<le> entries s \<and> entries s \<le> presses s \<and>
    (\<forall>slot d. phase s = Confirmed slot d \<longrightarrow> touched s \<and> signs s < entries s \<and>
       0 < queued_then s + pressed_since s \<and> (queued_then s = 0 \<longrightarrow> 0 < pressed_since s)) \<and>
    length (EVENT_CHANNEL (chans s)) \<le> 16"
proof -
  have "system_inv s" using assms by (intro system.reachable_inv) auto
  then show ?thesis by (auto simp: system_inv_def inv_defs)
qed

text \<open>The run of a signature request with its touch, up to the confirmation.\<close>

theorem touch_per_signature_witness:
  "\<exists>s. (system_step (soft_env sum_hash))\<^sup>*\<^sup>* (system_boot (atecc fresh_token) 0 False) s \<and>
     phase s = Confirmed (Slot 2) (replicate 32 7) \<and> signs s = 0 \<and> entries s = 1 \<and> presses s = 1 \<and>
     queued_then s = 0 \<and> 0 < pressed_since s"
proof -
  let ?E = "soft_env sum_hash"
  obtain s0 where s0: "(system_step ?E)\<^sup>*\<^sup>* (system_boot (atecc fresh_token) 0 False) s0" "phase s0 = Ready"
    "sm_state (sm s0) = Authenticated" "EVENT_CHANNEL (chans s0) = []" "button s0 = Debouncer_new False"
    "is_session_active ?E (service (fw s0))" "signs s0 = 0" "entries s0 = 0" "presses s0 = 0"
    using demo_authenticated unfolding demo_system_def by (metis StateTask.select_convs(1))
  obtain s where s: "run_turns ?E (signing_schedule 2 (replicate 32 7) (replicate 92 0) 0 0 0 0) s0 = Some s"
    "phase s = Confirmed (Slot 2) (replicate 32 7)" "signs s = signs s0" "entries s = Suc (entries s0)"
    "presses s = Suc (presses s0)" "queued_then s = 0"
    using touch_confirms [OF s0(2-6), of 2 "replicate 32 7" "replicate 92 0" 0 0 0 0] by auto
  have r: "(system_step ?E)\<^sup>*\<^sup>* (system_boot (atecc fresh_token) 0 False) s"
    using s0(1) run_turns_steps [OF s(1)] by (rule rtranclp_trans)
  from touch_per_signature [OF r] s s0(7-9) r show ?thesis by auto
qed

text \<open>
  C5. A touch completes the signature. Let the dispatch loop be ready, the state machine
  authenticated, the session active, the event queue empty and the button released. Then
  a signature request, a turn of the state task, five samples at the pressed level, another
  turn of the state task and the turns of the dispatch loop carry out exactly one call
  of the signing method, with the slot and the digest of the request, for one press and one
  transition into \<open>Signing\<close>. After the next turn of the state task everything is as before:
  the loop is ready, the state machine authenticated and the touch signal down; only
  when signing failed is the error event still queued.
\<close>

theorem touch_completes_signature:
  assumes "phase s = Ready" and "sm_state (sm s) = Authenticated" and "EVENT_CHANNEL (chans s) = []"
    and "button s = Debouncer_new False" and "is_session_active E (service (fw s))"
    and "i < 16" and "length d = 32" and "length padding = 92"
  shows "\<exists>s'. run_turns E (signing_schedule i d padding t1 n1 t2 n2 @ [SignNow, StateTurn t3 n3]) s = Some s' \<and>
    phase s' = Ready \<and> signs s' = Suc (signs s) \<and> presses s' = Suc (presses s) \<and> entries s' = Suc (entries s) \<and>
    service (fw s') = snd (service_sign E (Slot i) d (service (fw s))) \<and>
    sm_state (sm s') = Authenticated \<and> \<not> TOUCH_CONFIRMED (chans s') \<and>
    EVENT_CHANNEL (chans s') = (case fst (service_sign E (Slot i) d (service (fw s))) of Inr _ \<Rightarrow> [] | Inl _ \<Rightarrow> [ErrorRaised])"
proof -
  obtain r v where r: "service_sign E (Slot i) d (service (fw s)) = (r, v)" by (rule prod.exhaust)
  obtain s3 where s3: "run_turns E (signing_schedule i d padding t1 n1 t2 n2) s = Some s3"
    "phase s3 = Confirmed (Slot i) d" "sm_state (sm s3) = Signing" "EVENT_CHANNEL (chans s3) = []"
    "\<not> TOUCH_CONFIRMED (chans s3)" "service (fw s3) = service (fw s)"
    "signs s3 = signs s" "presses s3 = Suc (presses s)" "entries s3 = Suc (entries s)"
    by (rule touch_confirms [OF assms, of t1 n1 t2 n2])
  have c: "service_sign E (Slot i) d (service (fw s3)) = (r, v)" using s3(6) r by simp
  let ?s3 = "s3\<lparr>fw := snd (handle_sign_confirmed E (Slot i) d (fw s3)), phase := Ready, signs := Suc (signs s3)\<rparr>"
  have q: "EVENT_CHANNEL (chans ?s3) = SignComplete # (case r of Inr _ \<Rightarrow> [] | Inl _ \<Rightarrow> [ErrorRaised])"
    and n: "\<not> TOUCH_CONFIRMED (chans ?s3)"
    using s3(4,5) sign_confirmed_effect(2) [OF c] by (simp_all add: post_event_queue split: sum.split)
  obtain s4 where s4: "run_turns E [SignNow, StateTurn t3 n3] s3 = Some s4"
    "phase s4 = Ready" "sm_state (sm s4) = Authenticated" "EVENT_CHANNEL (chans s4) = (case r of Inr _ \<Rightarrow> [] | Inl _ \<Rightarrow> [ErrorRaised])"
    "\<not> TOUCH_CONFIRMED (chans s4)" "service (fw s4) = v"
    "signs s4 = Suc (signs s)" "presses s4 = Suc (presses s)" "entries s4 = Suc (entries s)"
    by (rule turn_event [OF q, of E t3 n3]) (use s3(2-) n sign_confirmed_effect(1) [OF c] in simp)
  have "run_turns E (signing_schedule i d padding t1 n1 t2 n2 @ [SignNow, StateTurn t3 n3]) s = Some s4"
    by (simp only: run_turns_append bind.bind_lunit s3(1) s4(1))
  with s4(2-) show ?thesis by (intro exI [of _ s4]) (simp add: r)
qed

theorem touch_completes_signature_witness:
  "\<exists>s s'. (system_step (soft_env sum_hash))\<^sup>*\<^sup>* (system_boot (atecc fresh_token) 0 False) s \<and>
     run_turns (soft_env sum_hash) (signing_schedule 2 (replicate 32 7) (replicate 92 0) 0 0 0 0 @ [SignNow, StateTurn 0 0]) s = Some s' \<and>
     signs s' = 1 \<and> sm_state (sm s') = Authenticated"
proof -
  let ?E = "soft_env sum_hash"
  obtain s where s: "(system_step ?E)\<^sup>*\<^sup>* (system_boot (atecc fresh_token) 0 False) s" "phase s = Ready"
    "sm_state (sm s) = Authenticated" "EVENT_CHANNEL (chans s) = []" "button s = Debouncer_new False"
    "is_session_active ?E (service (fw s))" "signs s = 0"
    using demo_authenticated unfolding demo_system_def by (metis StateTask.select_convs(1))
  from touch_completes_signature [OF s(2-6), of 2 "replicate 32 7" "replicate 92 0" 0 0 0 0 0 0] s(1,7) show ?thesis by auto
qed

text \<open>
  C24. The timers of the state task. In every reachable state the session deadline is
  armed exactly in \<open>Authenticated\<close>, \<open>WaitingForTouch\<close> and \<open>Signing\<close>, and the error deadline exactly
  in \<open>Error\<close>. While the queue is empty the task waits until the earliest deadline has
  passed; its turn then takes \<open>Authenticated\<close>, \<open>WaitingForTouch\<close> and \<open>Error\<close> to \<open>Idle\<close> and leaves
  every other state alone: \<open>Signing\<close> is not interrupted and gets another 30 s, and the
  fallback for a timer without a deadline never has an effect.
\<close>

theorem state_task_timers:
  assumes "(system_step E)\<^sup>*\<^sup>* (system_boot a c pressed) s"
  shows "(session_deadline (sm s) \<noteq> None \<longleftrightarrow>
      sm_state (sm s) = Authenticated \<or> sm_state (sm s) = WaitingForTouch \<or> sm_state (sm s) = Signing) \<and>
    (error_deadline (sm s) \<noteq> None \<longleftrightarrow> sm_state (sm s) = Error) \<and>
    (EVENT_CHANNEL (chans s) = [] \<longrightarrow>
      (if earliest entered (session_deadline (sm s)) (error_deadline (sm s)) \<le> now
       then \<exists>t ch. state_task_turn entered now (sm s) (chans s) = Some (t, ch) \<and> sm_state t =
         (if sm_state (sm s) = Authenticated \<or> sm_state (sm s) = WaitingForTouch \<or> sm_state (sm s) = Error
          then Idle else sm_state (sm s)) \<and>
         (sm_state (sm s) = Signing \<longrightarrow> session_deadline t = Some (now + 30000))
       else state_task_turn entered now (sm s) (chans s) = None))"
proof -
  have "system_inv s" using assms by (intro system.reachable_inv) auto
  then have w: "timers_wf (sm s)" by (simp add: system_inv_def)
  have "\<exists>t ch. state_task_turn entered now (sm s) (chans s) = Some (t, ch) \<and>
      sm_state t = (if user_active_state (sm_state (sm s)) \<and> sm_state (sm s) \<noteq> Signing \<or> sm_state (sm s) = Error
        then Idle else sm_state (sm s)) \<and> (sm_state (sm s) = Signing \<longrightarrow> session_deadline t = Some (now + 30000))"
    if "EVENT_CHANNEL (chans s) = []" "earliest entered (session_deadline (sm s)) (error_deadline (sm s)) \<le> now"
    using expired_turn [OF w that] .
  moreover have "state_task_turn entered now (sm s) (chans s) = None"
    if "EVENT_CHANNEL (chans s) = []" "\<not> earliest entered (session_deadline (sm s)) (error_deadline (sm s)) \<le> now"
    using that by (simp add: state_task_turn_def)
  ultimately show ?thesis using w by (cases "sm_state (sm s)") (auto simp: timers_wf_def user_active_state_def)
qed

theorem state_task_timers_witness:
  "\<exists>s t ch. (system_step (soft_env sum_hash))\<^sup>*\<^sup>* (system_boot (atecc fresh_token) 0 False) s \<and>
     sm s = \<lparr>sm_state = Authenticated, session_deadline = Some 30000, error_deadline = None\<rparr> \<and>
     state_task_turn 0 29999 (sm s) (chans s) = None \<and>
     state_task_turn 0 30000 (sm s) (chans s) = Some (t, ch) \<and> sm_state t = Idle"
proof -
  obtain s where s: "(system_step (soft_env sum_hash))\<^sup>*\<^sup>* (system_boot (atecc fresh_token) 0 False) s"
    "sm s = \<lparr>sm_state = Authenticated, session_deadline = Some 30000, error_deadline = None\<rparr>" "EVENT_CHANNEL (chans s) = []"
    using demo_authenticated unfolding demo_system_def by metis
  from state_task_timers [OF s(1), of 0 29999] state_task_timers [OF s(1), of 0 30000] s show ?thesis
    by (auto simp: earliest_def)
qed

text \<open>A booted system whose state task has consumed the boot event.\<close>

definition demo_idle :: "(soft_chip, u64) System" where
  "demo_idle = demo_system\<lparr>fw := on_channels (\<lambda>_. \<lparr>EVENT_CHANNEL = [], TOKEN_STATE = Some Idle, TOUCH_CONFIRMED = False\<rparr>) (fw demo_system),
     sm := \<lparr>sm_state = Idle, session_deadline = None, error_deadline = None\<rparr>,
     entries := 0, touched := False\<rparr>"

lemma demo_idle_reachable:
  "(system_step (soft_env sum_hash))\<^sup>*\<^sup>* (system_boot (atecc fresh_token) 0 False) demo_idle"
proof -
  have "state_task_turn 0 0 (sm demo_system) (chans demo_system) =
      Some (\<lparr>sm_state = Idle, session_deadline = None, error_deadline = None\<rparr>,
        \<lparr>EVENT_CHANNEL = [], TOKEN_STATE = Some Idle, TOUCH_CONFIRMED = False\<rparr>)"
    by code_simp
  from system_step.state_turn [OF this refl, of "soft_env sum_hash"]
  have "system_step (soft_env sum_hash) demo_system demo_idle"
    by (simp add: demo_idle_def demo_system_def system_boot_def state_task_start_def)
  then show ?thesis unfolding demo_system_def by blast
qed

text \<open>
  C25. The LEDs tell the truth. In every reachable state the current state of the state
  machine is either waiting in the signal for the animation task, or it is the state the
  animation task displays, and then the LED levels are those of that state's pattern in
  one of its two phases. In particular the yellow LED alone, steady, means that the token
  waits for a touch.
\<close>

theorem leds_follow_state:
  assumes "(system_step E)\<^sup>*\<^sup>* (system_boot a c pressed) s"
  shows "TOKEN_STATE (chans s) = Some (sm_state (sm s)) \<or>
    (\<exists>an phase. TOKEN_STATE (chans s) = None \<and> anim s = Some an \<and> an_state an = sm_state (sm s) \<and>
       leds an = fst (apply_pattern (led_pattern (sm_state (sm s))) phase))"
proof -
  have "system_inv s" using assms by (intro system.reachable_inv) auto
  then show ?thesis by (auto simp: system_inv_def published_def drawn_def)
qed

theorem leds_follow_state_witness:
  "TOKEN_STATE (chans demo_idle) = Some Idle"
  using leds_follow_state [OF demo_idle_reachable] by (simp add: demo_idle_def)

text \<open>
  C26. A touch in the last moment locks out signing. If the button press is accepted while
  the dispatch loop waits, but the loop's time-out fires before the state task has run,
  then the state machine enters \<open>Signing\<close> with nobody left to sign: the time-out is
  ignored in that state. From then on no interleaving whatsoever, with any reports and any
  touches, reaches another signature or leaves \<open>Signing\<close>.
\<close>

theorem lost_touch_locks_out_signing:
  assumes "phase s = Waiting slot d" and "sm_state (sm s) = WaitingForTouch"
    and "EVENT_CHANNEL (chans s) = []" and "fst (Debouncer_sample True (button s)) = Some True"
  shows "\<exists>s'. (system_step E)\<^sup>*\<^sup>* s s' \<and> phase s' = Ready \<and> EVENT_CHANNEL (chans s') = [TouchTimeout] \<and>
    (\<forall>s''. (system_step E)\<^sup>*\<^sup>* s' s'' \<longrightarrow> signs s'' = signs s \<and> sm_state (sm s'') = Signing)"
proof -
  obtain b where b: "sample_once True (button s) (chans s) = (b, post_event TouchPressed (chans s))"
    using assms(4) by (cases "Debouncer_sample True (button s)") (simp add: sample_once_def)
  define s1 where "s1 = s\<lparr>fw := on_channels (\<lambda>_. post_event TouchPressed (chans s)) (fw s), button := b,
      presses := presses s + of_bool (fst (Debouncer_sample True (button s)) = Some True),
      pressed_since := pressed_since s + of_bool (fst (Debouncer_sample True (button s)) = Some True)\<rparr>"
  have 1: "system_step E s s1" unfolding s1_def using b by (rule system_step.sampled)
  obtain n w where w: "handle_sign_timed_out (fw s1) = (n, w)" by fastforce
  define s2 where "s2 = s1\<lparr>fw := w, phase := Ready\<rparr>"
  have 2: "system_step E s1 s2" unfolding s2_def
    using _ w by (rule system_step.timed_out [of _ slot d]) (simp add: s1_def assms(1))
  have q2: "EVENT_CHANNEL (chans s2) = [TouchPressed, TouchTimeout]"
    using timed_out_channels [OF w] assms(3) by (simp add: s2_def s1_def post_event_queue)
  obtain t ch where t: "state_task_turn 0 0 (sm s2) (chans s2) = Some (t, ch)"
    using q2 by (simp add: state_task_turn_def) (metis surj_pair)
  then have r: "apply_event 0 TouchPressed (sm s2) ((chans s2)\<lparr>EVENT_CHANNEL := [TouchTimeout]\<rparr>) = (t, ch)"
    using q2 by (simp add: state_task_turn_def)
  have st2: "sm_state (sm s2) = WaitingForTouch" by (simp add: s2_def s1_def assms(2))
  have ch: "sm_state t = Signing" "EVENT_CHANNEL ch = [TouchTimeout]"
    using apply_event_sel [of 0 TouchPressed "sm s2" "(chans s2)\<lparr>EVENT_CHANNEL := [TouchTimeout]\<rparr>"]
    by (simp_all add: r st2)
  define s3 where "s3 = s2\<lparr>fw := on_channels (\<lambda>_. ch) (fw s2), sm := t, entries := entries s2 + of_bool True,
      touched := (touched s2 \<or> True)\<rparr>"
  have 3: "system_step E s2 s3" unfolding s3_def
    using t by (rule system_step.state_turn) (simp add: ch st2)
  have k: "stuck s3" by (simp add: stuck_def s3_def s2_def ch)
  have r3: "(system_step E)\<^sup>*\<^sup>* s s3"
    by (rule rtranclp.rtrancl_into_rtrancl [OF rtranclp.rtrancl_into_rtrancl [OF r_into_rtranclp [of "system_step E", OF 1] 2] 3])
  have s3: "signs s3 = signs s" "phase s3 = Ready" "EVENT_CHANNEL (chans s3) = [TouchTimeout]"
    by (simp_all add: s3_def s2_def s1_def ch)
  have "signs s'' = signs s \<and> sm_state (sm s'') = Signing" if "(system_step E)\<^sup>*\<^sup>* s3 s''" for s''
    using stuck_signs [OF that k] stuck_inv.run_inv [OF that k] s3(1) unfolding stuck_def by simp
  with r3 s3(2,3) show ?thesis by blast
qed

theorem lost_touch_locks_out_signing_witness:
  "\<exists>s s'. (system_step (soft_env sum_hash))\<^sup>*\<^sup>* (system_boot (atecc fresh_token) 0 False) s \<and>
     phase s = Waiting (Slot 2) (replicate 32 7) \<and> (system_step (soft_env sum_hash))\<^sup>*\<^sup>* s s' \<and> phase s' = Ready \<and>
     (\<forall>s''. (system_step (soft_env sum_hash))\<^sup>*\<^sup>* s' s'' \<longrightarrow> signs s'' = 0 \<and> sm_state (sm s'') = Signing)"
proof -
  let ?E = "soft_env sum_hash"
  obtain s where s: "(system_step ?E)\<^sup>*\<^sup>* (system_boot (atecc fresh_token) 0 False) s"
    "phase s = Waiting (Slot 2) (replicate 32 7)" "sm_state (sm s) = WaitingForTouch" "EVENT_CHANNEL (chans s) = []"
    "button s = held_button" "signs s = 0"
    using demo_waiting unfolding demo_system_def by metis
  have "fst (Debouncer_sample True (button s)) = Some True" by (simp add: s(5) held_sample)
  from lost_touch_locks_out_signing [OF s(2-4) this, of ?E] s(1,2,6) show ?thesis by metis
qed

text \<open>
  C27. A press that is still queued confirms the next request. Let a press be accepted while
  the dispatch loop waits for the touch of one request, and let this wait time out and
  another request be accepted before the state task has processed the press. Then the
  state task applies the old press to the new request, which is confirmed although the
  button was not pressed since it was accepted: draining the touch signal at the start of a request
  does not reach a press that waits in the event queue. So the alternative in the
  guarantee for signatures, a press that was queued when the request was accepted, does occur.
\<close>

theorem stale_press_confirms_next_request:
  assumes "phase s = Waiting slot d" and "sm_state (sm s) = WaitingForTouch" and "EVENT_CHANNEL (chans s) = []"
    and "fst (Debouncer_sample True (button s)) = Some True" and "is_session_active E (service (fw s))"
    and "i < 16" and "length d' = 32" and "length padding = 92"
  shows "\<exists>s1 s2. run_turns E [SampleButton True, WaitTimesOut, ReportArrives (report 0x03 (i # d') padding)] s = Some s1 \<and>
    phase s1 = Waiting (Slot i) d' \<and> presses s1 = Suc (presses s) \<and> queued_then s1 = 1 \<and>
    run_turns E [StateTurn t n, TouchSeen] s1 = Some s2 \<and>
    phase s2 = Confirmed (Slot i) d' \<and> presses s2 = presses s1 \<and> pressed_since s2 = 0 \<and> signs s2 = signs s"
proof -
  obtain b where b: "Debouncer_sample True (button s) = (Some True, b)" using assms(4) by (metis prod.collapse)
  let ?w = "on_channels (post_event TouchPressed) (fw s)"
  let ?v = "s\<lparr>fw := snd (handle_sign_timed_out ?w), phase := Ready, button := b,
      presses := Suc (presses s), pressed_since := Suc (pressed_since s)\<rparr>"
  have v: "run_turns E [SampleButton True, WaitTimesOut] s = Some ?v"
    using assms(1) by (simp add: b sample_once_def Let_def on_channels_def)
  have k: "service (fw ?v) = service (fw s)" "EVENT_CHANNEL (chans ?v) = [TouchPressed, TouchTimeout]"
    using assms(3) by (simp_all add: handle_sign_timed_out_def post_def post_event_queue)
  let ?u = "?v\<lparr>fw := on_channels (\<lambda>ch. post_event SignRequested (ch\<lparr>TOUCH_CONFIRMED := False\<rparr>)) (fw ?v),
      phase := Waiting (Slot i) d', touched := False, queued_then := 1, pressed_since := 0\<rparr>"
  have u: "take_turn E (ReportArrives (report 0x03 (i # d') padding)) ?v = Some ?u"
    using turn_sign_report [of ?v E i d' padding] assms(5-8) k by simp
  have q: "EVENT_CHANNEL (chans ?u) = [TouchPressed, TouchTimeout, SignRequested]"
    using k(2) by (simp add: post_event_queue)
  obtain s2 where "run_turns E [StateTurn t n, TouchSeen] ?u = Some s2" "phase s2 = Confirmed (Slot i) d'"
    "presses s2 = presses ?u" "pressed_since s2 = 0" "signs s2 = signs s"
    by (rule turn_event [OF q, of E t n]) (use assms(2) in simp)
  moreover have "run_turns E [SampleButton True, WaitTimesOut, ReportArrives (report 0x03 (i # d') padding)] s = Some ?u"
    using v u run_turns_append [of E "[SampleButton True, WaitTimesOut]" "[ReportArrives (report 0x03 (i # d') padding)]" s] by simp
  ultimately show ?thesis by (intro exI [of _ ?u] exI [of _ s2]) simp
qed

theorem stale_press_confirms_next_request_witness:
  "\<exists>s s1 s2. (system_step (soft_env sum_hash))\<^sup>*\<^sup>* (system_boot (atecc fresh_token) 0 False) s \<and>
     run_turns (soft_env sum_hash) [SampleButton True, WaitTimesOut, ReportArrives (report 0x03 (3 # replicate 32 9) (replicate 92 0))] s = Some s1 \<and>
     run_turns (soft_env sum_hash) [StateTurn 0 0, TouchSeen] s1 = Some s2 \<and>
     phase s2 = Confirmed (Slot 3) (replicate 32 9) \<and> pressed_since s2 = 0"
proof -
  let ?E = "soft_env sum_hash"
  obtain s where s: "(system_step ?E)\<^sup>*\<^sup>* (system_boot (atecc fresh_token) 0 False) s"
    "phase s = Waiting (Slot 2) (replicate 32 7)" "sm_state (sm s) = WaitingForTouch" "EVENT_CHANNEL (chans s) = []"
    "button s = held_button" "is_session_active ?E (service (fw s))"
    using demo_waiting unfolding demo_system_def by metis
  have "fst (Debouncer_sample True (button s)) = Some True" by (simp add: s(5) held_sample)
  from stale_press_confirms_next_request [OF s(2-4) this s(6), of 3 "replicate 32 9" "replicate 92 0" 0 0] s(1) show ?thesis by auto
qed

end
