(* ===== verification/Rp2040_Hal.thy ===== *)
theory Rp2040_Hal
  imports Service_Policy
begin

text \<open>
  The backend of the firmware (\<^verbatim>\<open>hsm-firmware/hal_rp2040.rs\<close>). The I2C controller and the
  timer of \<^verbatim>\<open>embassy_rp\<close> are parameters: a transfer is given the bus frequency of the
  controller that is built for it. A locale says what every backend gets from the driver
  and the service above it: whatever is true of each bus operation that the driver may
  perform is true of every method of the service.
\<close>

unbundle bit_operations_syntax

section \<open>The backend\<close>

definition I2C_FREQ_HZ :: u32 where "I2C_FREQ_HZ = 400000"
definition WAKE_TOKEN_FREQ_HZ :: u32 where "WAKE_TOKEN_FREQ_HZ = 100000"
definition WAKE_TOKEN_ADDR :: u8 where "WAKE_TOKEN_ADDR = 0x00"
definition WAKE_TOKEN_FILLER :: u8 where "WAKE_TOKEN_FILLER = 0x00"

lemmas rp2040_consts = I2C_FREQ_HZ_def WAKE_TOKEN_FREQ_HZ_def WAKE_TOKEN_ADDR_def WAKE_TOKEN_FILLER_def

datatype 'e Rp2040HalError = I2c 'e

text \<open>
  The controller, built for one transfer with a frequency (\<open>I2c::new_async\<close>), and the timer,
  which waits for a number of microseconds.
\<close>

record ('p, 'e) Peripheral =
  write_async :: "u32 \<Rightarrow> u8 \<Rightarrow> bytes \<Rightarrow> ('p, 'e, unit) act"
  read_async :: "u32 \<Rightarrow> u8 \<Rightarrow> nat \<Rightarrow> ('p, 'e, nat \<Rightarrow> u8) act"
  timer_after :: "u64 \<Rightarrow> 'p \<Rightarrow> 'p"

definition rp2040_i2c_write :: "('p, 'e) Peripheral \<Rightarrow> u8 \<Rightarrow> bytes \<Rightarrow> ('p, 'e Rp2040HalError, unit) act" where
  "rp2040_i2c_write P addr data = map_err I2c (write_async P I2C_FREQ_HZ addr data)"

definition rp2040_i2c_read :: "('p, 'e) Peripheral \<Rightarrow> u8 \<Rightarrow> nat \<Rightarrow> ('p, 'e Rp2040HalError, nat \<Rightarrow> u8) act" where
  "rp2040_i2c_read P addr n = map_err I2c (read_async P I2C_FREQ_HZ addr n)"

text \<open>The wake token: the result of the transfer is discarded, the duration is not used.\<close>

definition rp2040_pulse_sda_low :: "('p, 'e) Peripheral \<Rightarrow> u32 \<Rightarrow> ('p, 'e Rp2040HalError, unit) act" where
  "rp2040_pulse_sda_low P duration_us =
     and_then (attempt (map_err I2c (write_async P WAKE_TOKEN_FREQ_HZ WAKE_TOKEN_ADDR [WAKE_TOKEN_FILLER]))) (\<lambda>_.
       return_ok ())"

definition rp2040_delay_us :: "('p, 'e) Peripheral \<Rightarrow> u32 \<Rightarrow> 'p \<Rightarrow> 'p" where
  "rp2040_delay_us P duration_us = timer_after P (ucast duration_us)"

definition rp2040_delay_ms :: "('p, 'e) Peripheral \<Rightarrow> u32 \<Rightarrow> 'p \<Rightarrow> 'p" where
  "rp2040_delay_ms P duration_ms = timer_after P (ucast duration_ms * 1000)"

definition rp2040_hal :: "('p, 'e) Peripheral \<Rightarrow> ('p, 'e Rp2040HalError) AteccHal" where
  "rp2040_hal P =
     \<lparr>i2c_write = rp2040_i2c_write P,
      i2c_read = rp2040_i2c_read P,
      pulse_sda_low = rp2040_pulse_sda_low P,
      delay_us = rp2040_delay_us P,
      delay_ms = rp2040_delay_ms P\<rparr>"

lemma rp2040_hal_sel [simp]:
  "i2c_write (rp2040_hal P) = rp2040_i2c_write P" "i2c_read (rp2040_hal P) = rp2040_i2c_read P"
  "pulse_sda_low (rp2040_hal P) = rp2040_pulse_sda_low P" "delay_us (rp2040_hal P) = rp2040_delay_us P"
  "delay_ms (rp2040_hal P) = rp2040_delay_ms P"
  by (simp_all add: rp2040_hal_def)

text \<open>The LEDs light on a high pin, the button pulls its pin low.\<close>

record Pin =
  is_high :: bool

definition Rp2040Led_on :: "Pin \<Rightarrow> Pin" where "Rp2040Led_on pin = pin\<lparr>is_high := True\<rparr>"
definition Rp2040Led_off :: "Pin \<Rightarrow> Pin" where "Rp2040Led_off pin = pin\<lparr>is_high := False\<rparr>"
definition is_pressed_raw :: "Pin \<Rightarrow> bool" where "is_pressed_raw pin \<longleftrightarrow> \<not> is_high pin"

section \<open>Relations that computations stay within\<close>

text \<open>\<open>moves Q m\<close>: whatever the outcome, the state that \<open>m\<close> leaves is related to its start.\<close>

definition moves :: "('s \<Rightarrow> 's \<Rightarrow> bool) \<Rightarrow> ('s, 'e, 'a) act \<Rightarrow> bool" where
  "moves Q m \<longleftrightarrow> (\<forall>s. Q s (snd (m s)))"

lemma movesI: "(\<And>s. Q s (snd (m s))) \<Longrightarrow> moves Q m"
  by (simp add: moves_def)

lemma movesD: "moves Q m \<Longrightarrow> Q s (snd (m s))"
  by (simp add: moves_def)

lemma moves_still:
  assumes "reflp Q"
  shows "moves Q (return_ok a)" "moves Q (return_err e)" "moves Q (of_result r)" "moves Q (gets f)"
  using assms by (simp_all add: moves_def act_defs reflp_def)

lemma moves_modify: "(\<And>s. Q s (f s)) \<Longrightarrow> moves Q (modify f)"
  by (simp add: moves_def modify_def)

lemma moves_and_then:
  assumes "transp Q" and "moves Q m" and "\<And>a. moves Q (f a)"
  shows "moves Q (and_then m f)"
proof (rule movesI)
  fix s
  obtain r t where m: "m s = (r, t)" by fastforce
  with movesD [OF assms(2), of s] have st: "Q s t" by simp
  show "Q s (snd (and_then m f s))"
  proof (cases r)
    case (Inr a)
    from transpD [OF assms(1) st movesD [OF assms(3)]] m Inr show ?thesis by (simp add: and_then_def)
  qed (use m st in \<open>simp add: and_then_def\<close>)
qed

lemma moves_attempt: "moves Q m \<Longrightarrow> moves Q (attempt m)"
  by (simp add: moves_def attempt_def case_prod_beta)

lemma moves_map_err: "moves Q m \<Longrightarrow> moves Q (map_err g m)"
  by (auto simp: moves_def map_err_def split: prod.split sum.split) (metis snd_conv)+

lemma moves_if: "moves Q m \<Longrightarrow> moves Q n \<Longrightarrow> moves Q (if b then m else n)"
  by simp

lemma moves_case_sum: "(\<And>e. moves Q (f e)) \<Longrightarrow> (\<And>a. moves Q (g a)) \<Longrightarrow> moves Q (case r of Inl e \<Rightarrow> f e | Inr a \<Rightarrow> g a)"
  by (cases r) simp_all

lemma moves_case_option: "moves Q m \<Longrightarrow> (\<And>a. moves Q (f a)) \<Longrightarrow> moves Q (case x of None \<Rightarrow> m | Some a \<Rightarrow> f a)"
  by (cases x) simp_all

lemma moves_case_prod: "(\<And>a b. moves Q (f a b)) \<Longrightarrow> moves Q (case x of (a, b) \<Rightarrow> f a b)"
  by (cases x) simp

lemma moves_case_ResponseFrame:
  "(\<And>p. moves Q (f p)) \<Longrightarrow> (\<And>b. moves Q (g b)) \<Longrightarrow> moves Q (case x of Payload p \<Rightarrow> f p | Status b \<Rightarrow> g b)"
  by (cases x) simp_all

lemmas moves_intros = moves_and_then moves_attempt moves_map_err moves_if moves_case_sum moves_case_option
  moves_case_prod moves_case_ResponseFrame moves_still

section \<open>What the driver and the service do to a backend\<close>

definition chan_rel :: "(u8 \<Rightarrow> 'h \<Rightarrow> 'h \<Rightarrow> bool) \<Rightarrow> 'h Atecc \<Rightarrow> 'h Atecc \<Rightarrow> bool" where
  "chan_rel R s t \<longleftrightarrow> device_addr t = device_addr s \<and> R (device_addr s) (hal s) (hal t)"

definition svc_rel :: "(u8 \<Rightarrow> 'h \<Rightarrow> 'h \<Rightarrow> bool) \<Rightarrow> ('h, 'c) CryptoService \<Rightarrow> ('h, 'c) CryptoService \<Rightarrow> bool" where
  "svc_rel R s t \<longleftrightarrow> chan_rel R (atecc s) (atecc t)"

text \<open>
  A relation that every bus operation stays within. The driver never writes an empty buffer
  and never reads zero bytes, so nothing is asked of those.
\<close>

locale bus_relation =
  fixes H :: "('h, 'e) AteccHal" and R :: "u8 \<Rightarrow> 'h \<Rightarrow> 'h \<Rightarrow> bool"
  assumes refl: "R a h h"
    and trans: "R a h h' \<Longrightarrow> R a h' h'' \<Longrightarrow> R a h h''"
    and on_write: "wire \<noteq> [] \<Longrightarrow> R a h (snd (i2c_write H a wire h))"
    and on_read: "0 < n \<Longrightarrow> R a h (snd (i2c_read H a n h))"
    and on_pulse: "R a h (snd (pulse_sda_low H us h))"
    and on_delay: "R a h (delay_us H us h)" "R a h (delay_ms H ms h)"
begin

lemma orders:
  "reflp (R a)" "reflp (chan_rel R)" "reflp (svc_rel R)" "transp (R a)" "transp (chan_rel R)" "transp (svc_rel R)"
  by (auto simp: reflp_def transp_def chan_rel_def svc_rel_def refl intro: trans)

lemma moves_bus:
  "wire \<noteq> [] \<Longrightarrow> moves (R a) (i2c_write H a wire)" "0 < n \<Longrightarrow> moves (R a) (i2c_read H a n)"
  "moves (R a) (pulse_sda_low H us)" "moves (R a) (modify (delay_us H us))" "moves (R a) (modify (delay_ms H ms))"
  "0 < n \<Longrightarrow> moves (R a) (read_exact H a n)"
  unfolding read_exact_def
  by (intro moves_intros orders movesI on_write on_read on_pulse; simp add: modify_def on_delay on_read)+

lemma moves_on_hal: "(\<And>a. moves (R a) (m a)) \<Longrightarrow> moves (chan_rel R) (on_hal m)"
  by (simp add: moves_def on_hal_def chan_rel_def case_prod_beta)

lemma moves_poll_loop: "moves (R a) (poll_loop H a m buf elapsed)"
  by (rule movesI, rule poll_loop_invariant [where I = "R a h" for h]) (auto intro: trans on_read on_delay refl)

lemma moves_channel: "moves (chan_rel R) (open_channel H)" "moves (chan_rel R) (close H)"
  unfolding open_channel_def close_def wake_def idle_def
  by (intro moves_on_hal moves_intros moves_bus orders; simp)+

lemma moves_run_command: "moves (chan_rel R) (run_command H op p1 p2 data ms buf)"
proof (cases "length data \<le> 155")
  case True
  show ?thesis unfolding run_command_ok [OF True] poll_for_response_def
    by (intro moves_intros moves_on_hal moves_bus moves_poll_loop orders) simp
next
  case False
  then show ?thesis using orders(2) by (intro movesI) (simp add: run_command_too_long reflp_def)
qed

lemma moves_execute:
  "moves (chan_rel R) (execute_command H op p1 p2 data ms buf)"
  "moves (chan_rel R) (execute_command_status H op p1 p2 data ms)"
  unfolding execute_command_def execute_command_status_def
  by (intro moves_intros moves_run_command orders)+

lemma moves_commands:
  "moves (chan_rel R) (random H)" "moves (chan_rel R) (info_revision H)"
  "moves (chan_rel R) (counter_read H c)" "moves (chan_rel R) (counter_increment H c)"
  "moves (chan_rel R) (gendig H gz k)" "moves (chan_rel R) (genkey_create H slot)"
  "moves (chan_rel R) (genkey_public H slot)" "moves (chan_rel R) (nonce_passthrough H target v)"
  "moves (chan_rel R) (sign_external H slot)" "moves (chan_rel R) (read_4 H z x)" "moves (chan_rel R) (read_32 H z x)"
  "moves (chan_rel R) (write_4 H z x d)" "moves (chan_rel R) (write_32 H z x d)"
  "moves (chan_rel R) (write_32_encrypted H z x d)" "moves (chan_rel R) (lock_config_zone H crc)"
  "moves (chan_rel R) (lock_data_zone H)" "moves (chan_rel R) (lock_slot H slot)"
  "moves (chan_rel R) (checkmac H slot ch r od)"
  unfolding command_defs counter_read_def counter_increment_def Let_def
  by (intro moves_intros moves_execute orders)+

lemma moves_loops:
  "moves (chan_rel R) (read_config_blocks H bs out)" "moves (chan_rel R) (write_words H b d ws)"
  "moves (chan_rel R) (regenerate_keys H slots)" "moves (chan_rel R) (bump_counter H c n)"
proof -
  show "moves (chan_rel R) (read_config_blocks H bs out)"
    by (induction bs arbitrary: out) (auto intro!: moves_intros moves_commands orders)
  show "moves (chan_rel R) (write_words H b d ws)"
    by (induction ws) (auto simp: Let_def intro!: moves_intros moves_commands orders)
  show "moves (chan_rel R) (regenerate_keys H slots)"
    by (induction slots) (auto intro!: moves_intros moves_commands orders)
  show "moves (chan_rel R) (bump_counter H c n)"
    by (induction n) (auto intro!: moves_intros moves_commands moves_channel orders)
qed

end

text \<open>The service on such a backend.\<close>

locale service_bus_relation = bus_relation "env_hal E" R
  for E :: "('h, 'e, 'c) Env" and R :: "u8 \<Rightarrow> 'h \<Rightarrow> 'h \<Rightarrow> bool"
begin

lemma moves_on_atecc: "moves (chan_rel R) m \<Longrightarrow> moves (svc_rel R) (on_atecc m)"
  by (simp add: moves_def on_atecc_def svc_rel_def case_prod_beta)

lemma moves_host: "(\<And>s. atecc (f s) = atecc s) \<Longrightarrow> moves (svc_rel R) (modify f)"
  using orders(2) by (intro moves_modify) (simp add: svc_rel_def reflp_def)

lemma moves_in_channel:
  "moves (chan_rel R) m \<Longrightarrow> moves (svc_rel R) (in_channel E m)"
  "moves (chan_rel R) m \<Longrightarrow> moves (svc_rel R) (in_channel_always_closed E m)"
  unfolding in_channel_def in_channel_always_closed_def
  by (intro moves_on_atecc moves_intros moves_channel orders; assumption)+

lemma moves_workflows:
  "moves (svc_rel R) (read_counter E c)" "moves (svc_rel R) (read_whole_config E)" "moves (svc_rel R) (cached_serial E)"
  "moves (svc_rel R) (generate_random_puk E)" "moves (svc_rel R) (write_slot_encrypted E slot p k sn)"
  "moves (svc_rel R) (check_format code)" "moves (svc_rel R) (checkmac_with_hash E slot v sn)"
  "moves (svc_rel R) (refresh_counter_batch E c n)" "moves (svc_rel R) (open_session_now E)"
  "moves (svc_rel R) (touch_session now)"
proof -
  show w: "moves (svc_rel R) (read_whole_config E)" unfolding read_whole_config_def read_config_zone_def
    by (intro moves_in_channel moves_loops)
  show "moves (svc_rel R) (cached_serial E)" unfolding cached_serial_def Let_def
    by (intro moves_intros orders w moves_host) simp
  show "moves (svc_rel R) (read_counter E c)" "moves (svc_rel R) (generate_random_puk E)"
    "moves (svc_rel R) (write_slot_encrypted E slot p k sn)"
    unfolding read_counter_def generate_random_puk_def write_slot_encrypted_def Let_def
    by (intro moves_intros moves_in_channel moves_commands orders)+
  show "moves (svc_rel R) (checkmac_with_hash E slot v sn)" "moves (svc_rel R) (refresh_counter_batch E c n)"
    unfolding checkmac_with_hash_def refresh_counter_batch_def Let_def
    by (intro moves_on_atecc moves_intros moves_channel moves_commands moves_loops orders)+
  show "moves (svc_rel R) (check_format code)" unfolding check_format_def by (intro moves_intros orders)
  show "moves (svc_rel R) (open_session_now E)" "moves (svc_rel R) (touch_session now)"
    unfolding open_session_now_def touch_session_def by (intro moves_intros moves_host orders; simp)+
qed

lemma moves_methods:
  "moves (svc_rel R) (service_info E)" "moves (svc_rel R) (get_pubkey E slot)" "moves (svc_rel R) (service_genkey_create E slot)"
  "moves (svc_rel R) (read_config_slot E slot)" "moves (svc_rel R) (read_config_block E b)"
  "moves (svc_rel R) (write_config_block E b d)" "moves (svc_rel R) (service_read_slot_block E slot b)"
  "moves (svc_rel R) (service_read_slot_word E slot b off)" "moves (svc_rel R) (get_pin_status E)"
  "moves (svc_rel R) (service_lock_config_zone E crc)" "moves (svc_rel R) (service_lock_data_zone E)"
  "moves (svc_rel R) (service_lock_slot E slot)" "moves (svc_rel R) (provision_slot E slot v)"
  "moves (svc_rel R) (service_sign E slot digest)" "moves (svc_rel R) (provision_initial_puk E)"
  "moves (svc_rel R) (provision_initial_pin E)" "moves (svc_rel R) (provision_initial_io_key E)"
  "moves (svc_rel R) (verify_pin E pin)" "moves (svc_rel R) (set_pin E pin pin' k)" "moves (svc_rel R) (unblock_pin E puk pin k)"
  "moves (svc_rel R) (set_puk E puk puk' k)" "moves (svc_rel R) (emergency_reset E k)"
  unfolding service_info_def is_provisioned_def get_pubkey_def service_genkey_create_def read_config_slot_def
    read_config_block_def write_config_block_def service_read_slot_block_def service_read_slot_word_def
    get_pin_status_def service_lock_config_zone_def service_lock_data_zone_def service_lock_slot_def
    provision_slot_def service_sign_def provision_initial_puk_def provision_initial_pin_def
    provision_initial_io_key_def read_slot_block_def read_slot_word_def verify_pin_def set_pin_def
    unblock_pin_def set_puk_def emergency_reset_def Let_def
  by (intro moves_intros moves_in_channel moves_commands moves_loops moves_workflows orders)+

lemma moves_outcome: "moves (svc_rel R) m \<Longrightarrow> svc_rel R s (snd (outcome m s))"
  by (drule movesD [of _ _ s]) (simp add: outcome_def case_prod_beta)

lemma perform_moves: "svc_rel R s (snd (perform E oper s))"
proof (cases oper)
  case OpCloseSession
  then show ?thesis using orders(2) by (simp add: svc_rel_def close_session_def reflp_def)
qed (simp_all add: moves_outcome moves_methods moves_workflows)

end

section \<open>The transfers of the firmware\<close>

datatype Transfer = Wrote u32 u8 bytes | Fetched u32 u8 nat | Waited u64

text \<open>A peripheral that records what it is asked to do.\<close>

definition log_peripheral :: "('p, 'e) Peripheral \<Rightarrow> ('p \<times> Transfer list, 'e) Peripheral" where
  "log_peripheral P =
     \<lparr>write_async = (\<lambda>f a data (p, l). let (r, p) = write_async P f a data p in (r, p, l @ [Wrote f a data])),
      read_async = (\<lambda>f a n (p, l). let (r, p) = read_async P f a n p in (r, p, l @ [Fetched f a n])),
      timer_after = (\<lambda>us (p, l). (timer_after P us p, l @ [Waited us]))\<rparr>"

definition rp2040_env ::
  "('p, 'e) Peripheral \<Rightarrow> ('c \<Rightarrow> 'p \<Rightarrow> u64) \<Rightarrow> hash \<Rightarrow> ('p, 'e Rp2040HalError, 'c) Env" where
  "rp2040_env P now sha = \<lparr>env_hal = rp2040_hal P, now_ms = now, sha256 = sha\<rparr>"

definition bus_trace :: "('p \<times> Transfer list, 'c) CryptoService \<Rightarrow> Transfer list" where
  "bus_trace s = snd (hal (atecc s))"

text \<open>
  The transfers the hardware can carry out: a wake token, or a transfer with the chip at
  full speed that is not empty.
\<close>

fun proper :: "u8 \<Rightarrow> Transfer \<Rightarrow> bool" where
  "proper addr (Wrote f a data) \<longleftrightarrow>
     f = 400000 \<and> a = addr \<and> data \<noteq> [] \<or> f = 100000 \<and> a = 0 \<and> data = [0]"
| "proper addr (Fetched f a n) \<longleftrightarrow> f = 400000 \<and> a = addr \<and> 0 < n"
| "proper addr (Waited us) \<longleftrightarrow> True"

definition properly :: "u8 \<Rightarrow> 'p \<times> Transfer list \<Rightarrow> 'p \<times> Transfer list \<Rightarrow> bool" where
  "properly addr h h' \<longleftrightarrow> (\<exists>xs. snd h' = snd h @ xs \<and> list_all (proper addr) xs)"

lemma rp2040_env_hal [simp]: "env_hal (rp2040_env P now sha) = rp2040_hal P"
  by (simp add: rp2040_env_def)

lemma log_peripheral_sel:
  "snd (snd (write_async (log_peripheral P) f a data h)) = snd h @ [Wrote f a data]"
  "snd (snd (read_async (log_peripheral P) f a n h)) = snd h @ [Fetched f a n]"
  "snd (timer_after (log_peripheral P) us h) = snd h @ [Waited us]"
  by (cases h; simp add: log_peripheral_def split: prod.split)+

lemma snd_map_err: "snd (map_err g m s) = snd (m s)"
  by (simp add: map_err_def split: prod.split sum.split)

lemma rp2040_pulse:
  "rp2040_pulse_sda_low P us p = (Inr (), snd (write_async P 100000 0 [0] p))"
  by (simp add: rp2040_pulse_sda_low_def and_then_def attempt_def map_err_def return_ok_def rp2040_consts
      split: prod.split sum.split)

interpretation rp2040: service_bus_relation "rp2040_env (log_peripheral P) now sha" properly for P now sha
proof unfold_locales
  fix a :: u8 and h h' h'' :: "'a \<times> Transfer list" and wire :: bytes and n :: nat and us ms :: u32
  show "properly a h h" by (simp add: properly_def)
  show "properly a h h' \<Longrightarrow> properly a h' h'' \<Longrightarrow> properly a h h''" by (auto simp: properly_def)
  let ?H = "env_hal (rp2040_env (log_peripheral P) now sha)"
  show "wire \<noteq> [] \<Longrightarrow> properly a h (snd (i2c_write ?H a wire h))" "0 < n \<Longrightarrow> properly a h (snd (i2c_read ?H a n h))"
    "properly a h (snd (pulse_sda_low ?H us h))" "properly a h (delay_us ?H us h)" "properly a h (delay_ms ?H ms h)"
    by (simp_all add: rp2040_i2c_write_def rp2040_i2c_read_def rp2040_pulse rp2040_delay_us_def rp2040_delay_ms_def
        properly_def snd_map_err log_peripheral_sel I2C_FREQ_HZ_def)
qed

section \<open>Properties\<close>

text \<open>
  C14. The bus discipline of the firmware. Whatever the I2C controller does, every transfer of
  every method of the service is either the wake token (a write of one zero byte to address 0
  at 100 kHz, whose result never reaches the driver) or a transfer at 400 kHz with the
  configured address, and none is empty, which the controller would refuse.
\<close>

theorem rp2040_bus_discipline:
  "(\<exists>xs. bus_trace (snd (perform (rp2040_env (log_peripheral P) now sha) oper s)) = bus_trace s @ xs \<and>
      list_all (proper (device_addr (atecc s))) xs) \<and>
   rp2040_pulse_sda_low P us p = (Inr (), snd (write_async P 100000 0 [0] p))"
  using rp2040.perform_moves [of s P now sha oper] rp2040_pulse
  by (simp add: svc_rel_def chan_rel_def properly_def bus_trace_def)

end
