(* ===== verification/Hid_Descriptor.thy ===== *)
theory Hid_Descriptor
  imports Usb_Protocol
begin

text \<open>
  The HID report descriptor (\<^verbatim>\<open>hsm-usb-protocol/hid_descriptor.rs\<close>), the constant that tells a
  host the size of the reports, and what it says under the short-item encoding of the HID
  class: the low two bits of a prefix byte give the size of the item's data (0, 1, 2 or 4
  bytes), the other bits its tag; report size and report count are global items that the
  Input and Output items refer to.
\<close>

unbundle bit_operations_syntax

definition HID_REPORT_DESCRIPTOR :: bytes where
  "HID_REPORT_DESCRIPTOR =
     [0x06, 0x00, 0xFF,
      0x09, 0x01,
      0xA1, 0x01,
      0x09, 0x20,
      0x15, 0x00,
      0x26, 0xFF, 0x00,
      0x75, 0x08,
      0x95, 0x80,
      0x81, 0x02,
      0x09, 0x21,
      0x15, 0x00,
      0x26, 0xFF, 0x00,
      0x75, 0x08,
      0x95, 0x80,
      0x91, 0x02,
      0xC0]"

definition item_size :: "u8 \<Rightarrow> nat" where
  "item_size prefix = (let n = unat (prefix AND 3) in if n = 3 then 4 else n)"

fun items :: "bytes \<Rightarrow> (u8 \<times> bytes) list option" where
  "items [] = Some []"
| "items (prefix # rest) =
     (if length rest < item_size prefix then None
      else case items (drop (item_size prefix) rest) of
        None \<Rightarrow> None
      | Some is \<Rightarrow> Some ((prefix AND 0xFC, take (item_size prefix) rest) # is))"

fun le_value :: "bytes \<Rightarrow> nat" where
  "le_value [] = 0"
| "le_value (b # bs) = unat b + 256 * le_value bs"

text \<open>The bits of each Input (tag \<open>0x80\<close>) and Output (tag \<open>0x90\<close>) report, in order.\<close>

fun report_bits :: "nat \<Rightarrow> nat \<Rightarrow> (u8 \<times> bytes) list \<Rightarrow> (u8 \<times> nat) list" where
  "report_bits sz cnt [] = []"
| "report_bits sz cnt ((tag, d) # is) =
     (if tag = 0x74 then report_bits (le_value d) cnt is
      else if tag = 0x94 then report_bits sz (le_value d) is
      else if tag = 0x80 \<or> tag = 0x90 then (tag, sz * cnt) # report_bits sz cnt is
      else report_bits sz cnt is)"

lemma descriptor_items:
  "items HID_REPORT_DESCRIPTOR = Some
     [(0x04, [0x00, 0xFF]), (0x08, [0x01]), (0xA0, [0x01]),
      (0x08, [0x20]), (0x14, [0x00]), (0x24, [0xFF, 0x00]), (0x74, [0x08]), (0x94, [0x80]), (0x80, [0x02]),
      (0x08, [0x21]), (0x14, [0x00]), (0x24, [0xFF, 0x00]), (0x74, [0x08]), (0x94, [0x80]), (0x90, [0x02]),
      (0xC0, [])]"
  by (simp add: HID_REPORT_DESCRIPTOR_def item_size_def)

text \<open>
  The descriptor declares one Input and one Output report, each of exactly the size that the
  frame codec writes and parses.
\<close>

lemma descriptor_report_sizes:
  "map_option (report_bits 0 0) (items HID_REPORT_DESCRIPTOR) =
     Some [(0x80, 8 * HID_REPORT_SIZE), (0x90, 8 * HID_REPORT_SIZE)]"
  by (simp add: descriptor_items HID_REPORT_SIZE_def)

end
