(* ===== verification/Dispatch_Policy.thy ===== *)
theory Dispatch_Policy
  imports Firmware_Dispatch
begin

text \<open>
  What the dispatch loop guarantees, as a refinement: a USB report is decoded into a
  request for one service method (\<open>decode_request\<close>), and the handlers of
  \<^verbatim>\<open>tasks.rs\<close> do to the service exactly what that method does and answer with one
  well-formed report. The security policy of the service then holds at the USB
  interface. The decoding uses the payload parsers of \<open>Usb_Protocol\<close>, whose exact layouts
  are stated there; the bytes that lead to an irreversible command, with their magic words,
  are spelled out in the footprint of a request.
\<close>

section \<open>Decoding a report\<close>

definition parsed :: "PayloadError + 'a \<Rightarrow> ('a \<Rightarrow> ResponseStatus + 'b) \<Rightarrow> ResponseStatus + 'b" where
  "parsed p k = (case p of Inr v \<Rightarrow> k v | Inl _ \<Rightarrow> Inl StatusInvalidPayload)"

definition authorised :: "PayloadError + 'a \<Rightarrow> ('a \<Rightarrow> ResponseStatus + 'b) \<Rightarrow> ResponseStatus + 'b" where
  "authorised p k =
     (case p of Inr v \<Rightarrow> k v | Inl MagicMismatch \<Rightarrow> Inl StatusLockMagicMismatch
      | Inl _ \<Rightarrow> Inl StatusInvalidPayload)"

definition valid_slot :: "u8 \<Rightarrow> (Slot \<Rightarrow> 'b) \<Rightarrow> ResponseStatus + 'b" where
  "valid_slot i k = (if i < SLOT_COUNT then Inr (k (Slot i)) else Inl StatusInvalidSlot)"

fun decode_payload :: "CommandOpcode \<Rightarrow> bytes \<Rightarrow> ResponseStatus + ServiceOp" where
  "decode_payload CmdInfo data = Inr OpInfo"
| "decode_payload CmdGetPubkey data = parsed (parse_slot_only data) (\<lambda>i. valid_slot i OpGetPubkey)"
| "decode_payload CmdSign data =
     parsed (parse_sign data) (\<lambda>(i, d). valid_slot i (\<lambda>slot. OpSign slot d))"
| "decode_payload CmdGenKey data = parsed (parse_slot_only data) (\<lambda>i. valid_slot i OpGenkeyCreate)"
| "decode_payload CmdReadConfigZone data = parsed (parse_slot_only data) (\<lambda>b. Inr (OpReadConfigBlock b))"
| "decode_payload CmdReadConfigSlot data = parsed (parse_slot_only data) (\<lambda>i. valid_slot i OpReadConfigSlot)"
| "decode_payload CmdVerifyPin data = parsed (parse_verify_pin data) (\<lambda>pin. Inr (OpVerifyPin pin))"
| "decode_payload CmdSetPin data = parsed (parse_set_pin data) (\<lambda>(p, q, k). Inr (OpSetPin p q k))"
| "decode_payload CmdUnblockPin data =
     parsed (parse_unblock_pin data) (\<lambda>(p, q, k). Inr (OpUnblockPin p q k))"
| "decode_payload CmdGetPinStatus data = Inr OpGetPinStatus"
| "decode_payload CmdSetPuk data = parsed (parse_set_puk data) (\<lambda>(p, q, k). Inr (OpSetPuk p q k))"
| "decode_payload CmdCloseSession data = Inr OpCloseSession"
| "decode_payload CmdEmergencyReset data =
     authorised (parse_emergency_reset data) (\<lambda>k. Inr (OpEmergencyReset k))"
| "decode_payload CmdReadSlotBlock data =
     parsed (parse_read_slot_block data) (\<lambda>(i, b). valid_slot i (\<lambda>slot. OpReadSlotBlock slot b))"
| "decode_payload CmdReadSlotWord data =
     parsed (parse_read_slot_word data) (\<lambda>(i, b, off). valid_slot i (\<lambda>slot. OpReadSlotWord slot b off))"
| "decode_payload CmdWriteConfigZone data =
     parsed (parse_write_config_zone data) (\<lambda>(b, d). Inr (OpWriteConfigBlock b d))"
| "decode_payload CmdProvisionSlot data =
     parsed (parse_provision_slot data) (\<lambda>(i, v). valid_slot i (\<lambda>slot. OpProvisionSlot slot v))"
| "decode_payload CmdProvisionInitialPin data = Inr OpProvisionInitialPin"
| "decode_payload CmdProvisionInitialPuk data = Inr OpProvisionInitialPuk"
| "decode_payload CmdProvisionIoKey data = Inr OpProvisionInitialIoKey"
| "decode_payload CmdReadCounter data =
     parsed (parse_slot_only data) (\<lambda>b. if b = 0 then Inr (OpReadCounter Counter0)
       else if b = 1 then Inr (OpReadCounter Counter1) else Inl StatusInvalidPayload)"
| "decode_payload CmdLockConfigZone data =
     authorised (parse_lock_config_zone data) (\<lambda>crc. Inr (OpLockConfigZone crc))"
| "decode_payload CmdLockDataZone data = authorised (parse_lock_data_zone data) (\<lambda>_. Inr OpLockDataZone)"
| "decode_payload CmdLockSlot data = authorised (parse_lock_slot data) (\<lambda>i. valid_slot i OpLockSlot)"

definition decode_request :: "bytes \<Rightarrow> ResponseStatus + ServiceOp" where
  "decode_request rx =
     (case Frame_parse rx of
        Inl _ \<Rightarrow> Inl StatusInvalidPayload
      | Inr f \<Rightarrow> (case opcode_from_byte (opcode f) of
           None \<Rightarrow> Inl StatusInvalidCommand
         | Some op_code \<Rightarrow> decode_payload op_code (payload f)))"

section \<open>Responses\<close>

text \<open>The report that answers with a status and a payload of at most 125 bytes.\<close>

definition response :: "ResponseStatus \<Rightarrow> bytes \<Rightarrow> bytes" where
  "response status data = report (status_as_u8 status) data (replicate (125 - length data) 0)"

lemma Frame_write_any_buffer:
  "length buf = 128 \<Longrightarrow> Frame_write op_byte data buf = Frame_to_report op_byte data"
  by (simp add: Frame_to_report_def Frame_write_def report_sizes map_replicate_const)

lemma write_status_eq:
  assumes "length (tx_buf fw) = 128"
  shows "write_status status data fw =
    (128, fw\<lparr>tx_buf := if length data \<le> 125 then response status data else response StatusInvalidPayload []\<rparr>)"
  using assms
  by (simp add: write_status_def Frame_write_any_buffer Frame_to_report_eq REPORT_SIZE_def report_sizes
      response_def)

lemma length_response [simp]: "length data \<le> 125 \<Longrightarrow> length (response status data) = 128"
  by (simp add: response_def)

lemma parse_response:
  "length data \<le> 125 \<Longrightarrow>
     Frame_parse (response status data) = Inr \<lparr>opcode = status_as_u8 status, payload = data\<rparr>"
  by (simp add: response_def Frame_parse_report)

text \<open>
  \<open>answered success t ch fw r\<close>: the handler ended with one response, \<open>Ok\<close> exactly on
  success, and left the service in \<open>t\<close> and the channels in \<open>ch\<close>.
\<close>

definition answered ::
  "bool \<Rightarrow> ('h, 'c) CryptoService \<Rightarrow> Channels \<Rightarrow> ('h, 'c) Firmware \<Rightarrow> nat \<times> ('h, 'c) Firmware \<Rightarrow> bool" where
  "answered success t ch fw r \<longleftrightarrow>
     (\<exists>status data. r = (128, fw\<lparr>service := t, tx_buf := response status data, channels := ch\<rparr>) \<and>
        length data \<le> 125 \<and> (status = StatusOk \<longleftrightarrow> success))"

lemma answered_status:
  assumes "length (tx_buf fw) = 128" and "length data \<le> 125" and "status = StatusOk \<longleftrightarrow> success"
  shows "answered success t ch fw (write_status status data (fw\<lparr>service := t, channels := ch\<rparr>))"
  using assms unfolding answered_def
  by (intro exI [of _ status] exI [of _ data]) (simp add: write_status_eq)

lemma answered_error:
  assumes "length (tx_buf fw) = 128"
  shows "answered False t ch fw (write_error e (fw\<lparr>service := t, channels := ch\<rparr>))"
    and "answered False t ch fw (write_lock_error e (fw\<lparr>service := t, channels := ch\<rparr>))"
proof -
  show w: "answered False t ch fw (write_error e (fw\<lparr>service := t, channels := ch\<rparr>))"
    using assms by (cases e) (auto intro!: answered_status split: AteccErrorKind.split)
  show "answered False t ch fw (write_lock_error e (fw\<lparr>service := t, channels := ch\<rparr>))"
    using assms w by (auto simp: write_lock_error_def intro!: answered_status)
qed

definition fits :: "('h, 'e, 'c, 'a) svc \<Rightarrow> ('a \<Rightarrow> bytes) \<Rightarrow> ('h, 'c) CryptoService \<Rightarrow> bool" where
  "fits m encode s \<longleftrightarrow> (case fst (m s) of Inr v \<Rightarrow> length (encode v) \<le> 125 | Inl _ \<Rightarrow> True)"

lemma answered_answer:
  assumes "length (tx_buf fw) = 128" and "fits m encode (service fw)"
    and "outcome m (service fw) = (success, t)"
    and "on_err = write_error \<or> on_err = write_lock_error"
  shows "answered success t (channels fw) fw (answer m encode on_err fw)"
proof -
  obtain r where m: "m (service fw) = (r, t)" and s: "success = (\<not> isl r)"
    using assms(3) by (auto simp: outcome_eq)
  have same: "fw\<lparr>service := t, channels := channels fw\<rparr> = fw\<lparr>service := t\<rparr>" by simp
  show ?thesis
  proof (cases r)
    case (Inl e)
    with m s assms(1,4) answered_error [of fw t "channels fw" e] show ?thesis
      by (auto simp: answer_def on_service_def same)
  next
    case (Inr v)
    with m s assms(1,2) answered_status [of fw "encode v" StatusOk True t "channels fw"] show ?thesis
      by (simp add: answer_def on_service_def same fits_def)
  qed
qed

section \<open>The cached serial number\<close>

text \<open>The cache is an \<open>Option<[u8; 9]>\<close>; every method keeps it that size.\<close>

definition serial_wf :: "('h, 'c) CryptoService \<Rightarrow> bool" where
  "serial_wf s \<longleftrightarrow> (case serial s of None \<Rightarrow> True | Some sn \<Rightarrow> length sn = 9)"

definition maintains :: "('s \<Rightarrow> bool) \<Rightarrow> ('s, 'e, 'a) act \<Rightarrow> bool" where
  "maintains P m \<longleftrightarrow> (\<forall>s. P s \<longrightarrow> P (snd (m s)))"

lemma maintainsE: "maintains P m \<Longrightarrow> P s \<Longrightarrow> m s = (r, t) \<Longrightarrow> P t"
  by (metis maintains_def snd_conv)

lemma maintains_pure:
  "maintains P (return_ok a)" "maintains P (return_err e)" "maintains P (gets f)" "maintains P (of_result r)"
  by (simp_all add: maintains_def act_defs)

lemma maintains_and_then:
  "maintains P m \<Longrightarrow> (\<And>a. maintains P (f a)) \<Longrightarrow> maintains P (and_then m f)"
  by (auto simp: maintains_def and_then_def split: prod.splits sum.splits)

lemma maintains_if: "maintains P m \<Longrightarrow> maintains P n \<Longrightarrow> maintains P (if b then m else n)"
  by simp

lemma maintains_case_prod: "(\<And>a b. maintains P (f a b)) \<Longrightarrow> maintains P (case x of (a, b) \<Rightarrow> f a b)"
  by (cases x) simp

lemma keeps_serial_maintains: "keeps serial m \<Longrightarrow> maintains serial_wf m"
  by (simp add: maintains_def keeps_def serial_wf_def)

lemma maintains_modify_session: "maintains serial_wf (modify (\<lambda>s. s\<lparr>session := f s\<rparr>))"
  by (simp add: maintains_def modify_def serial_wf_def)

lemma maintains_check_format: "maintains P (check_format code)"
  by (simp add: maintains_def check_format_def map_err_def of_result_def split: sum.split)

lemma maintains_bus:
  "maintains serial_wf (on_atecc a)" "maintains serial_wf (in_channel E m)"
  "maintains serial_wf (in_channel_always_closed E m)"
  by (intro keeps_serial_maintains keeps_on_atecc keeps_in_channel)+

lemma read_whole_config_length: "read_whole_config E s = (Inr zone, t) \<Longrightarrow> length zone = 128"
  using read_config_blocks_out [of "env_hal E" "[0..<4]" "replicate 128 0"]
  by (force simp: read_whole_config_def in_channel_Inr read_config_zone_def CONFIG_ZONE_BLOCK_COUNT_def)

lemma length_serial_of_config: "length config = 128 \<Longrightarrow> length (serial_of_config config) = 9"
  by (simp add: serial_of_config_def CHIP_SERIAL_LEN_def)

lemma cached_serial_Inr:
  assumes "cached_serial E s = (Inr sn, t)" and "serial_wf s"
  shows "length sn = 9"
  using assms
  by (auto simp: cached_serial_def and_then_eq_Inr gets_def return_ok_def modify_def Let_def serial_wf_def
      length_serial_of_config read_whole_config_length split: option.splits)

lemma maintains_cached_serial: "maintains serial_wf (cached_serial E)"
  unfolding maintains_def
proof safe
  fix s :: "('a, 'b) CryptoService" assume s: "serial_wf s"
  obtain r u where c: "read_whole_config E s = (r, u)" by fastforce
  have u: "serial u = serial s"
    using keepsE [OF keeps_in_channel(3)] c unfolding read_whole_config_def by blast
  from c s u show "serial_wf (snd (cached_serial E s))"
    by (cases r) (auto simp: cached_serial_def and_then_def gets_def return_ok_def modify_def Let_def
        serial_wf_def length_serial_of_config read_whole_config_length split: option.splits)
qed

lemmas maintains_intros = maintains_and_then maintains_if maintains_case_prod maintains_pure
  maintains_check_format maintains_bus maintains_cached_serial maintains_modify_session

lemma maintains_outcome: "maintains P m \<Longrightarrow> P s \<Longrightarrow> P (snd (outcome m s))"
  by (simp add: maintains_def outcome_def case_prod_beta)

lemma maintains_reads:
  "maintains serial_wf (service_info E)" "maintains serial_wf (get_pubkey E slot)"
  "maintains serial_wf (service_genkey_create E slot)" "maintains serial_wf (read_config_slot E slot)"
  "maintains serial_wf (read_config_block E block)" "maintains serial_wf (write_config_block E block d)"
  "maintains serial_wf (service_read_slot_block E slot block)"
  "maintains serial_wf (service_read_slot_word E slot block off)"
  "maintains serial_wf (get_pin_status E)" "maintains serial_wf (read_counter E c)"
  unfolding service_info_def is_provisioned_def get_pubkey_def service_genkey_create_def
    read_config_slot_def read_config_block_def write_config_block_def service_read_slot_block_def
    service_read_slot_word_def get_pin_status_def read_counter_def read_whole_config_def Let_def
  by (intro maintains_intros)+

lemma maintains_admin:
  "maintains serial_wf (service_lock_config_zone E crc)" "maintains serial_wf (service_lock_data_zone E)"
  "maintains serial_wf (service_lock_slot E slot)" "maintains serial_wf (provision_slot E slot v)"
  "maintains serial_wf (provision_initial_puk E)" "maintains serial_wf (provision_initial_pin E)"
  "maintains serial_wf (provision_initial_io_key E)" "maintains serial_wf (service_sign E slot d)"
  unfolding service_lock_config_zone_def service_lock_data_zone_def service_lock_slot_def
    provision_slot_def provision_initial_puk_def provision_initial_pin_def generate_random_puk_def
    provision_initial_io_key_def service_sign_def touch_session_def Let_def
  by (intro maintains_intros)+

lemma maintains_pin:
  "maintains serial_wf (verify_pin E pin)" "maintains serial_wf (unblock_pin E puk pin k)"
  "maintains serial_wf (set_pin E pin pin' k)" "maintains serial_wf (set_puk E puk puk' k)"
  "maintains serial_wf (emergency_reset E k)"
  unfolding verify_pin_def unblock_pin_def set_pin_def set_puk_def emergency_reset_def
    read_counter_def checkmac_with_hash_def refresh_counter_batch_def write_slot_encrypted_def
    generate_random_puk_def open_session_now_def touch_session_def Let_def
  by (intro maintains_intros)+

lemma perform_serial_wf:
  assumes "serial_wf s"
  shows "serial_wf (snd (perform E oper s))"
proof (cases oper)
  case OpCloseSession
  with assms show ?thesis by (simp add: close_session_def serial_wf_def)
qed (simp_all only: perform.simps,
  (rule maintains_outcome [where P = serial_wf, OF _ assms], rule maintains_reads maintains_admin maintains_pin)+)

section \<open>Response sizes\<close>

text \<open>\<open>delivers m encode n s\<close>: on success the encoded value has exactly \<open>n\<close> bytes.\<close>

definition delivers ::
  "('h, 'e, 'c, 'a) svc \<Rightarrow> ('a \<Rightarrow> bytes) \<Rightarrow> nat \<Rightarrow> ('h, 'c) CryptoService \<Rightarrow> bool" where
  "delivers m encode n s \<longleftrightarrow> (case fst (m s) of Inr v \<Rightarrow> length (encode v) = n | Inl _ \<Rightarrow> True)"

lemma fits_delivers: "delivers m encode n s \<Longrightarrow> n \<le> 125 \<Longrightarrow> fits m encode s"
  by (auto simp: delivers_def fits_def split: sum.splits)

lemma delivers_bytes: "(\<And>bs t. m s = (Inr bs, t) \<Longrightarrow> length bs = n) \<Longrightarrow> delivers m id n s"
  by (cases "m s") (auto simp: delivers_def split: sum.split)

lemma delivers_channel: "sized_reply body n \<Longrightarrow> delivers (in_channel E body) id n s"
  by (rule delivers_bytes) (auto dest: sized_in_channel)

lemma delivers_small:
  "delivers m0 (\<lambda>_. []) 0 s" "delivers m1 u32_to_le_bytes 4 s" "delivers m2 pin_status_payload 3 s"
  by (simp_all add: delivers_def pin_status_payload_def split: sum.split)

lemma delivers_reads:
  "delivers (get_pubkey E slot) id 64 s" "delivers (service_genkey_create E slot) id 64 s"
  "delivers (service_read_slot_block E slot block) id 32 s"
  "delivers (service_read_slot_word E slot block off) id 4 s"
  "delivers (read_config_slot E slot) id 4 s" "delivers (read_config_block E block) id 32 s"
proof -
  show "delivers (get_pubkey E slot) id 64 s" unfolding get_pubkey_def
    by (rule delivers_channel [OF genkey_public_reply.sized_reply_axioms])
  show "delivers (service_genkey_create E slot) id 64 s" unfolding service_genkey_create_def
    by (rule delivers_channel [OF genkey_create_reply.sized_reply_axioms])
  show "delivers (service_read_slot_block E slot block) id 32 s"
    unfolding service_read_slot_block_def read_slot_block_def
    by (rule delivers_channel [OF read_32_reply.sized_reply_axioms])
  show "delivers (service_read_slot_word E slot block off) id 4 s"
    unfolding service_read_slot_word_def read_slot_word_def
    by (rule delivers_channel [OF read_4_reply.sized_reply_axioms])
  show "delivers (read_config_slot E slot) id 4 s"
    by (rule delivers_bytes) (auto simp: read_config_slot_def and_then_eq_Inr Let_def return_ok_def)
  have "block \<le> 3 \<Longrightarrow> min 32 (128 - unat block * 32) = 32" by (simp add: word_le_nat_alt)
  then show "delivers (read_config_block E block) id 32 s"
    by (intro delivers_bytes) (auto simp: read_config_block_def and_then_eq_Inr Let_def
        return_ok_def return_err_def not_less dest!: read_whole_config_length split: if_splits)
qed

lemma delivers_fresh:
  "delivers (provision_initial_puk E) id 8 s" "delivers (provision_initial_io_key E) id 32 s"
  "delivers (emergency_reset E k) id 8 s"
proof -
  show "delivers (provision_initial_puk E) id 8 s"
    by (rule delivers_bytes) (auto simp: provision_initial_puk_def and_then_eq_Inr return_ok_def
        dest!: generate_random_puk_digits)
  show "delivers (provision_initial_io_key E) id 32 s"
    by (rule delivers_bytes) (auto simp: provision_initial_io_key_def and_then_eq_Inr return_ok_def
        dest!: sized_in_channel [OF random_reply.sized_reply_axioms])
  show "delivers (emergency_reset E k) id 8 s"
    by (rule delivers_bytes) (auto dest!: emergency_reset_Inr(2))
qed

lemma service_info_sizes:
  assumes "serial_wf s" and i: "service_info E s = (Inr i, t)"
  shows "length (revision i) = 4" and "length (info_serial i) = 9"
proof -
  from i obtain rev u sn v where rev: "in_channel E (info_revision (env_hal E)) s = (Inr rev, u)"
    and sn: "cached_serial E u = (Inr sn, v)" and ii: "revision i = rev" "info_serial i = sn"
    by (auto simp: service_info_def and_then_eq_Inr return_ok_def)
  have "serial_wf u" using maintainsE [OF maintains_bus(2) assms(1) rev] .
  with sn ii show "length (info_serial i) = 9" by (simp add: cached_serial_Inr)
  show "length (revision i) = 4" using rev ii
    by (simp add: sized_in_channel [OF info_reply.sized_reply_axioms])
qed

lemma delivers_info: "serial_wf s \<Longrightarrow> delivers (service_info E) info_payload 14 s"
  using service_info_sizes [of s E]
  by (cases "service_info E s") (auto simp: delivers_def info_payload_def Let_def split: sum.split)

lemmas fits_small = delivers_small [THEN fits_delivers, simplified]
lemmas fits_reads = delivers_reads [THEN fits_delivers, simplified]
lemmas fits_fresh = delivers_fresh [THEN fits_delivers, simplified]
lemmas fits_info = delivers_info [THEN fits_delivers, simplified]

section \<open>The handlers refine the service\<close>

definition events_of :: "ServiceOp \<Rightarrow> bool \<Rightarrow> Channels \<Rightarrow> Channels" where
  "events_of oper success ch =
     (case oper of OpVerifyPin _ \<Rightarrow> if success then post_event PinVerified ch else ch | _ \<Rightarrow> ch)"

text \<open>
  \<open>serves E fw r res\<close>: \<open>res\<close> is what a handler did when the request decoded to \<open>r\<close>.
\<close>

definition serves ::
  "('h, 'e, 'c) Env \<Rightarrow> ('h, 'c) Firmware \<Rightarrow> ResponseStatus + ServiceOp \<Rightarrow> nat \<times> ('h, 'c) Firmware \<Rightarrow> bool" where
  "serves E fw r res \<longleftrightarrow>
     (case r of
        Inl status \<Rightarrow> res = (128, fw\<lparr>tx_buf := response status []\<rparr>)
      | Inr oper \<Rightarrow> (case perform E oper (service fw) of (success, t) \<Rightarrow>
          answered success t (events_of oper success (channels fw)) fw res))"

lemma serves_refusal: "length (tx_buf fw) = 128 \<Longrightarrow> serves E fw (Inl status) (write_status status [] fw)"
  by (simp add: serves_def write_status_eq)

lemma serves_with_payload:
  assumes "length (tx_buf fw) = 128" and "\<And>v. serves E fw (k v) (h v fw)"
  shows "serves E fw (parsed p k) (with_payload p h fw)"
  using assms by (auto simp: parsed_def with_payload_def serves_refusal split: sum.split)

lemma serves_with_magic:
  assumes "length (tx_buf fw) = 128" and "\<And>v. serves E fw (k v) (h v fw)"
  shows "serves E fw (authorised p k) (with_magic p h fw)"
  using assms
  by (auto simp: authorised_def with_magic_def serves_refusal split: sum.split PayloadError.split)

lemma serves_with_slot:
  assumes "length (tx_buf fw) = 128" and "\<And>slot. serves E fw (Inr (k slot)) (h slot fw)"
  shows "serves E fw (valid_slot i k) (with_slot i h fw)"
  using assms by (auto simp: valid_slot_def with_slot_def Slot_new_def serves_refusal)

lemma serves_answer:
  assumes "length (tx_buf fw) = 128" and "perform E oper = outcome m" and "fits m encode (service fw)"
    and "on_err = write_error \<or> on_err = write_lock_error" and "\<And>b ch. events_of oper b ch = ch"
  shows "serves E fw (Inr oper) (answer m encode on_err fw)"
  using assms answered_answer [of fw m encode _ _ on_err]
  by (simp add: serves_def split: prod.split)

lemma serves_verify_pin:
  assumes "length (tx_buf fw) = 128"
  shows "serves E fw (Inr (OpVerifyPin pin))
    (case on_service (verify_pin E pin) fw of
       (Inr _, fw) \<Rightarrow> write_status StatusOk [] (post PinVerified fw)
     | (Inl e, fw) \<Rightarrow> write_error e fw)"
proof -
  obtain r t where v: "verify_pin E pin (service fw) = (r, t)" by fastforce
  let ?ch = "post_event PinVerified (channels fw)"
  have "fw\<lparr>service := t, channels := channels fw\<rparr> = fw\<lparr>service := t\<rparr>"
    "post PinVerified (fw\<lparr>service := t\<rparr>) = fw\<lparr>service := t, channels := ?ch\<rparr>"
    by (simp_all add: post_def)
  with v show ?thesis
    using answered_status [OF assms, of "[]" StatusOk True t ?ch] answered_error(1) [OF assms, of t "channels fw"]
    by (cases r) (auto simp: serves_def on_service_def outcome_def events_of_def)
qed

lemma serves_close:
  "length (tx_buf fw) = 128 \<Longrightarrow> serves E fw (Inr OpCloseSession) (handle_close_session fw)"
  using answered_status [of fw "[]" StatusOk True "close_session (service fw)" "channels fw"]
  by (simp add: serves_def handle_close_session_def events_of_def)

lemma serves_read_counter:
  assumes "length (tx_buf fw) = 128"
  shows "serves E fw
    (if b = 0 then Inr (OpReadCounter Counter0) else if b = 1 then Inr (OpReadCounter Counter1)
     else Inl StatusInvalidPayload)
    ((if b = 0 then answer (read_counter E Counter0) u32_to_le_bytes write_error
      else if b = 1 then answer (read_counter E Counter1) u32_to_le_bytes write_error
      else write_status StatusInvalidPayload []) fw)"
  using assms by (auto intro!: serves_refusal serves_answer fits_small simp: events_of_def)

lemmas handler_defs = handle_info_def handle_get_pubkey_def handle_genkey_def handle_read_config_zone_def
  handle_read_config_slot_def handle_write_config_zone_def handle_provision_slot_def
  handle_provision_initial_pin_def handle_provision_initial_puk_def handle_provision_io_key_def
  handle_lock_config_zone_def handle_lock_data_zone_def handle_lock_slot_def handle_verify_pin_def
  handle_set_pin_def handle_unblock_pin_def handle_set_puk_def handle_emergency_reset_def
  handle_read_slot_block_def handle_read_slot_word_def handle_get_pin_status_def handle_read_counter_def

lemmas serves_intros = serves_with_payload serves_with_magic serves_with_slot serves_answer
  serves_verify_pin serves_close serves_read_counter fits_small fits_reads fits_fresh fits_info

lemma serves_case_prod:
  "(\<And>a b. serves E fw (k a b) (h a b fw)) \<Longrightarrow>
     serves E fw (case x of (a, b) \<Rightarrow> k a b) ((case x of (a, b) \<Rightarrow> h a b) fw)"
  by (cases x) simp

lemma serves_handlers:
  assumes w: "length (tx_buf fw) = 128" and s: "serial_wf (service fw)"
  shows "op_code \<noteq> CmdSign \<Longrightarrow>
    \<exists>h. dispatch E op_code data fw = responding h fw \<and> serves E fw (decode_payload op_code data) (h fw)"
  by (cases op_code)
    (simp_all only: dispatch.simps decode_payload.simps handler_defs, simp_all only: simp_thms, (intro exI conjI, rule refl,
      intro serves_intros serves_case_prod; simp add: w s events_of_def fits_reads fits_fresh)+)

subsection \<open>Signing\<close>

fun is_sign :: "ServiceOp \<Rightarrow> bool" where
  "is_sign (OpSign _ _) = True"
| "is_sign _ = False"

lemma decode_sign_only: "decode_payload op_code data = Inr oper \<Longrightarrow> is_sign oper \<Longrightarrow> op_code = CmdSign"
  by (cases op_code)
    (auto simp: parsed_def authorised_def valid_slot_def split: sum.splits if_splits PayloadError.splits)

lemma decode_sign_all: "decode_payload CmdSign data = Inr oper \<Longrightarrow> is_sign oper"
  by (auto simp: parsed_def valid_slot_def split: sum.splits if_splits)

definition requesting_touch :: "('h, 'c) Firmware \<Rightarrow> ('h, 'c) Firmware" where
  "requesting_touch fw =
     fw\<lparr>channels := post_event SignRequested ((channels fw)\<lparr>TOUCH_CONFIRMED := False\<rparr>)\<rparr>"

lemma handle_sign_start_eq:
  assumes "length (tx_buf fw) = 128"
  shows "handle_sign_start E data fw =
    (case decode_payload CmdSign data of
       Inl status \<Rightarrow> (Responded 128, fw\<lparr>tx_buf := response status []\<rparr>)
     | Inr (OpSign slot digest) \<Rightarrow>
         if is_session_active E (service fw) then (AwaitTouch slot digest, requesting_touch fw)
         else (Responded 128, fw\<lparr>tx_buf := response StatusPinRequired []\<rparr>)
     | Inr _ \<Rightarrow> undefined)"
  using assms
  by (auto simp: handle_sign_start_def parsed_def valid_slot_def Slot_new_def responding_def
      write_status_eq requesting_touch_def post_def Let_def split: sum.split)

lemma service_sign_length:
  assumes "service_sign E slot digest s = (Inr sig, t)"
  shows "length sig = 64"
proof -
  from assms obtain u where "in_channel E (and_then (nonce_passthrough (env_hal E) MsgDigBuf digest)
      (\<lambda>_. sign_external (env_hal E) slot)) s = (Inr sig, u)"
    by (auto simp: service_sign_eq split: if_splits prod.splits sum.splits)
  then show ?thesis
    by (rule sized_in_channel [OF sized_reply_tail [OF sign_reply.sized_reply_axioms]])
qed

lemma fits_sign: "fits (service_sign E slot digest) id s"
  by (rule fits_delivers [OF delivers_bytes]) (auto dest: service_sign_length)

definition sign_events :: "bool \<Rightarrow> Channels \<Rightarrow> Channels" where
  "sign_events success ch =
     (if success then post_event SignComplete ch else post_event ErrorRaised (post_event SignComplete ch))"

lemma answered_sign_confirmed:
  assumes "length (tx_buf fw) = 128" and "perform E (OpSign slot digest) (service fw) = (success, t)"
  shows "answered success t (sign_events success (channels fw)) fw (handle_sign_confirmed E slot digest fw)"
proof -
  obtain r where r: "service_sign E slot digest (service fw) = (r, t)" "success = (\<not> isl r)"
    using assms(2) by (auto simp: outcome_eq)
  have "isl r \<or> length (projr r) \<le> 125" using fits_sign [of E slot digest "service fw"] r(1)
    by (cases r) (auto simp: fits_def)
  then show ?thesis
    using r answered_status [OF assms(1), of _ StatusOk True t] answered_error(1) [OF assms(1), of t]
    by (cases r) (simp_all add: handle_sign_confirmed_def on_service_def post_def sign_events_def Let_def)
qed

lemma answered_sign_timed_out:
  assumes "length (tx_buf fw) = 128"
  shows "answered False (service fw) (post_event TouchTimeout (channels fw)) fw (handle_sign_timed_out fw)"
  using answered_status [OF assms, of "[]" StatusTouchTimeout False "service fw"]
  by (simp add: handle_sign_timed_out_def post_def)

subsection \<open>A whole request\<close>

lemma begin_request_serves:
  assumes "length (tx_buf fw) = 128" and "serial_wf (service fw)"
    and "\<And>oper. decode_request rx = Inr oper \<Longrightarrow> \<not> is_sign oper"
  shows "\<exists>res. begin_request E rx fw = responding (\<lambda>_. res) fw \<and> serves E fw (decode_request rx) res"
proof (cases "Frame_parse rx")
  case (Inl e)
  then show ?thesis using serves_refusal [OF assms(1), of E StatusInvalidPayload]
    by (intro exI [of _ "write_status StatusInvalidPayload [] fw"])
      (simp add: begin_request_def decode_request_def responding_def)
next
  case (Inr f)
  show ?thesis
  proof (cases "opcode_from_byte (opcode f)")
    case None
    with Inr show ?thesis using serves_refusal [OF assms(1), of E StatusInvalidCommand]
      by (intro exI [of _ "write_status StatusInvalidCommand [] fw"])
        (simp add: begin_request_def decode_request_def responding_def)
  next
    case (Some op_code)
    show ?thesis
    proof (cases "op_code = CmdSign")
      case False
      then obtain h where "dispatch E op_code (payload f) fw = responding h fw"
        "serves E fw (decode_payload op_code (payload f)) (h fw)"
        using serves_handlers [OF assms(1,2)] by blast
      with Inr Some show ?thesis
        by (intro exI [of _ "h fw"]) (simp add: begin_request_def decode_request_def responding_def)
    next
      case True
      with Inr Some assms(3) obtain status where "decode_payload CmdSign (payload f) = Inl status"
        using decode_sign_all by (cases "decode_payload CmdSign (payload f)") (auto simp: decode_request_def)
      with Inr Some True show ?thesis
        by (intro exI [of _ "(128, fw\<lparr>tx_buf := response status []\<rparr>)"])
          (simp add: begin_request_def decode_request_def handle_sign_start_eq [OF assms(1)]
            responding_def serves_def)
    qed
  qed
qed

lemma begin_request_sign:
  assumes "length (tx_buf fw) = 128" and "decode_request rx = Inr (OpSign slot digest)"
  shows "begin_request E rx fw =
    (if is_session_active E (service fw) then (AwaitTouch slot digest, requesting_touch fw)
     else (Responded 128, fw\<lparr>tx_buf := response StatusPinRequired []\<rparr>))"
proof -
  from assms(2) obtain f op_code where f: "Frame_parse rx = Inr f" "opcode_from_byte (opcode f) = Some op_code"
    and d: "decode_payload op_code (payload f) = Inr (OpSign slot digest)"
    by (auto simp: decode_request_def split: sum.splits option.splits)
  from d have "op_code = CmdSign" by (rule decode_sign_only) simp
  with f d show ?thesis by (simp add: begin_request_def handle_sign_start_eq [OF assms(1)])
qed

text \<open>
  The service after a request: untouched by a refusal, else one call of the method the
  report decodes to; a signature is only attempted after the touch was confirmed.
\<close>

definition at_wait_end :: "('h, 'c) Firmware \<Rightarrow> Channels \<times> 'c \<Rightarrow> ('h, 'c) Firmware" where
  "at_wait_end fw = (\<lambda>(ch, c). fw\<lparr>service := (service fw)\<lparr>clock := c\<rparr>, channels := ch\<rparr>)"

lemma handle_one_request_sign:
  assumes "length (tx_buf fw) = 128" and "decode_request rx = Inr (OpSign slot digest)"
    and "is_session_active E (service fw)"
    and "touch (channels (requesting_touch fw)) (clock (service fw)) = (confirmed, wait_end)"
  shows "handle_one_request E touch rx fw =
    (if confirmed then handle_sign_confirmed E slot digest (at_wait_end fw wait_end)
     else handle_sign_timed_out (at_wait_end fw wait_end))"
  using assms
  by (cases wait_end)
    (simp add: handle_one_request_def begin_request_sign at_wait_end_def requesting_touch_def Let_def)

lemma handle_one_request_sign_refused:
  assumes "length (tx_buf fw) = 128" and "decode_request rx = Inr (OpSign slot digest)"
    and "\<not> is_session_active E (service fw)"
  shows "handle_one_request E touch rx fw = (128, fw\<lparr>tx_buf := response StatusPinRequired []\<rparr>)"
  using assms by (simp add: handle_one_request_def begin_request_sign)

lemma handle_one_request_other:
  assumes "length (tx_buf fw) = 128" and "serial_wf (service fw)"
    and "\<And>oper. decode_request rx = Inr oper \<Longrightarrow> \<not> is_sign oper"
  shows "serves E fw (decode_request rx) (handle_one_request E touch rx fw)"
proof -
  obtain n fw' where "begin_request E rx fw = responding (\<lambda>_. (n, fw')) fw"
    and "serves E fw (decode_request rx) (n, fw')"
    using begin_request_serves [where E = E, OF assms] by (metis surj_pair)
  then show ?thesis by (simp add: handle_one_request_def responding_def)
qed

lemma sign_request_cases:
  assumes "length (tx_buf fw) = 128" and d: "decode_request rx = Inr (OpSign slot digest)"
  obtains
    (untouched) status data ch c where
      "handle_one_request E touch rx fw =
         (128, fw\<lparr>service := (service fw)\<lparr>clock := c\<rparr>, tx_buf := response status data, channels := ch\<rparr>)"
      and "length data \<le> 125"
  | (performed) status data ch c where
      "handle_one_request E touch rx fw =
         (128, fw\<lparr>service := snd (perform E (OpSign slot digest) ((service fw)\<lparr>clock := c\<rparr>)),
                  tx_buf := response status data, channels := ch\<rparr>)"
      and "length data \<le> 125" and "fst (touch (channels (requesting_touch fw)) (clock (service fw)))"
proof (cases "is_session_active E (service fw)")
  case False
  with untouched [where c = "clock (service fw)" and status = StatusPinRequired and data = "[]" and ch = "channels fw"] show thesis
    using handle_one_request_sign_refused [where touch = touch, OF assms(1) d False] by simp
next
  case active: True
  obtain confirmed ch c where t: "touch (channels (requesting_touch fw)) (clock (service fw)) = (confirmed, ch, c)"
    by (cases "touch (channels (requesting_touch fw)) (clock (service fw))")
  have w: "length (tx_buf (at_wait_end fw (ch, c))) = 128"
    and s: "service (at_wait_end fw (ch, c)) = (service fw)\<lparr>clock := c\<rparr>"
    using assms(1) by (simp_all add: at_wait_end_def)
  show thesis
  proof (cases confirmed)
    case False
    then show thesis
      using handle_one_request_sign [where touch = touch, OF assms(1) d active t] answered_sign_timed_out [OF w]
      by (auto simp: answered_def at_wait_end_def intro: untouched)
  next
    case True
    obtain success u where p: "perform E (OpSign slot digest) ((service fw)\<lparr>clock := c\<rparr>) = (success, u)"
      by fastforce
    have "answered success u (sign_events success (channels (at_wait_end fw (ch, c))))
        (at_wait_end fw (ch, c)) (handle_one_request E touch rx fw)"
      using handle_one_request_sign [where touch = touch, OF assms(1) d active t] True
        answered_sign_confirmed [OF w p [folded s]] by simp
    then obtain status data where "handle_one_request E touch rx fw =
        (128, (at_wait_end fw (ch, c))\<lparr>service := u, tx_buf := response status data,
           channels := sign_events success (channels (at_wait_end fw (ch, c)))\<rparr>)" "length data \<le> 125"
      unfolding answered_def by blast
    then show thesis using performed [where c = c and status = status and data = data] t True p
      by (simp add: at_wait_end_def)
  qed
qed

lemma request_cases:
  assumes "length (tx_buf fw) = 128" and "serial_wf (service fw)"
  obtains
    (untouched) status data ch c where
      "handle_one_request E touch rx fw =
         (128, fw\<lparr>service := (service fw)\<lparr>clock := c\<rparr>, tx_buf := response status data, channels := ch\<rparr>)"
      and "length data \<le> 125" and "\<And>oper. decode_request rx = Inr oper \<Longrightarrow> is_sign oper"
  | (performed) status data ch oper c where
      "handle_one_request E touch rx fw =
         (128, fw\<lparr>service := snd (perform E oper ((service fw)\<lparr>clock := c\<rparr>)),
                  tx_buf := response status data, channels := ch\<rparr>)"
      and "length data \<le> 125" and "decode_request rx = Inr oper"
      and "is_sign oper \<Longrightarrow> fst (touch (channels (requesting_touch fw)) (clock (service fw)))"
      and "\<not> is_sign oper \<Longrightarrow> c = clock (service fw)"
proof (cases "\<exists>oper. decode_request rx = Inr oper \<and> is_sign oper")
  case True
  then obtain slot digest where d: "decode_request rx = Inr (OpSign slot digest)"
    by (auto elim: is_sign.elims)
  from assms(1) d show thesis
  proof (cases rule: sign_request_cases [where E = E and touch = touch])
    case (untouched status data ch c)
    then show thesis using that(1) d by simp
  next
    case (performed status data ch c)
    then show thesis using that(2) [where oper = "OpSign slot digest" and c = c] d by simp
  qed
next
  case False
  then have "serves E fw (decode_request rx) (handle_one_request E touch rx fw)"
    using handle_one_request_other [OF assms] by blast
  then show thesis
  proof (cases "decode_request rx")
    case (Inl status)
    with \<open>serves _ _ _ _\<close> untouched [where c = "clock (service fw)" and status = status and data = "[]" and ch = "channels fw"] show thesis
      by (simp add: serves_def)
  next
    case (Inr oper)
    with \<open>serves _ _ _ _\<close> False performed [where oper = oper and c = "clock (service fw)"] show thesis
      by (auto simp: serves_def answered_def split: prod.splits)
  qed
qed

section \<open>Runs of the device\<close>

text \<open>
  The device between power-on and any moment, with the ghost flag of the service policy:
  whether a PIN was confirmed since the session was last closed. A step is one request
  with any report and any outcome of a touch wait, or the passing of time, during which
  the other tasks may change the channels and the bus may do anything.
\<close>

type_synonym ('h, 'c) device = "('h, 'c) Firmware \<times> bool"

definition ghost_after :: "('h, 'e, 'c) Env \<Rightarrow> bytes \<Rightarrow> ('h, 'c) CryptoService \<Rightarrow> bool \<Rightarrow> bool" where
  "ghost_after E rx s g =
     (case decode_request rx of
        Inl _ \<Rightarrow> g
      | Inr oper \<Rightarrow> if oper = OpCloseSession then False
          else g \<or> fst (perform E oper s) \<and> presents_confirmed_pin E oper s)"

inductive device_step :: "('h, 'e, 'c) Env \<Rightarrow> ('h, 'c) device \<Rightarrow> ('h, 'c) device \<Rightarrow> bool" for E where
  request: "handle_one_request E touch rx fw = (n, fw') \<Longrightarrow>
     device_step E (fw, g) (fw', ghost_after E rx (service fw) g)"
| environment: "session (service fw') = session (service fw) \<Longrightarrow>
     serial (service fw') = serial (service fw) \<Longrightarrow> tx_buf fw' = tx_buf fw \<Longrightarrow>
     device_step E (fw, g) (fw', g)"

definition powered_on :: "('h, 'c) device \<Rightarrow> bool" where
  "powered_on d \<longleftrightarrow>
     (\<exists>a c. d = (\<lparr>service = CryptoService_new a c, tx_buf = replicate REPORT_SIZE 0,
                  channels = Channels_new\<rparr>, False))"

definition device_inv :: "('h, 'c) device \<Rightarrow> bool" where
  "device_inv d \<longleftrightarrow> length (tx_buf (fst d)) = 128 \<and> serial_wf (service (fst d)) \<and>
     session_authorised (service (fst d), snd d)"

lemma powered_on_inv: "powered_on d \<Longrightarrow> device_inv d"
  by (auto simp: powered_on_def device_inv_def REPORT_SIZE_def report_sizes CryptoService_new_def
      serial_wf_def session_authorised_def Session_new_def)

lemma is_sign_ghost: "is_sign oper \<Longrightarrow> \<not> presents_confirmed_pin E oper s \<and> oper \<noteq> OpCloseSession"
  by (cases oper) auto

lemma request_inv:
  assumes "device_inv (fw, g)" and "handle_one_request E touch rx fw = (n, fw')"
  shows "device_inv (fw', ghost_after E rx (service fw) g)"
proof -
  have w: "length (tx_buf fw) = 128" "serial_wf (service fw)"
    and a: "session_authorised (service fw, g)" using assms(1) by (simp_all add: device_inv_def)
  from w show ?thesis
  proof (cases rule: request_cases [where E = E and touch = touch and rx = rx])
    case (untouched status data ch c)
    have "ghost_after E rx (service fw) g = g"
      using untouched(3) is_sign_ghost [of _ E] by (auto simp: ghost_after_def split: sum.split)
    with assms(2) w a untouched(1,2) show ?thesis
      by (auto simp: device_inv_def serial_wf_def session_authorised_def)
  next
    case (performed status data ch oper c)
    let ?s = "(service fw)\<lparr>clock := c\<rparr>"
    have "serial_wf ?s" "session_authorised (?s, g)" using w a by (simp_all add: serial_wf_def session_authorised_def)
    moreover have "service_step E (?s, g) (snd (perform E oper ?s), ghost_after E rx (service fw) g)"
      using performed(3,5) is_sign_ghost [of oper E] service_step.call [of E oper ?s _ _ g]
      by (cases "is_sign oper") (auto simp: ghost_after_def prod_eq_iff)
    ultimately show ?thesis using performed(1,2) assms(2)
      by (auto simp: device_inv_def perform_serial_wf dest: service_step_authorised)
  qed
qed

lemma device_step_inv:
  assumes "device_inv d" and "device_step E d d'"
  shows "device_inv d'"
  using assms(2)
proof (cases rule: device_step.cases)
  case (request touch rx fw n fw' g)
  with assms(1) show ?thesis using request_inv by blast
next
  case (environment fw' fw g)
  with assms(1) show ?thesis by (simp add: device_inv_def serial_wf_def session_authorised_def)
qed

interpretation device: step_invariant powered_on "device_step E" device_inv for E
  by unfold_locales (auto intro: powered_on_inv device_step_inv)

text \<open>What the bytes of a report must be for a method that sends Lock, Sign or GenKey.\<close>

lemma decode_request_bytes:
  assumes "decode_request rx = Inr oper"
  obtains cmd data padding where "rx = report (opcode_as_u8 cmd) data padding" and "length data + length padding = 125"
    and "decode_payload cmd data = Inr oper"
proof -
  from assms obtain f cmd where f: "Frame_parse rx = Inr f" "opcode_from_byte (opcode f) = Some cmd"
    and d: "decode_payload cmd (payload f) = Inr oper"
    by (auto simp: decode_request_def split: sum.splits option.splits)
  from f(2) have "opcode f = opcode_as_u8 cmd" by (auto simp: opcode_from_byte_def split: if_splits)
  with f(1) d that show thesis by (auto elim: Frame_parse_Inr)
qed

lemma lock_payload:
  assumes "decode_payload cmd data = Inr oper" and "OP_LOCK \<in> set (footprint oper)"
  shows "cmd = CmdLockConfigZone \<and> (\<exists>crc. data = [0xDE, 0xAD, 0xBE, 0xEF] @ u16_to_le_bytes crc) \<or>
    cmd = CmdLockDataZone \<and> data = [0xCA, 0xFE, 0xBA, 0xBE] \<or>
    cmd = CmdLockSlot \<and> (\<exists>i<16. data = [0xF0, 0x0D, 0xCA, 0xFE, i])"
  using assms
  by (cases cmd)
    (auto simp: parsed_def authorised_def valid_slot_def opcode_defs parse_magic_payloads magic_words SLOT_COUNT_def
      split: sum.splits if_splits PayloadError.splits)

lemma sign_payload:
  assumes "decode_payload cmd data = Inr oper" and "OP_SIGN \<in> set (footprint oper)"
  shows "cmd = CmdSign \<and> is_sign oper \<and> (\<exists>i d. i < 16 \<and> length d = 32 \<and> data = i # d)"
  using assms
  by (cases cmd)
    (auto simp: parsed_def authorised_def valid_slot_def opcode_defs parse_head_payloads SLOT_COUNT_def
      split: sum.splits if_splits PayloadError.splits)

lemma genkey_payload:
  assumes "decode_payload cmd data = Inr oper" and "OP_GENKEY \<in> set (footprint oper)"
  shows "(cmd = CmdGetPubkey \<or> cmd = CmdGenKey) \<and> (\<exists>i<16. data = [i]) \<or>
    cmd = CmdEmergencyReset \<and> (\<exists>k. length k = 32 \<and> data = [0xBA, 0xDC, 0x0F, 0xFE] @ k)"
  using assms
  by (cases cmd)
    (auto simp: parsed_def authorised_def valid_slot_def opcode_defs parse_short_payloads parse_magic_payloads magic_words
      SLOT_COUNT_def split: sum.splits if_splits PayloadError.splits)

lemma sends_opcode:
  assumes "list_all (sends ops) xs" and "command_packet op p1 p2 d \<in> set xs"
  shows "op \<in> set ops"
  using assms
  by (auto simp: list_all_iff sends_def idle_token_def command_packet_def command_frame_def with_crc_def WORD_ADDRESS_IDLE_def
      WORD_ADDRESS_COMMAND_def dest!: bspec)

lemma request_sends:
  assumes "length (tx_buf fw) = 128" and "serial_wf (service fw)"
  shows "\<exists>xs. svc_log (service (snd (handle_one_request (log_env E) touch rx fw))) = svc_log (service fw) @ xs \<and>
    list_all (sends (case decode_request rx of
        Inl _ \<Rightarrow> []
      | Inr oper \<Rightarrow>
          if is_sign oper \<and> \<not> fst (touch (channels (requesting_touch fw)) (clock (service fw))) then []
          else footprint oper)) xs"
  using assms
proof (cases rule: request_cases [where E = "log_env E" and touch = touch and rx = rx])
  case (untouched status data ch c)
  then show ?thesis by (intro exI [of _ "[]"]) (simp add: svc_log_def)
next
  case (performed status data ch oper c)
  moreover obtain xs where "svc_log (snd (perform (log_env E) oper ((service fw)\<lparr>clock := c\<rparr>))) =
      svc_log ((service fw)\<lparr>clock := c\<rparr>) @ xs" "list_all (sends (footprint oper)) xs"
    using perform_footprint by blast
  ultimately show ?thesis by (intro exI [of _ xs]) (auto simp: svc_log_def)
qed

section \<open>Properties\<close>

text \<open>
  C4. The dispatcher refines the service. A report that does not decode (malformed frame,
  unknown opcode, wrong payload length, wrong magic word, slot out of range) is answered
  with the matching status and changes nothing else. A signature request without a
  session is answered \<open>PinRequired\<close> and changes nothing else; with one, it clears any
  stale touch, posts \<open>SignRequested\<close> and waits. Every other request runs exactly the
  service method it decodes to, answers \<open>Ok\<close> if and only if the method succeeded, and
  posts no event except \<open>PinVerified\<close> after a successful PIN verification.
\<close>

theorem request_refines_service:
  assumes "length (tx_buf fw) = 128" and "serial_wf (service fw)"
  shows "case decode_request rx of
    Inl status \<Rightarrow> begin_request E rx fw = (Responded 128, fw\<lparr>tx_buf := response status []\<rparr>)
  | Inr (OpSign slot digest) \<Rightarrow>
      begin_request E rx fw =
        (if is_session_active E (service fw)
         then (AwaitTouch slot digest,
               fw\<lparr>channels := post_event SignRequested ((channels fw)\<lparr>TOUCH_CONFIRMED := False\<rparr>)\<rparr>)
         else (Responded 128, fw\<lparr>tx_buf := response StatusPinRequired []\<rparr>))
  | Inr oper \<Rightarrow>
      (case perform E oper (service fw) of (success, t) \<Rightarrow>
       \<exists>status data. begin_request E rx fw =
         (Responded 128, fw\<lparr>service := t, tx_buf := response status data,
            channels := (case oper of
                           OpVerifyPin _ \<Rightarrow> if success then post_event PinVerified (channels fw) else channels fw
                         | _ \<Rightarrow> channels fw)\<rparr>) \<and>
         length data \<le> 125 \<and> (status = StatusOk \<longleftrightarrow> success))"
proof (cases "\<exists>slot digest. decode_request rx = Inr (OpSign slot digest)")
  case True
  then obtain slot digest where d: "decode_request rx = Inr (OpSign slot digest)" by blast
  then show ?thesis using begin_request_sign [OF assms(1) d, of E] by (simp add: requesting_touch_def)
next
  case False
  then have n: "decode_request rx = Inr oper \<Longrightarrow> \<not> is_sign oper" for oper by (auto elim: is_sign.elims)
  obtain res where r: "begin_request E rx fw = responding (\<lambda>_. res) fw" "serves E fw (decode_request rx) res"
    using begin_request_serves [where E = E, OF assms n] by blast
  show ?thesis
  proof (cases "decode_request rx")
    case (Inl status)
    with r show ?thesis by (simp add: serves_def responding_def)
  next
    case (Inr oper)
    obtain success t where p: "perform E oper (service fw) = (success, t)" by fastforce
    with r Inr obtain status data where "begin_request E rx fw =
        (Responded 128, fw\<lparr>service := t, tx_buf := response status data,
           channels := events_of oper success (channels fw)\<rparr>)" "length data \<le> 125"
      "status = StatusOk \<longleftrightarrow> success"
      by (auto simp: serves_def answered_def responding_def)
    with Inr p n [OF Inr] show ?thesis by (cases oper) (auto simp: events_of_def)
  qed
qed

definition demo_firmware :: "(scripted, u64) Firmware" where
  "demo_firmware = \<lparr>service = CryptoService_new (Atecc_new (scripted_chip [])) 0,
                    tx_buf = replicate REPORT_SIZE 0, channels = Channels_new\<rparr>"

lemma demo_firmware_wf: "length (tx_buf demo_firmware) = 128" "serial_wf (service demo_firmware)"
  by (simp_all add: demo_firmware_def REPORT_SIZE_def report_sizes CryptoService_new_def serial_wf_def)

theorem request_refines_service_witness:
  "begin_request demo_env (report 0xF1 [0xCA, 0xFE, 0xBA, 0xBF] (replicate 121 0)) demo_firmware =
     (Responded 128, demo_firmware\<lparr>tx_buf := response StatusLockMagicMismatch []\<rparr>)"
proof -
  let ?rx = "report 0xF1 [0xCA, 0xFE, 0xBA, 0xBF] (replicate 121 0)"
  have "decode_request ?rx = Inl StatusLockMagicMismatch" by code_simp
  then show ?thesis
    using request_refines_service [OF demo_firmware_wf, of demo_env ?rx] by simp
qed

text \<open>
  C16. Every request gets exactly one well-formed answer. In every state the device can
  reach from power-on, a full report is answered by a 128-byte report that carries one of
  the defined statuses and decodes to it, whatever the report contains and however the
  touch wait ends; a read error or a short report is dropped with no effect.
\<close>

theorem every_request_is_answered:
  assumes "powered_on d" and "(device_step E)\<^sup>*\<^sup>* d (fw, g)"
  shows "dispatch_turn E touch None fw = (None, fw) \<and>
    (n \<noteq> 128 \<longrightarrow> dispatch_turn E touch (Some (n, rx)) fw = (None, fw)) \<and>
    (\<exists>status data fw' out. dispatch_turn E touch (Some (128, rx)) fw = (Some out, fw') \<and> length out = 128 \<and>
       Frame_parse out = Inr \<lparr>opcode = status_as_u8 status, payload = data\<rparr> \<and> length data \<le> 125)"
proof -
  have w: "length (tx_buf fw) = 128" "serial_wf (service fw)"
    using device.reachable_inv [OF assms] by (simp_all add: device_inv_def)
  obtain status data fw' where h: "handle_one_request E touch rx fw = (128, fw')"
    and b: "tx_buf fw' = response status data" "length data \<le> 125"
    using w by (cases rule: request_cases [where E = E and touch = touch and rx = rx]) auto
  then have "dispatch_turn E touch (Some (128, rx)) fw = (Some (response status data), fw')"
    by (simp add: dispatch_turn_def REPORT_SIZE_def report_sizes)
  with b show ?thesis by (auto simp: dispatch_turn_def REPORT_SIZE_def report_sizes parse_response)
qed

lemma demo_powered_on: "powered_on (demo_firmware, False)"
  by (auto simp: powered_on_def demo_firmware_def)

theorem every_request_is_answered_witness:
  "\<exists>status data fw' out.
     dispatch_turn demo_env (\<lambda>ch c. (True, ch, c)) (Some (128, replicate 128 0xFF)) demo_firmware = (Some out, fw') \<and>
     length out = 128 \<and>
     Frame_parse out = Inr \<lparr>opcode = status_as_u8 status, payload = data\<rparr> \<and> length data \<le> 125"
  using every_request_is_answered [OF demo_powered_on rtranclp.rtrancl_refl] by blast

text \<open>
  C1. No signature over USB without a confirmed PIN. Take any run of the device from
  power-on, with any reports, any touches and any bus behaviour. If since power-on, or
  since the session was last closed, no VerifyPin or SetPin request succeeded with a PIN
  that the chip confirmed, then a signature request is answered \<open>PinRequired\<close> at once:
  no touch is asked for, no event posted and nothing sent to the chip.
\<close>

theorem usb_sign_needs_confirmed_pin:
  assumes "powered_on d" and "(device_step E)\<^sup>*\<^sup>* d (fw, False)"
    and "decode_request rx = Inr (OpSign slot digest)"
  shows "handle_one_request E touch rx fw = (128, fw\<lparr>tx_buf := response StatusPinRequired []\<rparr>)"
proof -
  have "device_inv (fw, False)" using assms(1,2) by (rule device.reachable_inv)
  then have "length (tx_buf fw) = 128" "\<not> is_session_active E (service fw)"
    using active_open [of E "service fw"] by (auto simp: device_inv_def session_authorised_def)
  with assms(3) show ?thesis by (intro handle_one_request_sign_refused)
qed

theorem usb_sign_needs_confirmed_pin_witness:
  "handle_one_request demo_env (\<lambda>ch c. (True, ch, c)) (report 0x03 (2 # replicate 32 7) (replicate 92 0)) demo_firmware =
     (128, demo_firmware\<lparr>tx_buf := response StatusPinRequired []\<rparr>)"
proof -
  have "decode_request (report 0x03 (2 # replicate 32 7) (replicate 92 0)) = Inr (OpSign (Slot 2) (replicate 32 7))"
    by code_simp
  then show ?thesis
    using usb_sign_needs_confirmed_pin [OF demo_powered_on rtranclp.rtrancl_refl] by blast
qed

text \<open>
  C12. What a USB request may put on the chip's bus. A report that does not decode sends
  nothing; a signature request whose touch was not confirmed sends nothing; any other
  request sends only commands of the footprint of its service method. In terms of the
  bytes of the report: a Lock command reaches the chip only when the report is
  LockConfigZone with DE AD BE EF, LockDataZone with CA FE BA BE or LockSlot with
  F0 0D CA FE; a Sign command only when it is a Sign request whose touch was confirmed; and
  a GenKey command only when it is GetPubkey or GenKey with a slot, or EmergencyReset with
  BA DC 0F FE.
\<close>

theorem usb_request_footprint:
  assumes "length (tx_buf fw) = 128" and "serial_wf (service fw)"
  shows "\<exists>xs. svc_log (service (snd (handle_one_request (log_env E) touch rx fw))) = svc_log (service fw) @ xs \<and>
    list_all (sends (case decode_request rx of
        Inl _ \<Rightarrow> []
      | Inr oper \<Rightarrow>
          if is_sign oper \<and> \<not> fst (touch (channels (requesting_touch fw)) (clock (service fw))) then []
          else footprint oper)) xs \<and>
    (\<forall>p1 p2 d. command_packet OP_LOCK p1 p2 d \<in> set xs \<longrightarrow>
       (\<exists>crc padding. rx = report 0xF0 ([0xDE, 0xAD, 0xBE, 0xEF] @ u16_to_le_bytes crc) padding) \<or>
       (\<exists>padding. rx = report 0xF1 [0xCA, 0xFE, 0xBA, 0xBE] padding) \<or>
       (\<exists>i padding. i < 16 \<and> rx = report 0xF2 [0xF0, 0x0D, 0xCA, 0xFE, i] padding)) \<and>
    (\<forall>p1 p2 d. command_packet OP_SIGN p1 p2 d \<in> set xs \<longrightarrow>
       fst (touch (channels (requesting_touch fw)) (clock (service fw))) \<and>
       (\<exists>i digest padding. i < 16 \<and> length digest = 32 \<and> rx = report 0x03 (i # digest) padding)) \<and>
    (\<forall>p1 p2 d. command_packet OP_GENKEY p1 p2 d \<in> set xs \<longrightarrow>
       (\<exists>i padding. i < 16 \<and> (rx = report 0x02 [i] padding \<or> rx = report 0x04 [i] padding)) \<or>
       (\<exists>k padding. length k = 32 \<and> rx = report 0x0D ([0xBA, 0xDC, 0x0F, 0xFE] @ k) padding))"
proof -
  let ?ops = "case decode_request rx of Inl _ \<Rightarrow> []
      | Inr oper \<Rightarrow> if is_sign oper \<and> \<not> fst (touch (channels (requesting_touch fw)) (clock (service fw))) then [] else footprint oper"
  obtain xs where xs: "svc_log (service (snd (handle_one_request (log_env E) touch rx fw))) = svc_log (service fw) @ xs"
    "list_all (sends ?ops) xs" using request_sends [OF assms] by blast
  have bytes: "\<exists>oper cmd data padding. (is_sign oper \<longrightarrow> fst (touch (channels (requesting_touch fw)) (clock (service fw)))) \<and>
      op \<in> set (footprint oper) \<and> decode_payload cmd data = Inr oper \<and> rx = report (opcode_as_u8 cmd) data padding"
    if sent: "command_packet op p1 p2 d \<in> set xs" for op p1 p2 d
  proof -
    obtain oper where o: "decode_request rx = Inr oper" "op \<in> set (footprint oper)"
      "is_sign oper \<longrightarrow> fst (touch (channels (requesting_touch fw)) (clock (service fw)))"
      using sends_opcode [OF xs(2) sent] by (cases "decode_request rx") (auto split: if_splits)
    from o(1) obtain cmd data padding where "rx = report (opcode_as_u8 cmd) data padding" "decode_payload cmd data = Inr oper"
      by (rule decode_request_bytes)
    with o(2,3) show ?thesis by blast
  qed
  have l: "(\<exists>crc padding. rx = report 0xF0 ([0xDE, 0xAD, 0xBE, 0xEF] @ u16_to_le_bytes crc) padding) \<or>
      (\<exists>padding. rx = report 0xF1 [0xCA, 0xFE, 0xBA, 0xBE] padding) \<or>
      (\<exists>i padding. i < 16 \<and> rx = report 0xF2 [0xF0, 0x0D, 0xCA, 0xFE, i] padding)"
    if "command_packet OP_LOCK p1 p2 d \<in> set xs" for p1 p2 d
    using bytes [OF that] by (auto dest!: lock_payload) blast+
  have g: "fst (touch (channels (requesting_touch fw)) (clock (service fw))) \<and>
      (\<exists>i digest padding. i < 16 \<and> length digest = 32 \<and> rx = report 0x03 (i # digest) padding)"
    if "command_packet OP_SIGN p1 p2 d \<in> set xs" for p1 p2 d
    using bytes [OF that] by (auto dest!: sign_payload) blast
  have k: "(\<exists>i padding. i < 16 \<and> (rx = report 0x02 [i] padding \<or> rx = report 0x04 [i] padding)) \<or>
      (\<exists>k padding. length k = 32 \<and> rx = report 0x0D ([0xBA, 0xDC, 0x0F, 0xFE] @ k) padding)"
    if "command_packet OP_GENKEY p1 p2 d \<in> set xs" for p1 p2 d
    using bytes [OF that] by (auto dest!: genkey_payload) blast+
  from xs l g k show ?thesis by blast
qed

definition demo_firmware_logged :: "(scripted logged, u64) Firmware" where
  "demo_firmware_logged =
     \<lparr>service = demo_logged, tx_buf = replicate REPORT_SIZE 0, channels = Channels_new\<rparr>"

theorem usb_request_footprint_witness:
  "\<exists>xs. svc_log (service (snd (handle_one_request (log_env demo_env) (\<lambda>ch c. (False, ch, c))
       (report 0x15 [0] (replicate 124 0)) demo_firmware_logged))) =
       svc_log (service demo_firmware_logged) @ xs \<and> list_all (sends [OP_COUNTER]) xs \<and>
     (\<forall>p1 p2 d. command_packet OP_LOCK p1 p2 d \<notin> set xs)"
proof -
  let ?rx = "report 0x15 [0] (replicate 124 0)"
  have d: "decode_request ?rx = Inr (OpReadCounter Counter0)" by code_simp
  have w: "length (tx_buf demo_firmware_logged) = 128" "serial_wf (service demo_firmware_logged)"
    by (simp_all add: demo_firmware_logged_def demo_logged_def REPORT_SIZE_def report_sizes
        CryptoService_new_def serial_wf_def)
  have n: "?rx \<noteq> report 0xF0 data padding" "?rx \<noteq> report 0xF1 data padding" "?rx \<noteq> report 0xF2 data padding" for data padding
    by (simp_all add: report_def)
  from usb_request_footprint [OF w, of demo_env "\<lambda>ch c. (False, ch, c)" ?rx] d n
  show ?thesis by simp blast
qed

text \<open>
  How a signature request ends once it waits for the touch. If the wait times out,
  the answer is \<open>TouchTimeout\<close>, the service is untouched and \<open>TouchTimeout\<close> is posted.
  If the touch is confirmed, the service signs; the session is checked again at that
  moment. On success the answer is \<open>Ok\<close> with exactly the 64 signature bytes and
  \<open>SignComplete\<close> is posted; on any failure the answer is not \<open>Ok\<close> and
  \<open>SignComplete\<close> and then \<open>ErrorRaised\<close> are posted.
\<close>

theorem sign_request_outcome:
  assumes "length (tx_buf fw) = 128" and "decode_request rx = Inr (OpSign slot digest)"
    and "is_session_active E (service fw)"
    and "touch (channels (requesting_touch fw)) (clock (service fw)) = (confirmed, ch, c)"
  shows "if \<not> confirmed then
      handle_one_request E touch rx fw =
        (128, fw\<lparr>service := (service fw)\<lparr>clock := c\<rparr>, tx_buf := response StatusTouchTimeout [],
                 channels := post_event TouchTimeout ch\<rparr>)
    else (case service_sign E slot digest ((service fw)\<lparr>clock := c\<rparr>) of
      (Inr sig, t) \<Rightarrow> length sig = 64 \<and> handle_one_request E touch rx fw =
        (128, fw\<lparr>service := t, tx_buf := response StatusOk sig, channels := post_event SignComplete ch\<rparr>)
    | (Inl e, t) \<Rightarrow> \<exists>status data. status \<noteq> StatusOk \<and> handle_one_request E touch rx fw =
        (128, fw\<lparr>service := t, tx_buf := response status data,
                 channels := post_event ErrorRaised (post_event SignComplete ch)\<rparr>))"
proof -
  let ?fw = "at_wait_end fw (ch, c)"
  have w: "length (tx_buf ?fw) = 128" and s: "service ?fw = (service fw)\<lparr>clock := c\<rparr>"
    using assms(1) by (simp_all add: at_wait_end_def)
  have h: "handle_one_request E touch rx fw =
      (if confirmed then handle_sign_confirmed E slot digest ?fw else handle_sign_timed_out ?fw)"
    using assms by (rule handle_one_request_sign)
  show ?thesis
  proof (cases "service_sign E slot digest ((service fw)\<lparr>clock := c\<rparr>)")
    case (Pair r t)
    show ?thesis
    proof (cases r)
      case (Inl e)
      have "handle_sign_confirmed E slot digest ?fw =
          write_error e (?fw\<lparr>service := t, channels := post_event ErrorRaised (post_event SignComplete ch)\<rparr>)"
        using Pair Inl by (simp add: handle_sign_confirmed_def on_service_def post_def Let_def at_wait_end_def)
      then show ?thesis
        using h w Pair Inl answered_error(1) [OF w, of t "post_event ErrorRaised (post_event SignComplete ch)" e]
        by (auto simp: answered_def at_wait_end_def handle_sign_timed_out_def post_def write_status_eq)
    next
      case (Inr sig)
      with Pair have "length sig = 64" by (auto dest: service_sign_length)
      then show ?thesis using h w Pair Inr
        by (simp add: at_wait_end_def handle_sign_timed_out_def handle_sign_confirmed_def on_service_def
            post_def Let_def write_status_eq)
    qed
  qed
qed

definition demo_unlocked :: "(scripted, u64) Firmware" where
  "demo_unlocked = demo_firmware\<lparr>service := (service demo_firmware)\<lparr>session := \<lparr>last_activity_ms = Some 0\<rparr>\<rparr>\<rparr>"

theorem sign_request_outcome_witness:
  "handle_one_request demo_env (\<lambda>ch c. (False, ch, c + 30000)) (report 0x03 (2 # replicate 32 7) (replicate 92 0))
     demo_unlocked =
   (128, demo_unlocked\<lparr>service := (service demo_unlocked)\<lparr>clock := 30000\<rparr>,
      tx_buf := response StatusTouchTimeout [],
      channels := \<lparr>EVENT_CHANNEL = [SignRequested, TouchTimeout], TOKEN_STATE = None, TOUCH_CONFIRMED = False\<rparr>\<rparr>)"
proof -
  let ?ch = "\<lparr>EVENT_CHANNEL = [SignRequested], TOKEN_STATE = None, TOUCH_CONFIRMED = False\<rparr>"
  have d: "decode_request (report 0x03 (2 # replicate 32 7) (replicate 92 0)) = Inr (OpSign (Slot 2) (replicate 32 7))"
    by code_simp
  have w: "length (tx_buf demo_unlocked) = 128" using demo_firmware_wf by (simp add: demo_unlocked_def)
  have a: "is_session_active demo_env (service demo_unlocked)" by code_simp
  have t: "(\<lambda>ch c. (False, ch, c + 30000)) (channels (requesting_touch demo_unlocked))
      (clock (service demo_unlocked)) = (False, ?ch, 30000)"
    by code_simp
  have "post_event TouchTimeout ?ch = \<lparr>EVENT_CHANNEL = [SignRequested, TouchTimeout], TOKEN_STATE = None,
      TOUCH_CONFIRMED = False\<rparr>" by code_simp
  then show ?thesis using sign_request_outcome [where touch = "\<lambda>ch c. (False, ch, c + 30000)", OF w d a t]
    by simp
qed

lemma genkey_create_any_session:
  "service_genkey_create E slot (s\<lparr>session := x\<rparr>) =
     (case service_genkey_create E slot s of (r, t) \<Rightarrow> (r, t\<lparr>session := x\<rparr>))"
  by (simp add: service_genkey_create_def in_channel_def on_atecc_def split: prod.split)

definition with_session :: "Session \<Rightarrow> ('h, 'c) Firmware \<Rightarrow> ('h, 'c) Firmware" where
  "with_session x fw = fw\<lparr>service := (service fw)\<lparr>session := x\<rparr>\<rparr>"

lemma write_status_session:
  "write_status status data (with_session x fw) =
     (case write_status status data fw of (n, fw') \<Rightarrow> (n, with_session x fw'))"
  by (simp add: write_status_def with_session_def split: sum.split)

lemma write_error_session:
  "write_error e (with_session x fw) = (case write_error e fw of (n, fw') \<Rightarrow> (n, with_session x fw'))"
  by (cases e) (simp_all add: write_status_session split: AteccErrorKind.split)

text \<open>
  C28. Key generation is not tied to a session. Replacing the session, by a closed one for
  instance, changes neither the answer to a GenKey request nor anything it does to the
  service, the chip and the channels. The firmware itself asks for no PIN before it
  replaces a private key; only the chip's own key configuration may refuse.
\<close>

theorem genkey_ignores_session:
  "handle_genkey E data (with_session x fw) =
     (case handle_genkey E data fw of (n, fw') \<Rightarrow> (n, with_session x fw'))"
proof -
  have "answer (service_genkey_create E slot) id write_error (with_session x fw) =
      (case answer (service_genkey_create E slot) id write_error fw of (n, fw') \<Rightarrow> (n, with_session x fw'))"
    for slot
  proof -
    obtain r t where g: "service_genkey_create E slot (service fw) = (r, t)" by fastforce
    have "on_service (service_genkey_create E slot) (with_session x fw) = (r, with_session x (fw\<lparr>service := t\<rparr>))"
      by (simp add: on_service_def with_session_def genkey_create_any_session g)
    then show ?thesis
      by (cases r) (simp_all add: answer_def on_service_def g write_status_session write_error_session)
  qed
  then show ?thesis
    by (simp add: handle_genkey_def with_payload_def with_slot_def write_status_session
        split: sum.split option.split)
qed

end
