(* ===== verification/Host_Client.thy ===== *)
theory Host_Client
  imports Dispatch_Policy Config_Zone
begin

text \<open>
  \<^verbatim>\<open>src/tools/hsm-host/src\<close>: the command line on the host. \<open>send_command\<close> and the
  decoding of error responses (\<^verbatim>\<open>device.rs\<close>), the payloads and checks of each
  subcommand (\<^verbatim>\<open>main.rs\<close>).

  The HID library is the parameter \<open>HidDevice\<close>, hexadecimal decoding (crate
  \<^verbatim>\<open>hex\<close>) the parameter \<open>hex_decode\<close>. A string argument is its bytes. A command
  returns what the program prints; the texts around the values are left out, and an error
  carries the decoded values of its message.
\<close>

unbundle bit_operations_syntax

section \<open>The device (device.rs)\<close>

record 'd HidDevice =
  hid_open :: "'d \<Rightarrow> bool \<times> 'd"
  hid_write :: "bytes \<Rightarrow> 'd \<Rightarrow> bool \<times> 'd"
  hid_read_timeout :: "nat \<Rightarrow> 'd \<Rightarrow> bytes option \<times> 'd"

datatype HostError =
  OpenFailed | EncodeFailed FrameBuildError | HidWriteFailed | HidReadFailed | ShortRead nat
| MalformedFrame FrameParseError
| ReportedWrongPin u8 | ReportedWrongPuk u8 | ReportedResetNotPermitted u8 u8
| ReportedChipError "ChipError option" u8 | ReportedCommunicationError "AteccErrorKind option" u8
| ReportedStatus u8 "ResponseStatus option" bytes
| UnexpectedLength nat | BadArgument | StdinFailed | NotConfirmed bytes
| BlobReadFailed | BlobSize nat | SecretsFileExists | AlreadyProvisioned | NotUtf8 | SecretsWriteFailed

type_synonym ('d, 'a) host = "('d, HostError, 'a) act"

definition ensure :: "bool \<Rightarrow> HostError \<Rightarrow> ('d, unit) host" where
  "ensure b e = (if b then return_ok () else return_err e)"

definition host_open :: "'d HidDevice \<Rightarrow> ('d, unit) host" where
  "host_open D d = (case hid_open D d of (success, d) \<Rightarrow> (if success then Inr () else Inl OpenFailed, d))"

definition host_write :: "'d HidDevice \<Rightarrow> bytes \<Rightarrow> ('d, unit) host" where
  "host_write D wire d =
     (case hid_write D wire d of (success, d) \<Rightarrow> (if success then Inr () else Inl HidWriteFailed, d))"

definition host_read :: "'d HidDevice \<Rightarrow> nat \<Rightarrow> ('d, bytes) host" where
  "host_read D timeout d =
     (case hid_read_timeout D timeout d of
        (Some bs, d) \<Rightarrow> (Inr bs, d) | (None, d) \<Rightarrow> (Inl HidReadFailed, d))"

definition status_error :: "Frame \<Rightarrow> HostError" where
  "status_error frame =
     (let op_byte = opcode frame; data = payload frame; n = length data in
      if op_byte = status_as_u8 StatusWrongPin \<and> n = 1 then ReportedWrongPin (data ! 0)
      else if op_byte = status_as_u8 StatusWrongPuk \<and> n = 1 then ReportedWrongPuk (data ! 0)
      else if op_byte = status_as_u8 StatusEmergencyResetNotPermitted \<and> n = 2
      then ReportedResetNotPermitted (data ! 0) (data ! 1)
      else if op_byte = status_as_u8 StatusAteccChipError \<and> n = 1
      then ReportedChipError (from_status_byte (data ! 0)) (data ! 0)
      else if op_byte = status_as_u8 StatusAteccCommunicationError \<and> n = 1
      then ReportedCommunicationError (from_sub_code (data ! 0)) (data ! 0)
      else ReportedStatus op_byte (status_from_byte op_byte) data)"

definition send_command :: "'d HidDevice \<Rightarrow> u8 \<Rightarrow> bytes \<Rightarrow> ('d, bytes) host" where
  "send_command D op_byte data =
     and_then (map_err EncodeFailed (of_result (Frame_to_report op_byte data))) (\<lambda>request.
       let wire = copy_at ((replicate (HID_REPORT_SIZE + 1) 0)[0 := 0]) 1 request in
     and_then (host_write D wire) (\<lambda>_.
     and_then (host_read D 60000) (\<lambda>resp.
     and_then (ensure (length resp = HID_REPORT_SIZE) (ShortRead (length resp))) (\<lambda>_.
     and_then (map_err MalformedFrame (of_result (Frame_parse resp))) (\<lambda>frame.
       if opcode frame \<noteq> status_as_u8 StatusOk then return_err (status_error frame)
       else return_ok (payload frame))))))"

definition command :: "'d HidDevice \<Rightarrow> CommandOpcode \<Rightarrow> bytes \<Rightarrow> ('d, bytes) host" where
  "command D op_code data = send_command D (opcode_as_u8 op_code) data"

section \<open>Arguments and confirmation (main.rs)\<close>

definition check_pin :: "bytes \<Rightarrow> ('d, bytes) host" where
  "check_pin pin = (if length pin \<noteq> 4 then return_err BadArgument else return_ok (copy_at (replicate 4 0) 0 pin))"

definition check_puk :: "bytes \<Rightarrow> ('d, bytes) host" where
  "check_puk puk = (if length puk \<noteq> 8 then return_err BadArgument else return_ok (copy_at (replicate 8 0) 0 puk))"

definition strip_0x :: "bytes \<Rightarrow> bytes" where
  "strip_0x s = (if take 2 s = ascii ''0x'' then drop 2 s else s)"

definition parse_hex_array :: "(bytes \<Rightarrow> bytes option) \<Rightarrow> nat \<Rightarrow> bytes \<Rightarrow> ('d, bytes) host" where
  "parse_hex_array hex_decode n s =
     (case hex_decode (strip_0x s) of
        None \<Rightarrow> return_err BadArgument
      | Some bs \<Rightarrow> if length bs \<noteq> n then return_err BadArgument else return_ok (copy_at (replicate n 0) 0 bs))"

text \<open>\<open>str::trim\<close>: the UTF-8 forms of the characters of the class White_Space.\<close>

definition white_space :: "bytes list" where
  "white_space =
     [[0x09], [0x0A], [0x0B], [0x0C], [0x0D], [0x20], [0xC2, 0x85], [0xC2, 0xA0], [0xE1, 0x9A, 0x80],
      [0xE2, 0x80, 0x80], [0xE2, 0x80, 0x81], [0xE2, 0x80, 0x82], [0xE2, 0x80, 0x83],
      [0xE2, 0x80, 0x84], [0xE2, 0x80, 0x85], [0xE2, 0x80, 0x86], [0xE2, 0x80, 0x87],
      [0xE2, 0x80, 0x88], [0xE2, 0x80, 0x89], [0xE2, 0x80, 0x8A], [0xE2, 0x80, 0xA8],
      [0xE2, 0x80, 0xA9], [0xE2, 0x80, 0xAF], [0xE2, 0x81, 0x9F], [0xE3, 0x80, 0x80]]"

lemma find_prefix_shorter:
  assumes "find (\<lambda>w. w \<noteq> [] \<and> take (length w) s = w) ws = Some w"
  shows "length (drop (length w) s) < length s"
proof -
  from assms have "w \<noteq> []" "take (length w) s = w" by (auto simp: find_Some_iff)
  then have "0 < length w" "s \<noteq> []" by auto
  then show ?thesis by simp
qed

function strip_leading :: "bytes list \<Rightarrow> bytes \<Rightarrow> bytes" where
  "strip_leading ws s =
     (case find (\<lambda>w. w \<noteq> [] \<and> take (length w) s = w) ws of
        None \<Rightarrow> s
      | Some w \<Rightarrow> strip_leading ws (drop (length w) s))"
  by pat_completeness auto
termination
  by (relation "measure (\<lambda>(ws, s). length s)") (auto dest: find_prefix_shorter)

declare strip_leading.simps [simp del]

definition trim :: "bytes \<Rightarrow> bytes" where
  "trim s = rev (strip_leading (map rev white_space) (rev (strip_leading white_space s)))"

text \<open>\<open>line\<close> is the line read from standard input, if reading succeeds.\<close>

definition confirm_interactive :: "bytes option \<Rightarrow> bytes \<Rightarrow> ('d, unit) host" where
  "confirm_interactive line expected =
     (case line of
        None \<Rightarrow> return_err StdinFailed
      | Some buf \<Rightarrow>
          let trimmed = trim buf in
          if trimmed \<noteq> expected then return_err (NotConfirmed trimmed) else return_ok ())"

fun decimal :: "nat \<Rightarrow> bytes" where
  "decimal n = (if n < 10 then [] else decimal (n div 10)) @ [0x30 + of_nat (n mod 10)]"

text \<open>\<open>core::str::from_utf8\<close>: the well-formed byte sequences of UTF-8.\<close>

definition cont :: "u8 \<Rightarrow> bool" where
  "cont b \<longleftrightarrow> 0x80 \<le> b \<and> b \<le> 0xBF"

fun utf8_valid :: "bytes \<Rightarrow> bool" where
  "utf8_valid [] = True"
| "utf8_valid (b # bs) =
     (if b < 0x80 then utf8_valid bs
      else case bs of
        c1 # bs1 \<Rightarrow>
          if 0xC2 \<le> b \<and> b \<le> 0xDF then cont c1 \<and> utf8_valid bs1
          else (case bs1 of
            c2 # bs2 \<Rightarrow>
              if b = 0xE0 then 0xA0 \<le> c1 \<and> c1 \<le> 0xBF \<and> cont c2 \<and> utf8_valid bs2
              else if b = 0xED then 0x80 \<le> c1 \<and> c1 \<le> 0x9F \<and> cont c2 \<and> utf8_valid bs2
              else if 0xE1 \<le> b \<and> b \<le> 0xEF then cont c1 \<and> cont c2 \<and> utf8_valid bs2
              else (case bs2 of
                c3 # bs3 \<Rightarrow>
                  if b = 0xF0 then 0x90 \<le> c1 \<and> c1 \<le> 0xBF \<and> cont c2 \<and> cont c3 \<and> utf8_valid bs3
                  else if 0xF1 \<le> b \<and> b \<le> 0xF3 then cont c1 \<and> cont c2 \<and> cont c3 \<and> utf8_valid bs3
                  else if b = 0xF4 then 0x80 \<le> c1 \<and> c1 \<le> 0x8F \<and> cont c2 \<and> cont c3 \<and> utf8_valid bs3
                  else False
              | [] \<Rightarrow> False)
          | [] \<Rightarrow> False)
      | [] \<Rightarrow> False)"

section \<open>Subcommands (main.rs)\<close>

text \<open>Most subcommands send one command and check the length of the answer.\<close>

definition sized :: "nat \<Rightarrow> ('d, bytes) host \<Rightarrow> ('d, bytes) host" where
  "sized n m = and_then m (\<lambda>data.
     if length data \<noteq> n then return_err (UnexpectedLength (length data)) else return_ok data)"

record InfoView =
  view_revision :: bytes
  view_serial :: bytes
  view_provisioned :: bool

definition cmd_info :: "'d HidDevice \<Rightarrow> ('d, InfoView) host" where
  "cmd_info D =
     and_then (host_open D) (\<lambda>_.
     and_then (sized 14 (command D CmdInfo [])) (\<lambda>data.
       return_ok \<lparr>view_revision = slice data 0 4, view_serial = slice data 4 13,
                  view_provisioned = (data ! 13 \<noteq> 0)\<rparr>))"

fun read_zone_blocks :: "'d HidDevice \<Rightarrow> nat list \<Rightarrow> bytes \<Rightarrow> ('d, bytes) host" where
  "read_zone_blocks D [] full = return_ok full"
| "read_zone_blocks D (block # blocks) full =
     and_then (sized 32 (command D CmdReadConfigZone [of_nat block])) (\<lambda>data.
       let start = block * 32 in read_zone_blocks D blocks (copy_at full start data))"

definition read_full_config_zone :: "'d HidDevice \<Rightarrow> ('d, bytes) host" where
  "read_full_config_zone D = read_zone_blocks D [0, 1, 2, 3] (replicate 128 0)"

definition cmd_read_config :: "'d HidDevice \<Rightarrow> ('d, bytes) host" where
  "cmd_read_config D = and_then (host_open D) (\<lambda>_. read_full_config_zone D)"

fun write_zone_blocks :: "'d HidDevice \<Rightarrow> bytes \<Rightarrow> nat list \<Rightarrow> ('d, unit) host" where
  "write_zone_blocks D blob [] = return_ok ()"
| "write_zone_blocks D blob (block # blocks) =
     (let start = block * 32;
          data = copy_at ((replicate 33 0)[0 := of_nat block]) 1 (slice blob start (start + 32)) in
      and_then (command D CmdWriteConfigZone data) (\<lambda>_. write_zone_blocks D blob blocks))"

text \<open>\<open>file\<close> is the content of the file at the given path, if it can be read.\<close>

definition cmd_write_config :: "'d HidDevice \<Rightarrow> bytes option \<Rightarrow> ('d, unit) host" where
  "cmd_write_config D file =
     (case file of
        None \<Rightarrow> return_err BlobReadFailed
      | Some blob \<Rightarrow>
          if length blob \<noteq> 128 then return_err (BlobSize (length blob))
          else and_then (host_open D) (\<lambda>_. write_zone_blocks D blob [0, 1, 2, 3]))"

definition cmd_read_config_slot :: "'d HidDevice \<Rightarrow> u8 \<Rightarrow> ('d, u16 \<times> u16) host" where
  "cmd_read_config_slot D slot =
     and_then (host_open D) (\<lambda>_.
     and_then (sized 4 (command D CmdReadConfigSlot [slot])) (\<lambda>data.
       return_ok (u16_from_le_bytes (data ! 0) (data ! 1), u16_from_le_bytes (data ! 2) (data ! 3))))"

definition cmd_read_slot_block :: "'d HidDevice \<Rightarrow> u8 \<Rightarrow> u8 \<Rightarrow> ('d, bytes) host" where
  "cmd_read_slot_block D slot block =
     and_then (host_open D) (\<lambda>_. sized 32 (command D CmdReadSlotBlock [slot, block]))"

definition cmd_read_slot_word :: "'d HidDevice \<Rightarrow> u8 \<Rightarrow> u8 \<Rightarrow> u8 \<Rightarrow> ('d, bytes) host" where
  "cmd_read_slot_word D slot block offset =
     and_then (host_open D) (\<lambda>_. sized 4 (command D CmdReadSlotWord [slot, block, offset]))"

definition cmd_close_session :: "'d HidDevice \<Rightarrow> ('d, unit) host" where
  "cmd_close_session D =
     and_then (host_open D) (\<lambda>_. and_then (command D CmdCloseSession []) (\<lambda>_. return_ok ()))"

definition cmd_provision_slot ::
  "(bytes \<Rightarrow> bytes option) \<Rightarrow> 'd HidDevice \<Rightarrow> u8 \<Rightarrow> bytes \<Rightarrow> ('d, unit) host" where
  "cmd_provision_slot hex_decode D slot value_hex =
     and_then (parse_hex_array hex_decode 32 value_hex) (\<lambda>content.
       let data = copy_at ((replicate 33 0)[0 := slot]) 1 content in
     and_then (host_open D) (\<lambda>_.
     and_then (command D CmdProvisionSlot data) (\<lambda>_. return_ok ())))"

definition cmd_get_pubkey :: "'d HidDevice \<Rightarrow> u8 \<Rightarrow> ('d, bytes \<times> bytes) host" where
  "cmd_get_pubkey D slot =
     and_then (host_open D) (\<lambda>_.
     and_then (sized 64 (command D CmdGetPubkey [slot])) (\<lambda>data.
       return_ok (take 32 data, drop 32 data)))"

definition cmd_genkey :: "'d HidDevice \<Rightarrow> u8 \<Rightarrow> ('d, bytes \<times> bytes) host" where
  "cmd_genkey D slot =
     and_then (host_open D) (\<lambda>_.
     and_then (sized 64 (command D CmdGenKey [slot])) (\<lambda>data.
       return_ok (take 32 data, drop 32 data)))"

definition cmd_sign ::
  "(bytes \<Rightarrow> bytes option) \<Rightarrow> 'd HidDevice \<Rightarrow> u8 \<Rightarrow> bytes \<Rightarrow> ('d, bytes \<times> bytes) host" where
  "cmd_sign hex_decode D slot challenge =
     and_then (parse_hex_array hex_decode 32 challenge) (\<lambda>digest.
       let data = copy_at ((replicate 33 0)[0 := slot]) 1 digest in
     and_then (host_open D) (\<lambda>_.
     and_then (sized 64 (command D CmdSign data)) (\<lambda>resp.
       return_ok (take 32 resp, drop 32 resp))))"

definition cmd_verify_pin :: "'d HidDevice \<Rightarrow> bytes \<Rightarrow> ('d, unit) host" where
  "cmd_verify_pin D pin_bytes =
     (if length pin_bytes \<noteq> 4 then return_err BadArgument
      else and_then (host_open D) (\<lambda>_.
           and_then (command D CmdVerifyPin pin_bytes) (\<lambda>_. return_ok ())))"

definition cmd_set_pin ::
  "(bytes \<Rightarrow> bytes option) \<Rightarrow> 'd HidDevice \<Rightarrow> bytes \<Rightarrow> bytes \<Rightarrow> bytes \<Rightarrow> ('d, unit) host" where
  "cmd_set_pin hex_decode D old new io_key_hex =
     and_then (check_pin old) (\<lambda>old_bytes.
     and_then (check_pin new) (\<lambda>new_bytes.
     and_then (parse_hex_array hex_decode 32 io_key_hex) (\<lambda>io_key.
       let data = copy_at (copy_at (copy_at (replicate 40 0) 0 old_bytes) 4 new_bytes) 8 io_key in
     and_then (host_open D) (\<lambda>_.
     and_then (command D CmdSetPin data) (\<lambda>_. return_ok ())))))"

definition cmd_unblock_pin ::
  "(bytes \<Rightarrow> bytes option) \<Rightarrow> 'd HidDevice \<Rightarrow> bytes \<Rightarrow> bytes \<Rightarrow> bytes \<Rightarrow> ('d, unit) host" where
  "cmd_unblock_pin hex_decode D puk new_pin io_key_hex =
     and_then (check_puk puk) (\<lambda>puk_bytes.
     and_then (check_pin new_pin) (\<lambda>new_pin_bytes.
     and_then (parse_hex_array hex_decode 32 io_key_hex) (\<lambda>io_key.
       let data = copy_at (copy_at (copy_at (replicate 44 0) 0 puk_bytes) 8 new_pin_bytes) 12 io_key in
     and_then (host_open D) (\<lambda>_.
     and_then (command D CmdUnblockPin data) (\<lambda>_. return_ok ())))))"

definition cmd_set_puk ::
  "(bytes \<Rightarrow> bytes option) \<Rightarrow> 'd HidDevice \<Rightarrow> bytes \<Rightarrow> bytes \<Rightarrow> bytes \<Rightarrow> ('d, unit) host" where
  "cmd_set_puk hex_decode D old new io_key_hex =
     and_then (check_puk old) (\<lambda>old_bytes.
     and_then (check_puk new) (\<lambda>new_bytes.
     and_then (parse_hex_array hex_decode 32 io_key_hex) (\<lambda>io_key.
       let data = copy_at (copy_at (copy_at (replicate 48 0) 0 old_bytes) 8 new_bytes) 16 io_key in
     and_then (host_open D) (\<lambda>_.
     and_then (command D CmdSetPuk data) (\<lambda>_. return_ok ())))))"

definition cmd_emergency_reset_dangerous ::
  "(bytes \<Rightarrow> bytes option) \<Rightarrow> 'd HidDevice \<Rightarrow> bytes option \<Rightarrow> bytes \<Rightarrow> ('d, bytes) host" where
  "cmd_emergency_reset_dangerous hex_decode D line io_key_hex =
     and_then (parse_hex_array hex_decode 32 io_key_hex) (\<lambda>io_key.
     and_then (confirm_interactive line (ascii ''EMERGENCY-RESET'')) (\<lambda>_.
       let data = copy_at (copy_at (replicate 36 0) 0 EMERGENCY_RESET_MAGIC) 4 io_key in
     and_then (host_open D) (\<lambda>_.
     and_then (sized 8 (command D CmdEmergencyReset data)) (\<lambda>resp.
       if \<not> utf8_valid resp then return_err NotUtf8 else return_ok resp))))"

definition cmd_pin_status :: "'d HidDevice \<Rightarrow> ('d, u8 \<times> u8 \<times> bool) host" where
  "cmd_pin_status D =
     and_then (host_open D) (\<lambda>_.
     and_then (sized 3 (command D CmdGetPinStatus [])) (\<lambda>data.
       return_ok (data ! 0, data ! 1, data ! 2 \<noteq> 0)))"

definition cmd_read_counter :: "'d HidDevice \<Rightarrow> u8 \<Rightarrow> ('d, u32) host" where
  "cmd_read_counter D cid =
     (if cid > 1 then return_err BadArgument
      else and_then (host_open D) (\<lambda>_.
           and_then (sized 4 (command D CmdReadCounter [cid])) (\<lambda>data.
             let bs = copy_at (replicate 4 0) 0 (take 4 data) in return_ok (u32_from_le_bytes bs))))"

definition cmd_lock_config_dangerous :: "'d HidDevice \<Rightarrow> bytes option \<Rightarrow> ('d, unit) host" where
  "cmd_lock_config_dangerous D line =
     and_then (host_open D) (\<lambda>_.
     and_then (read_full_config_zone D) (\<lambda>zone.
       let crc = crc16 zone in
     and_then (confirm_interactive line (ascii ''LOCK-CONFIG'')) (\<lambda>_.
       let data = copy_at (copy_at (replicate 6 0) 0 LOCK_CONFIG_MAGIC) 4 (u16_to_le_bytes crc) in
     and_then (command D CmdLockConfigZone data) (\<lambda>_. return_ok ()))))"

definition cmd_lock_data_dangerous :: "'d HidDevice \<Rightarrow> bytes option \<Rightarrow> ('d, unit) host" where
  "cmd_lock_data_dangerous D line =
     and_then (confirm_interactive line (ascii ''LOCK-DATA'')) (\<lambda>_.
       let data = copy_at (replicate 4 0) 0 LOCK_DATA_MAGIC in
     and_then (host_open D) (\<lambda>_.
     and_then (command D CmdLockDataZone data) (\<lambda>_. return_ok ())))"

definition cmd_lock_slot_dangerous :: "'d HidDevice \<Rightarrow> bytes option \<Rightarrow> u8 \<Rightarrow> ('d, unit) host" where
  "cmd_lock_slot_dangerous D line slot =
     and_then (confirm_interactive line (ascii ''LOCK-SLOT-'' @ decimal (unat slot))) (\<lambda>_.
       let data = (copy_at (replicate 5 0) 0 LOCK_SLOT_MAGIC)[4 := slot] in
     and_then (host_open D) (\<lambda>_.
     and_then (command D CmdLockSlot data) (\<lambda>_. return_ok ())))"

subsection \<open>Provisioning\<close>

record Secrets =
  chip_serial :: bytes
  io_key :: bytes
  initial_puk :: bytes
  primary_pubkey :: bytes

text \<open>
  \<open>secrets_exist\<close>: whether the file is already there. \<open>fs_write\<close>: whether writing the
  file succeeds.
\<close>

definition cmd_provision_token ::
  "'d HidDevice \<Rightarrow> bool \<Rightarrow> (Secrets \<Rightarrow> bool) \<Rightarrow> ('d, Secrets) host" where
  "cmd_provision_token D secrets_exist fs_write =
     and_then (ensure (\<not> secrets_exist) SecretsFileExists) (\<lambda>_.
     and_then (host_open D) (\<lambda>_.
     and_then (sized 14 (command D CmdInfo [])) (\<lambda>info.
     and_then (ensure (info ! 13 = 0) AlreadyProvisioned) (\<lambda>_.
     and_then (sized 32 (command D CmdProvisionIoKey [])) (\<lambda>io_key_bytes.
     and_then (command D CmdProvisionInitialPin []) (\<lambda>_.
     and_then (sized 8 (command D CmdProvisionInitialPuk [])) (\<lambda>puk_bytes.
     and_then (ensure (utf8_valid puk_bytes) NotUtf8) (\<lambda>_.
     and_then (sized 64 (command D CmdGenKey [0])) (\<lambda>pubkey.
       let secrets = \<lparr>chip_serial = slice info 4 13, io_key = io_key_bytes,
                      initial_puk = puk_bytes, primary_pubkey = pubkey\<rparr> in
       if \<not> fs_write secrets then return_err SecretsWriteFailed else return_ok secrets)))))))))"

end
