(* ===== verification/Host_Link.thy ===== *)
theory Host_Link
  imports Host_Client
begin

text \<open>
  The host and the token together. The locale \<open>hid_link\<close> states what the host relies on
  when its HID library talks to the dispatch loop of the token; inside it, each
  subcommand is shown to be a remote call of one method of the crypto service: same
  effect on the service, the value of the method printed, its error decoded from the
  status and the data of the response. \<open>cable\<close> is the direct connection of the two
  models.
\<close>

section \<open>What the host shows of a service error\<close>

fun host_view :: "'e CryptoServiceError \<Rightarrow> HostError" where
  "host_view (AteccFailure atecc_err) =
     (case kind atecc_err of
        KindChip c \<Rightarrow> ReportedChipError (from_status_byte (as_status_byte c)) (as_status_byte c)
      | k \<Rightarrow> ReportedCommunicationError (Some k) (as_sub_code k))"
| "host_view (PinIncorrect n) = ReportedWrongPin n"
| "host_view (PukIncorrect n) = ReportedWrongPuk n"
| "host_view (EmergencyResetNotPermitted m n) = ReportedResetNotPermitted m n"
| "host_view (InvalidFormat _) = ReportedStatus 0x02 (Some StatusInvalidPayload) []"
| "host_view PinBlocked = ReportedStatus (status_as_u8 StatusPinBlocked) (Some StatusPinBlocked) []"
| "host_view Bricked = ReportedStatus (status_as_u8 StatusBricked) (Some StatusBricked) []"
| "host_view PinRequired = ReportedStatus (status_as_u8 StatusPinRequired) (Some StatusPinRequired) []"
| "host_view NotProvisioned =
     ReportedStatus (status_as_u8 StatusNotProvisioned) (Some StatusNotProvisioned) []"
| "host_view (InvalidSlot slot) =
     ReportedStatus (status_as_u8 StatusInvalidSlot) (Some StatusInvalidSlot) [slot_as_u8 slot]"

definition host_lock_view :: "'e CryptoServiceError \<Rightarrow> HostError" where
  "host_lock_view e =
     (if e = AteccFailure (Chip ExecutionError)
      then ReportedStatus (status_as_u8 StatusLockCrcMismatch) (Some StatusLockCrcMismatch) []
      else host_view e)"

text \<open>\<open>declines h view\<close>: the handler answers a status that the host decodes to \<open>view\<close>.\<close>

definition declines :: "('h, 'c) handler \<Rightarrow> HostError \<Rightarrow> bool" where
  "declines h view \<longleftrightarrow>
     (\<exists>status data. h = write_status status data \<and> status \<noteq> StatusOk \<and> length data \<le> 125 \<and>
        status_error \<lparr>opcode = status_as_u8 status, payload = data\<rparr> = view)"

lemma status_error_plain:
  "data = [] \<or> status = StatusInvalidSlot \<Longrightarrow>
     status_error \<lparr>opcode = status_as_u8 status, payload = data\<rparr> =
       ReportedStatus (status_as_u8 status) (Some status) data"
  by (cases status) (auto simp: status_error_def Let_def status_from_byte_def)

lemma declines_write_status:
  "status \<noteq> StatusOk \<Longrightarrow> length data \<le> 125 \<Longrightarrow>
     status_error \<lparr>opcode = status_as_u8 status, payload = data\<rparr> = view \<Longrightarrow>
     declines (write_status status data) view"
  unfolding declines_def by blast

lemma declines_write_error: "declines (write_error e) (host_view e)"
proof (cases e)
  case (AteccFailure a)
  then show ?thesis
    by (cases a) (auto intro!: declines_write_status simp: status_error_def from_sub_code_def)
qed (auto intro!: declines_write_status simp: status_error_def status_from_byte_def)

lemma declines_write_lock_error: "declines (write_lock_error e) (host_lock_view e)"
  by (auto intro!: declines_write_status declines_write_error
      simp: write_lock_error_def host_lock_view_def status_error_def status_from_byte_def)

section \<open>The link\<close>

text \<open>The report the host sends for a command.\<close>

definition request :: "CommandOpcode \<Rightarrow> bytes \<Rightarrow> bytes" where
  "request op_code data = report (opcode_as_u8 op_code) data (replicate (125 - length data) 0)"

lemma request_sizes [simp]: "length data \<le> 125 \<Longrightarrow> length (request op_code data) = 128"
  by (simp add: request_def)

lemma parse_request:
  "length data \<le> 125 \<Longrightarrow>
     Frame_parse (request op_code data) = Inr \<lparr>opcode = opcode_as_u8 op_code, payload = data\<rparr>"
  by (simp add: request_def Frame_parse_report)

lemma begin_request_request:
  "length data \<le> 125 \<Longrightarrow> begin_request E (request op_code data) = dispatch E op_code data"
  by (simp add: begin_request_def parse_request command_opcode.decode_encode)

lemma decode_request_request:
  "length data \<le> 125 \<Longrightarrow> decode_request (request op_code data) = decode_payload op_code data"
  by (simp add: decode_request_def parse_request command_opcode.decode_encode)

lemma handle_request:
  "length data \<le> 125 \<Longrightarrow> dispatch E op_code data = responding h \<Longrightarrow>
     handle_one_request E touch (request op_code data) fw = h fw"
  by (simp add: handle_one_request_def begin_request_request responding_def split: prod.split)

text \<open>What the user sees of a command, and the service after it.\<close>

definition seen ::
  "('d \<Rightarrow> ('h, 'c) Firmware) \<Rightarrow> ('d, 'a) host \<Rightarrow> 'd \<Rightarrow> (HostError + 'a) \<times> ('h, 'c) CryptoService" where
  "seen fw_of m d = (fst (m d), service (fw_of (snd (m d))))"

text \<open>A remote call of a service method: its value and its error as the host shows them.\<close>

definition remote ::
  "('h, 'e, 'c, 'a) svc \<Rightarrow> ('e CryptoServiceError \<Rightarrow> HostError) \<Rightarrow> ('a \<Rightarrow> 'b) \<Rightarrow>
   ('h, 'c) CryptoService \<Rightarrow> (HostError + 'b) \<times> ('h, 'c) CryptoService" where
  "remote m view shown s = (case m s of (r, t) \<Rightarrow> (map_sum view shown r, t))"

lemma seen_return: "seen fw_of (and_then m (\<lambda>v. return_ok (f v))) d = apfst (map_sum id f) (seen fw_of m d)"
  by (auto simp: seen_def and_then_def return_ok_def split: prod.split sum.split)

lemma apfst_remote [simp]: "apfst (map_sum id f) (remote m view shown s) = remote m view (f \<circ> shown) s"
  by (auto simp: remote_def sum.map_comp split: prod.split)

lemma map_sum_Inr_conv:
  "map_sum f g r = Inr v \<longleftrightarrow> (\<exists>u. r = Inr u \<and> v = g u)"
  "Inr v = map_sum f g r \<longleftrightarrow> (\<exists>u. r = Inr u \<and> v = g u)"
  by (cases r; auto)+

lemma sized_same: "(\<And>v. fst (m d) = Inr v \<Longrightarrow> length v = n) \<Longrightarrow> sized n m d = m d"
  by (cases "m d"; cases "fst (m d)") (auto simp: sized_def and_then_def return_ok_def)

lemma sized_eq:
  assumes "seen fw_of m d = remote method view encode s" and "delivers method encode n s"
  shows "sized n m d = m d"
  using assms
  by (intro sized_same) (auto simp: seen_def remote_def delivers_def map_sum_Inr_conv split: prod.splits)

section \<open>Arguments and payloads\<close>

lemma and_then_return_ok: "and_then (return_ok v) f = f v"
  by (rule ext) (simp add: and_then_def return_ok_def)

lemma copy_whole: "length xs = n \<Longrightarrow> copy_at (replicate n z) 0 xs = xs"
  by (simp add: copy_at_def)

lemma copy_two:
  "length xs = a \<Longrightarrow> length ys = b \<Longrightarrow> n = a + b \<Longrightarrow> copy_at (copy_at (replicate n z) 0 xs) a ys = xs @ ys"
  by (simp add: copy_at_def)

lemma copy_three:
  "length xs = a \<Longrightarrow> length ys = b \<Longrightarrow> length zs = c \<Longrightarrow> n = a + b + c \<Longrightarrow> m = a + b \<Longrightarrow>
     copy_at (copy_at (copy_at (replicate n z) 0 xs) a ys) m zs = xs @ ys @ zs"
  by (simp add: copy_at_def)

lemma copy_tail: "length xs = n \<Longrightarrow> copy_at ((replicate (Suc n) z)[0 := x]) 1 xs = x # xs"
  by (simp add: copy_at_def)

lemma copy_last: "length xs = n \<Longrightarrow> (copy_at (replicate (Suc n) z) 0 xs)[n := x] = xs @ [x]"
  by (simp add: copy_at_def list_update_append del: replicate_Suc) simp

lemma checked:
  "length p = 4 \<Longrightarrow> check_pin p = return_ok p" "length q = 8 \<Longrightarrow> check_puk q = return_ok q"
  "hex_decode (strip_0x hx) = Some v \<Longrightarrow> length v = n \<Longrightarrow> parse_hex_array hex_decode n hx = return_ok v"
  by (simp_all add: check_pin_def check_puk_def parse_hex_array_def copy_whole)

lemma magic_lengths:
  "length EMERGENCY_RESET_MAGIC = 4" "length LOCK_CONFIG_MAGIC = 4" "length LOCK_DATA_MAGIC = 4"
  "length LOCK_SLOT_MAGIC = 4"
  by (simp_all add: magic_words)

lemma with_slot_valid: "i < 16 \<Longrightarrow> with_slot i k = k (Slot i)"
  by (simp add: with_slot_def Slot_new_def SLOT_COUNT_def)

lemmas accepted = with_payload_def with_magic_def with_slot_valid
  parse_pin_payloads [THEN iffD2] parse_head_payloads [THEN iffD2] parse_short_payloads [THEN iffD2]
  parse_magic_payloads [THEN iffD2]

lemma dispatch_keys:
  "length p = 4 \<Longrightarrow> length q = 4 \<Longrightarrow> length k = 32 \<Longrightarrow>
     dispatch E CmdSetPin (p @ q @ k) = responding (answer (set_pin E p q k) (\<lambda>_. []) write_error)"
  "length u = 8 \<Longrightarrow> length q = 4 \<Longrightarrow> length k = 32 \<Longrightarrow>
     dispatch E CmdUnblockPin (u @ q @ k) = responding (answer (unblock_pin E u q k) (\<lambda>_. []) write_error)"
  "length u = 8 \<Longrightarrow> length v = 8 \<Longrightarrow> length k = 32 \<Longrightarrow>
     dispatch E CmdSetPuk (u @ v @ k) = responding (answer (set_puk E u v k) (\<lambda>_. []) write_error)"
  "length k = 32 \<Longrightarrow>
     dispatch E CmdEmergencyReset (EMERGENCY_RESET_MAGIC @ k) = responding (answer (emergency_reset E k) id write_error)"
  by (simp_all add: handler_defs accepted)

lemma dispatch_slots:
  "i < 16 \<Longrightarrow> dispatch E CmdGetPubkey [i] = responding (answer (get_pubkey E (Slot i)) id write_error)"
  "i < 16 \<Longrightarrow> dispatch E CmdGenKey [i] = responding (answer (service_genkey_create E (Slot i)) id write_error)"
  "i < 16 \<Longrightarrow> dispatch E CmdReadConfigSlot [i] = responding (answer (read_config_slot E (Slot i)) id write_error)"
  "i < 16 \<Longrightarrow> dispatch E CmdReadSlotBlock [i, b] =
     responding (answer (service_read_slot_block E (Slot i) b) id write_error)"
  "i < 16 \<Longrightarrow> dispatch E CmdReadSlotWord [i, b, off] =
     responding (answer (service_read_slot_word E (Slot i) b off) id write_error)"
  "i < 16 \<Longrightarrow> length k = 32 \<Longrightarrow> dispatch E CmdProvisionSlot (i # k) =
     responding (answer (provision_slot E (Slot i) k) (\<lambda>_. []) write_error)"
  "i < 16 \<Longrightarrow> dispatch E CmdLockSlot (LOCK_SLOT_MAGIC @ [i]) =
     responding (answer (service_lock_slot E (Slot i)) (\<lambda>_. []) write_lock_error)"
  by (simp_all add: handler_defs accepted)

lemma dispatch_device:
  "dispatch E CmdInfo data = responding (answer (service_info E) info_payload write_error)"
  "dispatch E CmdGetPinStatus data = responding (answer (get_pin_status E) pin_status_payload write_error)"
  "dispatch E CmdReadConfigZone [b] = responding (answer (read_config_block E b) id write_error)"
  "length k = 32 \<Longrightarrow> dispatch E CmdWriteConfigZone (b # k) =
     responding (answer (write_config_block E b k) (\<lambda>_. []) write_error)"
  "dispatch E CmdLockDataZone LOCK_DATA_MAGIC =
     responding (answer (service_lock_data_zone E) (\<lambda>_. []) write_lock_error)"
  "dispatch E CmdLockConfigZone (LOCK_CONFIG_MAGIC @ u16_to_le_bytes crc) =
     responding (answer (service_lock_config_zone E crc) (\<lambda>_. []) write_lock_error)"
  "dispatch E CmdReadCounter [0] = responding (answer (read_counter E Counter0) u32_to_le_bytes write_error)"
  "dispatch E CmdReadCounter [1] = responding (answer (read_counter E Counter1) u32_to_le_bytes write_error)"
  by (simp_all add: handler_defs accepted)

lemma confirmed:
  "confirm_interactive line expected =
     (case line of
        None \<Rightarrow> return_err StdinFailed
      | Some buf \<Rightarrow> if trim buf = expected then return_ok () else return_err (NotConfirmed (trim buf)))"
  by (simp add: confirm_interactive_def Let_def split: option.split)

lemma utf8_digits: "list_all is_ascii_digit s \<Longrightarrow> utf8_valid s"
proof (induction s)
  case (Cons b s)
  then have "b < 0x80" by (auto simp: is_ascii_digit_def elim: order.strict_trans1)
  with Cons show ?case by simp
qed simp

locale hid_link =
  fixes D :: "'d HidDevice" and E :: "('h, 'e, 'c) Env"
    and touch :: "Channels \<Rightarrow> 'c \<Rightarrow> bool \<times> Channels \<times> 'c"
    and fw_of :: "'d \<Rightarrow> ('h, 'c) Firmware"
  assumes open_link: "\<exists>d'. hid_open D d = (True, d') \<and> fw_of d' = fw_of d"
    and exchange: "length rx = 128 \<Longrightarrow>
      dispatch_turn E touch (Some (128, rx)) (fw_of d) = (Some out, fw) \<Longrightarrow>
      \<exists>d1 d2. hid_write D (0 # rx) d = (True, d1) \<and> hid_read_timeout D 60000 d1 = (Some out, d2) \<and>
        fw_of d2 = fw"
begin

lemma command_exchange:
  assumes "length data \<le> 125" and "length reply \<le> 125" and "tx_buf fw = response status reply"
    and "handle_one_request E touch (request op_code data) (fw_of d) = (128, fw)"
  shows "\<exists>d'. command D op_code data d =
    (if status = StatusOk then Inr reply
     else Inl (status_error \<lparr>opcode = status_as_u8 status, payload = reply\<rparr>), d') \<and> fw_of d' = fw"
proof -
  let ?rx = "request op_code data"
  have "dispatch_turn E touch (Some (128, ?rx)) (fw_of d) = (Some (response status reply), fw)"
    using assms by (simp add: dispatch_turn_def REPORT_SIZE_def report_sizes)
  with exchange [of ?rx d] assms(1) obtain d1 d2 where
    x: "hid_write D (0 # ?rx) d = (True, d1)" "hid_read_timeout D 60000 d1 = (Some (response status reply), d2)"
      "fw_of d2 = fw" by auto
  have "copy_at ((replicate 129 0)[0 := 0]) 1 ?rx = 0 # ?rx"
    using assms(1) by (simp add: copy_at_def numeral_eq_Suc)
  with x assms(1,2) have "command D op_code data d =
      (if status = StatusOk then Inr reply
       else Inl (status_error \<lparr>opcode = status_as_u8 status, payload = reply\<rparr>), d2)"
    by (cases status)
      (simp_all add: command_def send_command_def Frame_to_report_eq request_def [symmetric] report_sizes
        and_then_def map_err_def of_result_def host_write_def host_read_def ensure_def return_ok_def
        return_err_def parse_response)
  with x(3) show ?thesis by blast
qed

lemma command_seen:
  assumes "length (tx_buf (fw_of d)) = 128" and "length data \<le> 125" and "length reply \<le> 125"
    and "handle_one_request E touch (request op_code data) (fw_of d) = write_status status reply fw"
    and "length (tx_buf fw) = 128"
  shows "seen fw_of (command D op_code data) d =
    (if status = StatusOk then Inr reply
     else Inl (status_error \<lparr>opcode = status_as_u8 status, payload = reply\<rparr>), service fw)"
  using command_exchange [of data reply "fw\<lparr>tx_buf := response status reply\<rparr>" status op_code d] assms
  by (auto simp: write_status_eq seen_def)

lemma command_declined:
  assumes "length (tx_buf (fw_of d)) = 128" and "length data \<le> 125"
    and "handle_one_request E touch (request op_code data) (fw_of d) = h fw" and "declines h view"
    and "length (tx_buf fw) = 128"
  shows "seen fw_of (command D op_code data) d = (Inl view, service fw)"
  using assms by (auto simp: declines_def command_seen)

lemma command_answer:
  assumes "length (tx_buf (fw_of d)) = 128" and "length data \<le> 125"
    and "dispatch E op_code data = responding (answer m encode on_err)"
    and "fits m encode (service (fw_of d))" and "\<And>e. declines (on_err e) (view e)"
  shows "seen fw_of (command D op_code data) d = remote m view encode (service (fw_of d))"
proof -
  obtain r t where m: "m (service (fw_of d)) = (r, t)" by fastforce
  let ?fw = "(fw_of d)\<lparr>service := t\<rparr>"
  have h: "handle_one_request E touch (request op_code data) (fw_of d) =
      (case r of Inr v \<Rightarrow> write_status StatusOk (encode v) ?fw | Inl e \<Rightarrow> on_err e ?fw)"
    using assms(2,3) m by (simp add: handle_request answer_def on_service_def split: sum.split)
  show ?thesis
  proof (cases r)
    case (Inl e)
    then show ?thesis using command_declined [OF assms(1,2), of op_code "on_err e" ?fw] h m assms(1,5)
      by (simp add: remote_def)
  next
    case (Inr v)
    with m assms(4) have "length (encode v) \<le> 125" by (simp add: fits_def)
    with Inr show ?thesis using command_seen [OF assms(1,2), of "encode v" op_code StatusOk ?fw] h m assms(1)
      by (simp add: remote_def)
  qed
qed

lemma seen_open:
  assumes "\<And>d'. fw_of d' = fw_of d \<Longrightarrow> seen fw_of m d' = x"
  shows "seen fw_of (and_then (host_open D) (\<lambda>_. m)) d = x"
proof -
  obtain d' where "hid_open D d = (True, d')" "fw_of d' = fw_of d" using open_link by blast
  with assms [of d'] show ?thesis by (simp add: seen_def and_then_def host_open_def)
qed

text \<open>The two shapes of a subcommand: acknowledge, or show an answer of a known size.\<close>

lemma acknowledged:
  assumes "length (tx_buf (fw_of d)) = 128" and "length data \<le> 125"
    and "dispatch E op_code data = responding (answer m (\<lambda>_. []) on_err)"
    and "\<And>e. declines (on_err e) (view e)"
  shows "seen fw_of (and_then (host_open D) (\<lambda>_. and_then (command D op_code data) (\<lambda>_. return_ok ()))) d =
    remote m view (\<lambda>_. ()) (service (fw_of d))"
proof (rule seen_open)
  fix d' assume "fw_of d' = fw_of d"
  then show "seen fw_of (and_then (command D op_code data) (\<lambda>_. return_ok ())) d' =
      remote m view (\<lambda>_. ()) (service (fw_of d))"
    using command_answer [of d' data op_code m "\<lambda>_. []" on_err view] assms
    by (simp add: seen_return fits_small comp_def)
qed

lemma shown:
  assumes "length (tx_buf (fw_of d)) = 128" and "length data \<le> 125"
    and "dispatch E op_code data = responding (answer m encode on_err)"
    and "\<And>e. declines (on_err e) (view e)" and "delivers m encode n (service (fw_of d))" and "n \<le> 125"
  shows "seen fw_of (sized n (command D op_code data)) d = remote m view encode (service (fw_of d))"
proof -
  have c: "seen fw_of (command D op_code data) d = remote m view encode (service (fw_of d))"
    by (rule command_answer [OF assms(1-3) fits_delivers [OF assms(5,6)] assms(4)])
  with sized_eq [OF c assms(5)] show ?thesis by (simp add: seen_def)
qed

lemma shown_after_open:
  assumes "length (tx_buf (fw_of d)) = 128" and "length data \<le> 125"
    and "dispatch E op_code data = responding (answer m encode on_err)"
    and "\<And>e. declines (on_err e) (view e)" and "delivers m encode n (service (fw_of d))" and "n \<le> 125"
  shows "seen fw_of (and_then (host_open D)
      (\<lambda>_. and_then (sized n (command D op_code data)) (\<lambda>v. return_ok (f v)))) d =
    remote m view (f \<circ> encode) (service (fw_of d))"
proof (rule seen_open)
  fix d' assume "fw_of d' = fw_of d"
  then show "seen fw_of (and_then (sized n (command D op_code data)) (\<lambda>v. return_ok (f v))) d' =
      remote m view (f \<circ> encode) (service (fw_of d))"
    using shown [of d' data op_code m encode on_err view n] assms by (simp add: seen_return)
qed

lemma pin_commands:
  assumes w: "length (tx_buf (fw_of d)) = 128"
    and k: "hex_decode (strip_0x hx) = Some k" "length k = 32"
  shows "length p = 4 \<Longrightarrow> length q = 4 \<Longrightarrow> seen fw_of (cmd_set_pin hex_decode D p q hx) d =
      remote (set_pin E p q k) host_view (\<lambda>_. ()) (service (fw_of d))"
    and "length u = 8 \<Longrightarrow> length q = 4 \<Longrightarrow> seen fw_of (cmd_unblock_pin hex_decode D u q hx) d =
      remote (unblock_pin E u q k) host_view (\<lambda>_. ()) (service (fw_of d))"
    and "length u = 8 \<Longrightarrow> length v = 8 \<Longrightarrow> seen fw_of (cmd_set_puk hex_decode D u v hx) d =
      remote (set_puk E u v k) host_view (\<lambda>_. ()) (service (fw_of d))"
    and "i < 16 \<Longrightarrow> seen fw_of (cmd_provision_slot hex_decode D i hx) d =
      remote (provision_slot E (Slot i) k) host_view (\<lambda>_. ()) (service (fw_of d))"
  using k
  by (simp_all add: cmd_set_pin_def cmd_unblock_pin_def cmd_set_puk_def cmd_provision_slot_def checked
      and_then_return_ok copy_three copy_tail [of k 32, simplified]
      acknowledged [OF w _ dispatch_keys(1) declines_write_error]
      acknowledged [OF w _ dispatch_keys(2) declines_write_error]
      acknowledged [OF w _ dispatch_keys(3) declines_write_error]
      acknowledged [OF w _ dispatch_slots(6) declines_write_error])

lemma slot_commands:
  assumes w: "length (tx_buf (fw_of d)) = 128" and i: "i < 16"
  shows "seen fw_of (cmd_get_pubkey D i) d =
      remote (get_pubkey E (Slot i)) host_view (\<lambda>key. (take 32 key, drop 32 key)) (service (fw_of d))"
    and "seen fw_of (cmd_genkey D i) d =
      remote (service_genkey_create E (Slot i)) host_view (\<lambda>key. (take 32 key, drop 32 key)) (service (fw_of d))"
    and "seen fw_of (cmd_read_config_slot D i) d =
      remote (read_config_slot E (Slot i)) host_view
        (\<lambda>c. (u16_from_le_bytes (c ! 0) (c ! 1), u16_from_le_bytes (c ! 2) (c ! 3))) (service (fw_of d))"
    and "seen fw_of (cmd_read_slot_block D i b) d =
      remote (service_read_slot_block E (Slot i) b) host_view id (service (fw_of d))"
    and "seen fw_of (cmd_read_slot_word D i b off) d =
      remote (service_read_slot_word E (Slot i) b off) host_view id (service (fw_of d))"
proof -
  show "seen fw_of (cmd_get_pubkey D i) d =
      remote (get_pubkey E (Slot i)) host_view (\<lambda>key. (take 32 key, drop 32 key)) (service (fw_of d))"
    by (simp add: cmd_get_pubkey_def delivers_reads comp_def
        shown_after_open [OF w _ dispatch_slots(1) [OF i] declines_write_error])
  show "seen fw_of (cmd_genkey D i) d =
      remote (service_genkey_create E (Slot i)) host_view (\<lambda>key. (take 32 key, drop 32 key)) (service (fw_of d))"
    by (simp add: cmd_genkey_def delivers_reads comp_def
        shown_after_open [OF w _ dispatch_slots(2) [OF i] declines_write_error])
  show "seen fw_of (cmd_read_config_slot D i) d =
      remote (read_config_slot E (Slot i)) host_view
        (\<lambda>c. (u16_from_le_bytes (c ! 0) (c ! 1), u16_from_le_bytes (c ! 2) (c ! 3))) (service (fw_of d))"
    by (simp add: cmd_read_config_slot_def delivers_reads comp_def
        shown_after_open [OF w _ dispatch_slots(3) [OF i] declines_write_error])
  show "seen fw_of (cmd_read_slot_block D i b) d =
      remote (service_read_slot_block E (Slot i) b) host_view id (service (fw_of d))"
    unfolding cmd_read_slot_block_def
    by (rule seen_open, rule trans [OF shown [OF _ _ dispatch_slots(4) [OF i] declines_write_error]])
      (simp_all add: w delivers_reads)
  show "seen fw_of (cmd_read_slot_word D i b off) d =
      remote (service_read_slot_word E (Slot i) b off) host_view id (service (fw_of d))"
    unfolding cmd_read_slot_word_def
    by (rule seen_open, rule trans [OF shown [OF _ _ dispatch_slots(5) [OF i] declines_write_error]])
      (simp_all add: w delivers_reads)
qed

lemma verify_pin_command:
  assumes w: "length (tx_buf (fw_of d)) = 128" and p: "length p = 4"
  shows "seen fw_of (cmd_verify_pin D p) d = remote (verify_pin E p) host_view (\<lambda>_. ()) (service (fw_of d))"
proof -
  obtain r t where m: "verify_pin E p (service (fw_of d)) = (r, t)" by fastforce
  have "seen fw_of (command D CmdVerifyPin p) d' = (map_sum host_view (\<lambda>_. []) r, t)"
    if d': "fw_of d' = fw_of d" for d'
  proof -
    have h: "handle_one_request E touch (request CmdVerifyPin p) (fw_of d') =
        (case r of Inr _ \<Rightarrow> write_status StatusOk [] (post PinVerified ((fw_of d)\<lparr>service := t\<rparr>))
         | Inl e \<Rightarrow> write_error e ((fw_of d)\<lparr>service := t\<rparr>))"
      using p m d'
      by (simp add: handle_request [OF _ dispatch.simps(6)] handle_verify_pin_def accepted on_service_def
          split: sum.split)
    show ?thesis
      using command_seen [of d' p "[]" CmdVerifyPin StatusOk "post PinVerified ((fw_of d)\<lparr>service := t\<rparr>)"]
        command_declined [OF _ _ _ declines_write_error, of d' p CmdVerifyPin "projl r" "(fw_of d)\<lparr>service := t\<rparr>"]
        h w p d'
      by (cases r) (simp_all add: post_def)
  qed
  then show ?thesis using p m
    by (simp add: cmd_verify_pin_def seen_open seen_return remote_def sum.map_comp comp_def)
qed

lemma close_session_command:
  assumes "length (tx_buf (fw_of d)) = 128"
  shows "seen fw_of (cmd_close_session D) d = (Inr (), close_session (service (fw_of d)))"
  unfolding cmd_close_session_def
proof (rule seen_open)
  fix d' assume d': "fw_of d' = fw_of d"
  have "handle_one_request E touch (request CmdCloseSession []) (fw_of d') =
      write_status StatusOk [] ((fw_of d)\<lparr>service := close_session (service (fw_of d))\<rparr>)"
    by (simp add: handle_request [OF _ dispatch.simps(11)] handle_close_session_def d')
  with assms d' command_seen [of d' "[]" "[]" CmdCloseSession StatusOk]
  show "seen fw_of (and_then (command D CmdCloseSession []) (\<lambda>_. return_ok ())) d' =
      (Inr (), close_session (service (fw_of d)))"
    by (simp add: seen_return)
qed

lemma device_commands:
  assumes w: "length (tx_buf (fw_of d)) = 128" and sn: "serial_wf (service (fw_of d))"
  shows "seen fw_of (cmd_info D) d =
      remote (service_info E) host_view
        (\<lambda>i. \<lparr>view_revision = revision i, view_serial = info_serial i, view_provisioned = info_is_provisioned i\<rparr>)
        (service (fw_of d))"
    and "seen fw_of (cmd_pin_status D) d =
      remote (get_pin_status E) host_view
        (\<lambda>st. (pin_tries_remaining st, puk_tries_remaining st, session_active st)) (service (fw_of d))"
    and "seen fw_of (cmd_read_counter D 0) d = remote (read_counter E Counter0) host_view id (service (fw_of d))"
    and "seen fw_of (cmd_read_counter D 1) d = remote (read_counter E Counter1) host_view id (service (fw_of d))"
proof -
  let ?view = "\<lambda>data. \<lparr>view_revision = slice data 0 4, view_serial = slice data 4 13, view_provisioned = (data ! 13 \<noteq> 0)\<rparr>"
  have "remote (service_info E) host_view (?view \<circ> info_payload) (service (fw_of d)) =
      remote (service_info E) host_view
        (\<lambda>i. \<lparr>view_revision = revision i, view_serial = info_serial i, view_provisioned = info_is_provisioned i\<rparr>)
        (service (fw_of d))"
    using service_info_sizes [OF sn, of E]
    by (cases "service_info E (service (fw_of d))"; cases "fst (service_info E (service (fw_of d)))")
      (auto simp: remote_def info_payload_def Let_def copy_at_def slice_def nth_append list_update_append numeral_eq_Suc)
  then show "seen fw_of (cmd_info D) d =
      remote (service_info E) host_view
        (\<lambda>i. \<lparr>view_revision = revision i, view_serial = info_serial i, view_provisioned = info_is_provisioned i\<rparr>)
        (service (fw_of d))"
    by (simp add: cmd_info_def shown_after_open [OF w _ dispatch_device(1) declines_write_error] delivers_info sn)
  show "seen fw_of (cmd_pin_status D) d =
      remote (get_pin_status E) host_view
        (\<lambda>st. (pin_tries_remaining st, puk_tries_remaining st, session_active st)) (service (fw_of d))"
    by (simp add: cmd_pin_status_def shown_after_open [OF w _ dispatch_device(2) declines_write_error]
        delivers_small comp_def pin_status_payload_def)
  show "seen fw_of (cmd_read_counter D 0) d = remote (read_counter E Counter0) host_view id (service (fw_of d))"
    "seen fw_of (cmd_read_counter D 1) d = remote (read_counter E Counter1) host_view id (service (fw_of d))"
    by (simp_all add: cmd_read_counter_def Let_def shown_after_open [OF w _ dispatch_device(7) declines_write_error]
        shown_after_open [OF w _ dispatch_device(8) declines_write_error] delivers_small comp_def copy_whole
        u32_from_to_le id_def)
qed

lemma lock_commands:
  assumes w: "length (tx_buf (fw_of d)) = 128"
  shows "trim line = ascii ''LOCK-DATA'' \<Longrightarrow> seen fw_of (cmd_lock_data_dangerous D (Some line)) d =
      remote (service_lock_data_zone E) host_lock_view (\<lambda>_. ()) (service (fw_of d))"
    and "i < 16 \<Longrightarrow> trim line = ascii ''LOCK-SLOT-'' @ decimal (unat i) \<Longrightarrow>
      seen fw_of (cmd_lock_slot_dangerous D (Some line) i) d =
      remote (service_lock_slot E (Slot i)) host_lock_view (\<lambda>_. ()) (service (fw_of d))"
  by (simp_all add: cmd_lock_data_dangerous_def cmd_lock_slot_dangerous_def confirmed and_then_return_ok
      magic_lengths copy_whole copy_last [of _ 4, simplified]
      acknowledged [OF w _ dispatch_device(5) declines_write_lock_error]
      acknowledged [OF w _ dispatch_slots(7) declines_write_lock_error] del: decimal.simps)

lemma emergency_reset_command:
  assumes w: "length (tx_buf (fw_of d)) = 128"
    and k: "hex_decode (strip_0x hx) = Some k" "length k = 32"
    and c: "trim line = ascii ''EMERGENCY-RESET''"
  shows "seen fw_of (cmd_emergency_reset_dangerous hex_decode D (Some line) hx) d =
    remote (emergency_reset E k) host_view id (service (fw_of d))"
proof -
  have "seen fw_of (and_then (sized 8 (command D CmdEmergencyReset (EMERGENCY_RESET_MAGIC @ k)))
      (\<lambda>resp. if \<not> utf8_valid resp then return_err NotUtf8 else return_ok resp)) d' =
      remote (emergency_reset E k) host_view id (service (fw_of d))" if d': "fw_of d' = fw_of d" for d'
  proof -
    let ?m = "sized 8 (command D CmdEmergencyReset (EMERGENCY_RESET_MAGIC @ k))"
    have "seen fw_of ?m d' = remote (emergency_reset E k) host_view id (service (fw_of d))"
      using shown [OF _ _ dispatch_keys(4) [OF k(2)] declines_write_error delivers_fresh(3), of d'] w k(2)
      by (simp add: d' magic_lengths)
    moreover have "utf8_valid puk" if "emergency_reset E k (service (fw_of d)) = (Inr puk, t)" for puk t
      using emergency_reset_Inr(2) [OF that] utf8_digits by blast
    ultimately show ?thesis
      by (cases "?m d'"; cases "emergency_reset E k (service (fw_of d))";
          cases "fst (emergency_reset E k (service (fw_of d)))")
        (auto simp: seen_def remote_def and_then_def return_ok_def)
  qed
  with k c show ?thesis
    by (simp add: cmd_emergency_reset_dangerous_def checked and_then_return_ok confirmed copy_two magic_lengths
        seen_open)
qed

lemma decode_sign_request:
  assumes "i < 16" and "length digest = 32"
  shows "decode_request (request CmdSign (i # digest)) = Inr (OpSign (Slot i) digest)"
  using assms by (simp add: decode_request_request parsed_def accepted valid_slot_def SLOT_COUNT_def)

lemma confirmed_sign_exchange:
  assumes w: "length (tx_buf (fw_of d)) = 128" and i: "i < 16" and dg: "length digest = 32"
    and a: "is_session_active E (service (fw_of d))"
    and t: "touch (channels (requesting_touch (fw_of d))) (clock (service (fw_of d))) = (True, ch, c)"
  shows "seen fw_of (command D CmdSign (i # digest)) d =
    remote (service_sign E (Slot i) digest) host_view id ((service (fw_of d))\<lparr>clock := c\<rparr>)"
proof -
  let ?rx = "request CmdSign (i # digest)" and ?fw = "at_wait_end (fw_of d) (ch, c)"
  have l: "length (i # digest) \<le> 125" using dg by simp
  have dec: "decode_request ?rx = Inr (OpSign (Slot i) digest)"
    using i dg by (rule decode_sign_request)
  have fw: "length (tx_buf ?fw) = 128" "service ?fw = (service (fw_of d))\<lparr>clock := c\<rparr>"
    using w by (simp_all add: at_wait_end_def)
  obtain r u where m: "service_sign E (Slot i) digest ((service (fw_of d))\<lparr>clock := c\<rparr>) = (r, u)" by fastforce
  let ?g = "post SignComplete (?fw\<lparr>service := u\<rparr>)"
  have g: "handle_one_request E touch ?rx (fw_of d) =
      (case r of Inr sig \<Rightarrow> write_status StatusOk sig ?g | Inl e \<Rightarrow> write_error e (post ErrorRaised ?g))"
    using handle_one_request_sign [where touch = touch, OF w dec a t] m fw(2)
    by (simp add: handle_sign_confirmed_def on_service_def Let_def)
  show ?thesis
  proof (cases r)
    case (Inl e)
    with g command_declined [OF w l _ declines_write_error, of CmdSign e "post ErrorRaised ?g"] fw m
    show ?thesis by (simp add: remote_def post_def)
  next
    case (Inr sig)
    with m have "length sig = 64" by (simp add: service_sign_length)
    with Inr g command_seen [OF w l, of sig CmdSign StatusOk ?g] fw m
    show ?thesis by (simp add: remote_def post_def)
  qed
qed

lemma sign_exchange:
  assumes w: "length (tx_buf (fw_of d)) = 128" and i: "i < 16" and dg: "length digest = 32"
    and t: "touch (channels (requesting_touch (fw_of d))) (clock (service (fw_of d))) = (confirmed, ch, c)"
  shows "seen fw_of (command D CmdSign (i # digest)) d =
    (if \<not> is_session_active E (service (fw_of d)) then (Inl (host_view PinRequired), service (fw_of d))
     else if confirmed then
       remote (service_sign E (Slot i) digest) host_view id ((service (fw_of d))\<lparr>clock := c\<rparr>)
     else (Inl (ReportedStatus 0x06 (Some StatusTouchTimeout) []), (service (fw_of d))\<lparr>clock := c\<rparr>))"
proof -
  let ?rx = "request CmdSign (i # digest)" and ?fw = "at_wait_end (fw_of d) (ch, c)"
  let ?s = "(service (fw_of d))\<lparr>clock := c\<rparr>"
  have l: "length (i # digest) \<le> 125" using dg by simp
  have dec: "decode_request ?rx = Inr (OpSign (Slot i) digest)"
    using i dg by (rule decode_sign_request)
  have fw: "length (tx_buf ?fw) = 128" "service ?fw = ?s" using w by (simp_all add: at_wait_end_def)
  show ?thesis
  proof (cases "is_session_active E (service (fw_of d))")
    case False
    have "handle_one_request E touch ?rx (fw_of d) = write_error PinRequired (fw_of d)"
      using handle_one_request_sign_refused [OF w dec False] w by (simp add: write_status_eq)
    then have "seen fw_of (command D CmdSign (i # digest)) d = (Inl (host_view PinRequired), service (fw_of d))"
      by (rule command_declined [OF w l _ declines_write_error w])
    with False show ?thesis by simp
  next
    case True
    note h = handle_one_request_sign [where touch = touch, OF w dec True t]
    show ?thesis
    proof (cases confirmed)
      case False
      with h have "handle_one_request E touch ?rx (fw_of d) =
          write_status StatusTouchTimeout [] (post TouchTimeout ?fw)"
        by (simp add: handle_sign_timed_out_def)
      from command_seen [OF w l _ this] fw True False show ?thesis
        by (simp add: post_def status_error_def status_from_byte_def)
    next
      case True
      with confirmed_sign_exchange [OF w i dg] t \<open>is_session_active E _\<close> show ?thesis by simp
    qed
  qed
qed

lemma sign_command:
  assumes w: "length (tx_buf (fw_of d)) = 128" and i: "i < 16"
    and dg: "hex_decode (strip_0x hx) = Some digest" "length digest = 32"
    and t: "touch (channels (requesting_touch (fw_of d))) (clock (service (fw_of d))) = (confirmed, ch, c)"
  shows "seen fw_of (cmd_sign hex_decode D i hx) d =
    (if \<not> is_session_active E (service (fw_of d)) then (Inl (host_view PinRequired), service (fw_of d))
     else if confirmed then
       remote (service_sign E (Slot i) digest) host_view (\<lambda>sig. (take 32 sig, drop 32 sig))
         ((service (fw_of d))\<lparr>clock := c\<rparr>)
     else (Inl (ReportedStatus 0x06 (Some StatusTouchTimeout) []), (service (fw_of d))\<lparr>clock := c\<rparr>))"
proof -
  let ?m = "command D CmdSign (i # digest)"
  have sz: "seen fw_of (sized 64 ?m) d' = seen fw_of ?m d'" if d': "fw_of d' = fw_of d" for d'
  proof -
    have "length v = 64" if "fst (seen fw_of ?m d') = Inr v" for v
      using that sign_exchange [OF w [folded d'] i dg(2) t [folded d']]
        service_sign_length [of E "Slot i" digest "(service (fw_of d))\<lparr>clock := c\<rparr>"]
      by (cases "service_sign E (Slot i) digest ((service (fw_of d))\<lparr>clock := c\<rparr>)")
        (auto simp: remote_def d' map_sum_Inr_conv split: if_splits)
    then show ?thesis by (simp add: sized_same seen_def)
  qed
  have "seen fw_of (and_then (host_open D) (\<lambda>_. and_then (sized 64 ?m)
      (\<lambda>resp. return_ok (take 32 resp, drop 32 resp)))) d =
      apfst (map_sum id (\<lambda>resp. (take 32 resp, drop 32 resp))) (seen fw_of ?m d)"
  proof (rule seen_open)
    fix d' assume d': "fw_of d' = fw_of d"
    have "seen fw_of ?m d' = seen fw_of ?m d"
      by (rule trans [OF sign_exchange [OF w [folded d'] i dg(2) t [folded d'], unfolded d']
            sign_exchange [OF w i dg(2) t, symmetric]])
    then show "seen fw_of (and_then (sized 64 ?m) (\<lambda>resp. return_ok (take 32 resp, drop 32 resp))) d' =
        apfst (map_sum id (\<lambda>resp. (take 32 resp, drop 32 resp))) (seen fw_of ?m d)"
      by (simp add: seen_return sz [OF d'])
  qed
  then show ?thesis
    using sign_exchange [OF w i dg(2) t] dg
    by (cases "is_session_active E (service (fw_of d))"; cases confirmed)
      (simp_all add: cmd_sign_def checked and_then_return_ok copy_tail [of digest 32, simplified] comp_def)
qed

end

section \<open>The direct connection\<close>

text \<open>
  What the host writes, less the report number, is the report the dispatch loop reads; its
  answer is what the host reads next.
\<close>

definition cable ::
  "('h, 'e, 'c) Env \<Rightarrow> (Channels \<Rightarrow> 'c \<Rightarrow> bool \<times> Channels \<times> 'c) \<Rightarrow>
   (('h, 'c) Firmware \<times> bytes option) HidDevice" where
  "cable E touch =
     \<lparr>hid_open = (\<lambda>d. (True, d)),
      hid_write = (\<lambda>wire (fw, pending).
        case dispatch_turn E touch (Some (length (tl wire), tl wire)) fw of (out, fw) \<Rightarrow> (True, fw, out)),
      hid_read_timeout = (\<lambda>timeout (fw, pending).
        (Some (case pending of Some out \<Rightarrow> out | None \<Rightarrow> []), fw, None))\<rparr>"

interpretation cable: hid_link "cable E touch" E touch fst for E touch
  by unfold_locales (auto simp: cable_def split: prod.split)

definition over_cable ::
  "('h, 'e, 'c) Env \<Rightarrow> (Channels \<Rightarrow> 'c \<Rightarrow> bool \<times> Channels \<times> 'c) \<Rightarrow> ('h, 'c) Firmware \<Rightarrow>
   ((('h, 'c) Firmware \<times> bytes option) HidDevice \<Rightarrow> (('h, 'c) Firmware \<times> bytes option, 'a) host) \<Rightarrow>
   (HostError + 'a) \<times> ('h, 'c) CryptoService" where
  "over_cable E touch fw cmd = seen fst (cmd (cable E touch)) (fw, None)"

section \<open>Properties\<close>

text \<open>
  C37. The subcommands that send one report are remote calls of one method of the crypto service:
  verify-pin, set-pin, unblock-pin, set-puk, close-session, emergency-reset, lock-data,
  lock-slot, provision-slot, get-pubkey, genkey, read-slot-block, read-slot-word,
  read-config-slot, read-counter, pin-status and info. (Signing and the commands that send several
  reports have properties of their own.) Over a connection that delivers each report and each answer, with well-formed arguments,
  the command leaves the service exactly as the method does. If the method succeeds, the
  host shows its value; if it fails, the host shows the very error: the attempts left
  after a wrong PIN or PUK, the attempts that forbid a reset, the chip status or the
  driver error. The exceptions are \<open>InvalidFormat\<close>, of which only the status is shown, and
  an execution error of a lock command, which is shown as a CRC mismatch.
\<close>

theorem subcommands_call_the_service:
  fixes E :: "('h, 'e, 'c) Env" and fw :: "('h, 'c) Firmware"
  assumes w: "length (tx_buf fw) = 128" and sn: "serial_wf (service fw)" and i: "i < 16"
    and k: "hex_decode (strip_0x hx) = Some k" "length k = 32"
    and pins: "length p = 4" "length q = 4" "length u = 8" "length v = 8"
    and lines: "trim l1 = ascii ''LOCK-DATA''" "trim l2 = ascii ''LOCK-SLOT-'' @ decimal (unat i)"
      "trim l3 = ascii ''EMERGENCY-RESET''"
  shows "over_cable E touch fw (\<lambda>D. cmd_verify_pin D p) =
      remote (verify_pin E p) host_view (\<lambda>_. ()) (service fw) \<and>
    over_cable E touch fw (\<lambda>D. cmd_set_pin hex_decode D p q hx) =
      remote (set_pin E p q k) host_view (\<lambda>_. ()) (service fw) \<and>
    over_cable E touch fw (\<lambda>D. cmd_unblock_pin hex_decode D u q hx) =
      remote (unblock_pin E u q k) host_view (\<lambda>_. ()) (service fw) \<and>
    over_cable E touch fw (\<lambda>D. cmd_set_puk hex_decode D u v hx) =
      remote (set_puk E u v k) host_view (\<lambda>_. ()) (service fw) \<and>
    over_cable E touch fw (\<lambda>D. cmd_close_session D) =
      (Inr (), close_session (service fw)) \<and>
    over_cable E touch fw (\<lambda>D. cmd_emergency_reset_dangerous hex_decode D (Some l3) hx) =
      remote (emergency_reset E k) host_view id (service fw) \<and>
    over_cable E touch fw (\<lambda>D. cmd_lock_data_dangerous D (Some l1)) =
      remote (service_lock_data_zone E) host_lock_view (\<lambda>_. ()) (service fw) \<and>
    over_cable E touch fw (\<lambda>D. cmd_lock_slot_dangerous D (Some l2) i) =
      remote (service_lock_slot E (Slot i)) host_lock_view (\<lambda>_. ()) (service fw) \<and>
    over_cable E touch fw (\<lambda>D. cmd_provision_slot hex_decode D i hx) =
      remote (provision_slot E (Slot i) k) host_view (\<lambda>_. ()) (service fw) \<and>
    over_cable E touch fw (\<lambda>D. cmd_get_pubkey D i) =
      remote (get_pubkey E (Slot i)) host_view (\<lambda>key. (take 32 key, drop 32 key)) (service fw) \<and>
    over_cable E touch fw (\<lambda>D. cmd_genkey D i) =
      remote (service_genkey_create E (Slot i)) host_view (\<lambda>key. (take 32 key, drop 32 key)) (service fw) \<and>
    over_cable E touch fw (\<lambda>D. cmd_read_slot_block D i b) =
      remote (service_read_slot_block E (Slot i) b) host_view id (service fw) \<and>
    over_cable E touch fw (\<lambda>D. cmd_read_slot_word D i b off) =
      remote (service_read_slot_word E (Slot i) b off) host_view id (service fw) \<and>
    over_cable E touch fw (\<lambda>D. cmd_read_config_slot D i) =
      remote (read_config_slot E (Slot i)) host_view
      (\<lambda>c. (u16_from_le_bytes (c ! 0) (c ! 1), u16_from_le_bytes (c ! 2) (c ! 3))) (service fw) \<and>
    over_cable E touch fw (\<lambda>D. cmd_read_counter D 0) =
      remote (read_counter E Counter0) host_view id (service fw) \<and>
    over_cable E touch fw (\<lambda>D. cmd_read_counter D 1) =
      remote (read_counter E Counter1) host_view id (service fw) \<and>
    over_cable E touch fw (\<lambda>D. cmd_pin_status D) =
      remote (get_pin_status E) host_view
      (\<lambda>st. (pin_tries_remaining st, puk_tries_remaining st, session_active st)) (service fw) \<and>
    over_cable E touch fw (\<lambda>D. cmd_info D) =
      remote (service_info E) host_view
      (\<lambda>n. \<lparr>view_revision = revision n, view_serial = info_serial n, view_provisioned = info_is_provisioned n\<rparr>)
      (service fw)"
proof -
  let ?d = "(fw, None)"
  have w': "length (tx_buf (fst ?d)) = 128" and sn': "serial_wf (service (fst ?d))" using w sn by simp_all
  note calls = cable.verify_pin_command [OF w' pins(1)] cable.pin_commands [where hex_decode = hex_decode, OF w' k] cable.close_session_command [OF w']
    cable.emergency_reset_command [where hex_decode = hex_decode, OF w' k lines(3)] cable.lock_commands(1) [OF w' lines(1)]
    cable.lock_commands(2) [OF w' i lines(2)] cable.slot_commands [OF w' i] cable.device_commands [OF w' sn']
  show ?thesis unfolding over_cable_def using pins i by (simp only: calls fst_conv simp_thms)
qed

text \<open>A hexadecimal decoder for the examples.\<close>

definition hex_nibble :: "u8 \<Rightarrow> u8 option" where
  "hex_nibble c =
     (if 0x30 \<le> c \<and> c \<le> 0x39 then Some (c - 0x30)
      else if 0x41 \<le> c \<and> c \<le> 0x46 then Some (c - 0x37)
      else if 0x61 \<le> c \<and> c \<le> 0x66 then Some (c - 0x57) else None)"

fun demo_hex_decode :: "bytes \<Rightarrow> bytes option" where
  "demo_hex_decode [] = Some []"
| "demo_hex_decode [c] = None"
| "demo_hex_decode (a # b # cs) =
     (case (hex_nibble a, hex_nibble b, demo_hex_decode cs) of
        (Some x, Some y, Some bs) \<Rightarrow> Some ((16 * x + y) # bs) | _ \<Rightarrow> None)"

definition demo_hex :: bytes where
  "demo_hex = ascii ''0x'' @ concat (replicate 32 (ascii ''a7''))"

lemma demo_hex_key: "demo_hex_decode (strip_0x demo_hex) = Some (replicate 32 0xA7)"
  by code_simp

lemma demo_lines:
  "trim (ascii ''LOCK-DATA '') = ascii ''LOCK-DATA''"
  "trim (ascii '' LOCK-SLOT-2'') = ascii ''LOCK-SLOT-'' @ decimal (unat (2 :: u8))"
  "trim (ascii ''EMERGENCY-RESET'') = ascii ''EMERGENCY-RESET''"
  by code_simp+

theorem subcommands_call_the_service_witness:
  "over_cable demo_env (\<lambda>ch c. (False, ch, c)) demo_firmware
     (\<lambda>D. cmd_set_puk demo_hex_decode D (ascii ''00000000'') (ascii ''12345678'') demo_hex) =
   (Inl (ReportedStatus 0x0C (Some StatusPinRequired) []), service demo_firmware)"
proof -
  let ?u = "ascii ''00000000''" and ?v = "ascii ''12345678''" and ?p = "ascii ''1234''"
  have "length ?p = 4" "length ?u = 8" "length ?v = 8" "(2 :: u8) < 16" by code_simp+
  then have "over_cable demo_env (\<lambda>ch c. (False, ch, c)) demo_firmware
      (\<lambda>D. cmd_set_puk demo_hex_decode D ?u ?v demo_hex) =
      remote (set_puk demo_env ?u ?v (replicate 32 0xA7)) host_view (\<lambda>_. ()) (service demo_firmware)"
    using subcommands_call_the_service [where hex_decode = demo_hex_decode and E = demo_env
        and touch = "\<lambda>ch c. (False, ch, c)" and p = ?p and q = ?p and u = ?u and v = ?v and i = 2, 
        OF demo_firmware_wf _ demo_hex_key _ _ _ _ _ demo_lines]
    by simp
  also have "\<dots> = (Inl (ReportedStatus 0x0C (Some StatusPinRequired) []), service demo_firmware)"
    by code_simp
  finally show ?thesis .
qed

text \<open>
  C38. A signature over USB, from the command line to the chip and back. Without an active
  PIN session the user is told so and nothing happens. With one, if the touch does not
  come in time, the user sees the time-out and no signature is attempted. If it comes, the
  digest given in hexadecimal is signed with the slot given, and the user sees the two
  halves of exactly the signature that the service obtained, or its error.
\<close>

theorem sign_over_usb:
  assumes w: "length (tx_buf fw) = 128" and i: "i < 16"
    and dg: "hex_decode (strip_0x hx) = Some digest" "length digest = 32"
    and t: "touch (post_event SignRequested ((channels fw)\<lparr>TOUCH_CONFIRMED := False\<rparr>)) (clock (service fw)) =
      (confirmed, ch, c)"
  shows "over_cable E touch fw (\<lambda>D. cmd_sign hex_decode D i hx) =
    (if \<not> is_session_active E (service fw)
     then (Inl (ReportedStatus 0x0C (Some StatusPinRequired) []), service fw)
     else if \<not> confirmed
     then (Inl (ReportedStatus 0x06 (Some StatusTouchTimeout) []), (service fw)\<lparr>clock := c\<rparr>)
     else (case service_sign E (Slot i) digest ((service fw)\<lparr>clock := c\<rparr>) of
             (Inr sig, s) \<Rightarrow> (Inr (take 32 sig, drop 32 sig), s)
           | (Inl e, s) \<Rightarrow> (Inl (host_view e), s)))"
proof -
  have t': "touch (channels (requesting_touch fw)) (clock (service fw)) = (confirmed, ch, c)"
    using t by (simp add: requesting_touch_def)
  show ?thesis
    using cable.sign_command [where hex_decode = hex_decode and touch = touch and E = E and d = "(fw, None)",
        unfolded fst_conv, OF w i dg t']
    by (cases "service_sign E (Slot i) digest ((service fw)\<lparr>clock := c\<rparr>)"; cases confirmed;
        cases "is_session_active E (service fw)")
      (simp_all add: over_cable_def remote_def split: sum.split)
qed

text \<open>A token with an open session whose chip answers Nonce and Sign.\<close>

definition demo_signing :: "(scripted, u64) Firmware" where
  "demo_signing =
     demo_firmware\<lparr>service := (CryptoService_new (Atecc_new (scripted_chip
       [Some WAKE_RESPONSE_OK, Some [4], Some (tl (response_frame [0])),
        Some [67], Some (tl (response_frame (replicate 32 0x11 @ replicate 32 0x22)))])) 0)
       \<lparr>session := \<lparr>last_activity_ms = Some 0\<rparr>\<rparr>\<rparr>"

theorem sign_over_usb_witness:
  "fst (over_cable demo_env (\<lambda>ch c. (True, ch, c + 1000)) demo_signing
     (\<lambda>D. cmd_sign demo_hex_decode D 2 demo_hex)) = Inr (replicate 32 0x11, replicate 32 0x22)"
proof -
  let ?t = "\<lambda>ch c. (True, ch, c + 1000)"
  have w: "length (tx_buf demo_signing) = 128" by code_simp
  have a: "is_session_active demo_env (service demo_signing)" by code_simp
  have sig: "fst (service_sign demo_env (Slot 2) (replicate 32 0xA7) ((service demo_signing)\<lparr>clock := 1000\<rparr>)) =
      Inr (replicate 32 0x11 @ replicate 32 0x22)" by code_simp
  have t: "?t (post_event SignRequested ((channels demo_signing)\<lparr>TOUCH_CONFIRMED := False\<rparr>))
      (clock (service demo_signing)) = (True, post_event SignRequested ((channels demo_signing)\<lparr>TOUCH_CONFIRMED := False\<rparr>), 1000)"
    by (simp add: demo_signing_def CryptoService_new_def)
  show ?thesis
    using sign_over_usb [where touch = ?t and hex_decode = demo_hex_decode and E = demo_env, OF w _ demo_hex_key _ t, of 2] a sig
    by (cases "service_sign demo_env (Slot 2) (replicate 32 0xA7) ((service demo_signing)\<lparr>clock := 1000\<rparr>)") simp
qed

end
