(* ===== verification/Host_Workflow.thy ===== *)
theory Host_Workflow
  imports Host_Link
begin

text \<open>
  Host commands that send several reports: reading, writing and locking the configuration
  zone, and provisioning a token. Each is shown to run a sequence of service methods, stated
  as an action on the service alone.
\<close>

section \<open>Refinement of actions on the service\<close>

definition token_wf :: "('h, 'c) Firmware \<Rightarrow> bool" where
  "token_wf fw \<longleftrightarrow> length (tx_buf fw) = 128 \<and> serial_wf (service fw)"

definition refines ::
  "('d \<Rightarrow> ('h, 'c) Firmware) \<Rightarrow> ('d, 'a) host \<Rightarrow> (('h, 'c) CryptoService, HostError, 'a) act \<Rightarrow> bool" where
  "refines fw_of m a \<longleftrightarrow>
     (\<forall>d. token_wf (fw_of d) \<longrightarrow> seen fw_of m d = a (service (fw_of d)) \<and> token_wf (fw_of (snd (m d))))"

lemma refinesD:
  assumes "refines fw_of m a" and "token_wf (fw_of d)"
  shows "seen fw_of m d = a (service (fw_of d))" and "token_wf (fw_of (snd (m d)))"
  using assms by (auto simp: refines_def)

lemma refines_pure [intro]: "refines fw_of (return_ok v) (return_ok v)" "refines fw_of (return_err e) (return_err e)"
  by (simp_all add: refines_def seen_def return_ok_def return_err_def)

lemma refines_and_then [intro]:
  assumes m: "refines fw_of m a" and f: "\<And>v. refines fw_of (f v) (g v)"
  shows "refines fw_of (and_then m f) (and_then a g)"
  unfolding refines_def
proof (intro allI impI)
  fix d assume w: "token_wf (fw_of d)"
  obtain r d' where d': "m d = (r, d')" by fastforce
  with refinesD [OF m w] have a: "a (service (fw_of d)) = (r, service (fw_of d'))" "token_wf (fw_of d')"
    by (simp_all add: seen_def)
  with refinesD [OF f a(2)] d'
  show "seen fw_of (and_then m f) d = and_then a g (service (fw_of d)) \<and> token_wf (fw_of (snd (and_then m f d)))"
    by (cases r) (simp_all add: seen_def and_then_def)
qed

text \<open>
  The next step may rely on what the method guarantees of its value (\<open>Q\<close>).
\<close>

lemma refines_remote:
  assumes m: "refines fw_of m (remote meth view encode)"
    and Q: "\<And>s v t. serial_wf s \<Longrightarrow> meth s = (Inr v, t) \<Longrightarrow> Q v"
    and f: "\<And>v. Q v \<Longrightarrow> refines fw_of (f (encode v)) (g v)"
  shows "refines fw_of (and_then m f) (and_then (remote meth view id) g)"
  unfolding refines_def
proof (intro allI impI)
  fix d assume w: "token_wf (fw_of d)"
  obtain x t where x: "meth (service (fw_of d)) = (x, t)" by fastforce
  obtain d' where d': "m d = (map_sum view encode x, d')" and a: "t = service (fw_of d')" "token_wf (fw_of d')"
    using refinesD [OF m w] x by (cases "m d") (auto simp: seen_def remote_def)
  show "seen fw_of (and_then m f) d = and_then (remote meth view id) g (service (fw_of d)) \<and>
      token_wf (fw_of (snd (and_then m f d)))"
  proof (cases x)
    case (Inl e)
    with x d' a show ?thesis by (simp add: seen_def and_then_def remote_def)
  next
    case (Inr v)
    have "Q v" using Q [of "service (fw_of d)" v t] x Inr w by (simp add: token_wf_def)
    from refinesD [OF f [OF this] a(2)] x d' a Inr show ?thesis by (simp add: seen_def and_then_def remote_def)
  qed
qed

lemma refines_sized:
  assumes m: "refines fw_of m (remote meth view encode)"
    and n: "\<And>s. serial_wf s \<Longrightarrow> delivers meth encode n s"
  shows "refines fw_of (sized n m) (remote meth view encode)"
  unfolding refines_def
proof (intro allI impI)
  fix d assume w: "token_wf (fw_of d)"
  have "sized n m d = m d"
    using w by (intro sized_eq [OF refinesD(1) [OF m w] n]) (simp add: token_wf_def)
  with refinesD [OF m w]
  show "seen fw_of (sized n m) d = remote meth view encode (service (fw_of d)) \<and>
      token_wf (fw_of (snd (sized n m d)))"
    by (simp add: seen_def)
qed

lemma refines_all: "refines fw_of m a \<Longrightarrow> token_wf (fw_of d) \<Longrightarrow> seen fw_of m d = a (service (fw_of d))"
  by (rule refinesD)

lemma and_then_return_err: "and_then (return_err e) f = return_err e"
  by (rule ext) (simp add: and_then_def return_err_def)

lemma and_then_return_right: "and_then m return_ok = m"
  by (rule ext) (auto simp: and_then_def return_ok_def split: prod.split sum.split)

section \<open>The sequences of service methods\<close>

definition call :: "('h, 'e, 'c, 'a) svc \<Rightarrow> (('h, 'c) CryptoService, HostError, 'a) act" where
  "call m = remote m host_view id"

definition zone_spec :: "('h, 'e, 'c) Env \<Rightarrow> (('h, 'c) CryptoService, HostError, bytes) act" where
  "zone_spec E =
     and_then (call (read_config_block E 0)) (\<lambda>b0.
     and_then (call (read_config_block E 1)) (\<lambda>b1.
     and_then (call (read_config_block E 2)) (\<lambda>b2.
     and_then (call (read_config_block E 3)) (\<lambda>b3. return_ok (b0 @ b1 @ b2 @ b3)))))"

definition write_config_spec ::
  "('h, 'e, 'c) Env \<Rightarrow> bytes \<Rightarrow> (('h, 'c) CryptoService, HostError, unit) act" where
  "write_config_spec E blob =
     and_then (call (write_config_block E 0 (slice blob 0 32))) (\<lambda>_.
     and_then (call (write_config_block E 1 (slice blob 32 64))) (\<lambda>_.
     and_then (call (write_config_block E 2 (slice blob 64 96))) (\<lambda>_.
     call (write_config_block E 3 (slice blob 96 128)))))"

definition confirm_spec :: "bytes option \<Rightarrow> bytes \<Rightarrow> ('s, HostError, 'a) act \<Rightarrow> ('s, HostError, 'a) act" where
  "confirm_spec line expected m =
     (case line of
        None \<Rightarrow> return_err StdinFailed
      | Some buf \<Rightarrow> if trim buf = expected then m else return_err (NotConfirmed (trim buf)))"

definition lock_config_spec ::
  "('h, 'e, 'c) Env \<Rightarrow> bytes option \<Rightarrow> (('h, 'c) CryptoService, HostError, unit) act" where
  "lock_config_spec E line =
     and_then (zone_spec E) (\<lambda>zone.
       confirm_spec line (ascii ''LOCK-CONFIG'')
         (remote (service_lock_config_zone E (crc16 zone)) host_lock_view id))"

definition provision_spec ::
  "('h, 'e, 'c) Env \<Rightarrow> bool \<Rightarrow> (Secrets \<Rightarrow> bool) \<Rightarrow> (('h, 'c) CryptoService, HostError, Secrets) act" where
  "provision_spec E secrets_exist fs_write =
     (if secrets_exist then return_err SecretsFileExists
      else and_then (call (service_info E)) (\<lambda>info.
        if info_is_provisioned info then return_err AlreadyProvisioned
        else and_then (call (provision_initial_io_key E)) (\<lambda>key.
             and_then (call (provision_initial_pin E)) (\<lambda>_.
             and_then (call (provision_initial_puk E)) (\<lambda>puk.
             and_then (call (service_genkey_create E (Slot 0))) (\<lambda>pubkey.
               let secrets = \<lparr>chip_serial = info_serial info, io_key = key, initial_puk = puk,
                              primary_pubkey = pubkey\<rparr>
               in if fs_write secrets then return_ok secrets else return_err SecretsWriteFailed))))))"

section \<open>The commands refine them\<close>

lemma info_payload_fields:
  assumes "length (revision i) = 4 \<and> length (info_serial i) = 9"
  shows "slice (info_payload i) 0 4 = revision i" and "slice (info_payload i) 4 13 = info_serial i"
    and "info_payload i ! 13 = of_bool (info_is_provisioned i)"
  using assms
  by (simp_all add: info_payload_def Let_def copy_at_def slice_def nth_append list_update_append numeral_eq_Suc)

context hid_link
begin

lemma refines_open: "refines fw_of (host_open D) (return_ok ())"
  unfolding refines_def
proof (intro allI impI)
  fix d assume w: "token_wf (fw_of d)"
  obtain d' where "hid_open D d = (True, d')" "fw_of d' = fw_of d" using open_link by blast
  with w show "seen fw_of (host_open D) d = return_ok () (service (fw_of d)) \<and>
      token_wf (fw_of (snd (host_open D d)))"
    by (simp add: seen_def host_open_def return_ok_def)
qed

lemma command_wf:
  assumes w: "token_wf (fw_of d)" and l: "length data \<le> 125"
  shows "token_wf (fw_of (snd (command D op_code data d)))"
proof -
  have w': "length (tx_buf (fw_of d)) = 128" "serial_wf (service (fw_of d))" using w by (simp_all add: token_wf_def)
  have clk: "serial_wf ((service (fw_of d))\<lparr>clock := c\<rparr>)" for c using w'(2) by (simp add: serial_wf_def)
  from w' obtain fw status reply where
    fw: "handle_one_request E touch (request op_code data) (fw_of d) = (128, fw)"
      "tx_buf fw = response status reply" "length reply \<le> 125" "serial_wf (service fw)"
    by (cases rule: request_cases [where E = E and touch = touch and rx = "request op_code data"])
      (auto simp: clk perform_serial_wf)
  from command_exchange [OF l fw(3,2,1)] fw(2-4) show ?thesis by (auto simp: token_wf_def)
qed

lemma refines_command:
  assumes l: "length data \<le> 125"
    and disp: "dispatch E op_code data = responding (answer m encode on_err)"
    and dec: "\<And>e. declines (on_err e) (view e)"
    and fit: "\<And>s. serial_wf s \<Longrightarrow> fits m encode s"
  shows "refines fw_of (command D op_code data) (remote m view encode)"
  unfolding refines_def
  using command_answer [OF _ l disp _ dec] command_wf [OF _ l] fit by (simp add: token_wf_def)

lemma refines_shown:
  assumes "length data \<le> 125" and "dispatch E op_code data = responding (answer m encode on_err)"
    and "\<And>e. declines (on_err e) (view e)" and "\<And>s. serial_wf s \<Longrightarrow> delivers m encode n s" and "n \<le> 125"
  shows "refines fw_of (sized n (command D op_code data)) (remote m view encode)"
  using assms by (intro refines_sized refines_command fits_delivers [of m encode n]) auto

lemma refines_read_block:
  "refines fw_of (sized 32 (command D CmdReadConfigZone [b])) (remote (read_config_block E b) host_view id)"
  by (rule refines_shown [OF _ dispatch_device(3) declines_write_error]) (simp_all add: delivers_reads)

lemma read_config_block_length: "read_config_block E b s = (Inr v, t) \<Longrightarrow> length v = 32"
  using delivers_reads(6) [of E b s] by (simp add: delivers_def)

lemma refines_read_zone: "refines fw_of (read_full_config_zone D) (zone_spec E)"
proof -
  note step = refines_remote [OF refines_read_block read_config_block_length]
  have "copy_at (copy_at (copy_at (copy_at (replicate 128 0) 0 b0) 32 b1) 64 b2) 96 b3 = b0 @ b1 @ b2 @ b3"
    if "length b0 = 32" "length b1 = 32" "length b2 = 32" "length b3 = 32" for b0 b1 b2 b3 :: bytes
    using that by (simp add: copy_at_def)
  then show ?thesis unfolding read_full_config_zone_def zone_spec_def call_def
    by (auto intro!: step)
qed

lemma refines_write_block:
  "length content = 32 \<Longrightarrow>
     refines fw_of (command D CmdWriteConfigZone (b # content)) (remote (write_config_block E b content) host_view (\<lambda>_. []))"
  by (rule refines_command [OF _ dispatch_device(4) declines_write_error]) (simp_all add: fits_small)

lemma refines_provision_steps:
  "refines fw_of (sized 14 (command D CmdInfo [])) (remote (service_info E) host_view info_payload)"
  "refines fw_of (sized 32 (command D CmdProvisionIoKey [])) (remote (provision_initial_io_key E) host_view id)"
  "refines fw_of (command D CmdProvisionInitialPin []) (remote (provision_initial_pin E) host_view (\<lambda>_. []))"
  "refines fw_of (sized 8 (command D CmdProvisionInitialPuk [])) (remote (provision_initial_puk E) host_view id)"
  "refines fw_of (sized 64 (command D CmdGenKey [0])) (remote (service_genkey_create E (Slot 0)) host_view id)"
proof -
  show "refines fw_of (sized 14 (command D CmdInfo [])) (remote (service_info E) host_view info_payload)"
    by (rule refines_shown [OF _ dispatch_device(1) declines_write_error]) (simp_all add: delivers_info)
  show "refines fw_of (sized 32 (command D CmdProvisionIoKey [])) (remote (provision_initial_io_key E) host_view id)"
    by (rule refines_shown [OF _ _ declines_write_error]) (simp_all add: handler_defs delivers_fresh)
  show "refines fw_of (command D CmdProvisionInitialPin []) (remote (provision_initial_pin E) host_view (\<lambda>_. []))"
    by (rule refines_command [OF _ _ declines_write_error]) (simp_all add: handler_defs fits_small)
  show "refines fw_of (sized 8 (command D CmdProvisionInitialPuk [])) (remote (provision_initial_puk E) host_view id)"
    by (rule refines_shown [OF _ _ declines_write_error]) (simp_all add: handler_defs delivers_fresh)
  show "refines fw_of (sized 64 (command D CmdGenKey [0])) (remote (service_genkey_create E (Slot 0)) host_view id)"
    by (rule refines_shown [OF _ dispatch_slots(2) declines_write_error]) (simp_all add: delivers_reads)
qed

lemma refines_opened: "refines fw_of m a \<Longrightarrow> refines fw_of (and_then (host_open D) (\<lambda>_. m)) a"
  using refines_and_then [OF refines_open, of "\<lambda>_. m" "\<lambda>_. a"] by (simp add: and_then_return_ok)

lemma refines_confirm:
  "refines fw_of m a \<Longrightarrow>
     refines fw_of (and_then (confirm_interactive line expected) (\<lambda>_. m)) (confirm_spec line expected a)"
  by (auto simp: confirmed confirm_spec_def and_then_return_ok and_then_return_err split: option.split)

lemma refines_acked:
  fixes meth :: "('h, 'e, 'c, unit) svc"
  assumes "refines fw_of m (remote meth view (\<lambda>_. []))"
  shows "refines fw_of (and_then m (\<lambda>_. return_ok ())) (remote meth view id)"
proof -
  have "refines fw_of (and_then m (\<lambda>_. return_ok ())) (and_then (remote meth view id) return_ok)"
    by (rule refines_remote [OF assms, where Q = "\<lambda>_. True"]) auto
  then show ?thesis by (simp add: and_then_return_right)
qed

lemma refines_write_config:
  assumes "length blob = 128"
  shows "refines fw_of (cmd_write_config D (Some blob)) (write_config_spec E blob)"
proof -
  note step = refines_remote [OF refines_write_block, where Q = "\<lambda>_. True"]
  have "copy_at ((replicate 33 0)[0 := b]) 1 (slice blob k (k + 32)) = b # slice blob k (k + 32)"
    if "k + 32 \<le> 128" for b k
    using that assms copy_tail [of "slice blob k (k + 32)" 32 0 b] by simp
  note frame = this [of 0, simplified] this [of 32, simplified] this [of 64, simplified] this [of 96, simplified]
  show ?thesis unfolding cmd_write_config_def write_config_spec_def call_def
    using assms
    by (auto simp: frame intro!: refines_opened step refines_acked [OF refines_write_block])
qed

lemma refines_lock_config: "refines fw_of (cmd_lock_config_dangerous D line) (lock_config_spec E line)"
  unfolding cmd_lock_config_dangerous_def lock_config_spec_def Let_def
  by (intro refines_opened refines_and_then refines_read_zone refines_confirm)
    (simp add: copy_two magic_lengths, intro refines_acked refines_command [OF _ dispatch_device(6) declines_write_lock_error],
      simp_all add: magic_lengths fits_small)

lemma refines_provision:
  "refines fw_of (cmd_provision_token D secrets_exist fs_write) (provision_spec E secrets_exist fs_write)"
proof -
  let ?Qi = "\<lambda>i. length (revision i) = 4 \<and> length (info_serial i) = 9"
  have digits: "utf8_valid puk" if "provision_initial_puk E s = (Inr puk, t)" for puk s t
    using that by (auto simp: provision_initial_puk_def and_then_eq_Inr return_ok_def
        dest!: generate_random_puk_digits intro: utf8_digits)
  note steps = refines_remote [OF refines_provision_steps(1), where Q = ?Qi]
    refines_remote [OF refines_provision_steps(2), where Q = "\<lambda>_. True"]
    refines_remote [OF refines_provision_steps(3), where Q = "\<lambda>_. True"]
    refines_remote [OF refines_provision_steps(4), where Q = utf8_valid]
    refines_remote [OF refines_provision_steps(5), where Q = "\<lambda>_. True"]
  show ?thesis unfolding cmd_provision_token_def provision_spec_def call_def
    by (cases secrets_exist)
      (auto simp: ensure_def and_then_return_ok and_then_return_err info_payload_fields Let_def
        dest: service_info_sizes dest!: digits intro!: refines_opened refines_pure steps)
qed

end

section \<open>Properties\<close>



end
