(* ===== verification/Host_Main.thy ===== *)
theory Host_Main
  imports Host_Workflow
begin

text \<open>
  The entry point of the host tool (\<^verbatim>\<open>hsm-host/main.rs\<close>) with the list of devices and the
  texts of the errors (\<^verbatim>\<open>device.rs\<close>). Parsed arguments are a value of \<open>Command\<close>; the files, the
  line read from standard input and the devices that \<^verbatim>\<open>hidapi\<close> lists are parameters.
\<close>

unbundle bit_operations_syntax

section \<open>Texts\<close>

fun describe_status :: "ResponseStatus option \<Rightarrow> string" where
  "describe_status (Some StatusOk) = ''Ok''"
| "describe_status (Some StatusInvalidCommand) = ''InvalidCommand''"
| "describe_status (Some StatusInvalidPayload) = ''InvalidPayload''"
| "describe_status (Some StatusInvalidSlot) = ''InvalidSlot''"
| "describe_status (Some StatusAteccCommunicationError) = ''AteccCommunicationError''"
| "describe_status (Some StatusAteccChipError) = ''AteccChipError''"
| "describe_status (Some StatusTouchTimeout) = ''TouchTimeout''"
| "describe_status (Some StatusNotProvisioned) = ''NotProvisioned''"
| "describe_status (Some StatusLockMagicMismatch) = ''LockMagicMismatch''"
| "describe_status (Some StatusLockCrcMismatch) = ''LockCrcMismatch''"
| "describe_status (Some StatusBusy) = ''Busy''"
| "describe_status (Some StatusWrongPin) = ''WrongPin''"
| "describe_status (Some StatusPinRequired) = ''PinRequired''"
| "describe_status (Some StatusPinBlocked) = ''PinBlocked''"
| "describe_status (Some StatusWrongPuk) = ''WrongPuk''"
| "describe_status (Some StatusBricked) = ''Bricked''"
| "describe_status (Some StatusEmergencyResetNotPermitted) = ''EmergencyResetNotPermitted''"
| "describe_status None = ''Unknown''"

fun describe_chip_error :: "ChipError option \<Rightarrow> string" where
  "describe_chip_error (Some CheckMacOrVerifyFailed) = ''CheckMacOrVerifyFailed''"
| "describe_chip_error (Some ParseError) = ''ParseError''"
| "describe_chip_error (Some EccFault) = ''EccFault''"
| "describe_chip_error (Some SelfTestFailed) = ''SelfTestFailed''"
| "describe_chip_error (Some HealthTestFailed) = ''HealthTestFailed''"
| "describe_chip_error (Some ExecutionError) = ''ExecutionError''"
| "describe_chip_error (Some WatchdogAboutToExpire) = ''WatchdogAboutToExpire''"
| "describe_chip_error (Some CommandCrcError) = ''CommandCrcError''"
| "describe_chip_error (Some _) = ''Unknown(...)''"
| "describe_chip_error None = ''Success(0x00, unexpected here)''"

fun describe_atecc_kind :: "AteccErrorKind option \<Rightarrow> string" where
  "describe_atecc_kind (Some KindHal) = ''Hal (I2C nack / GPIO failure)''"
| "describe_atecc_kind (Some KindWakeFailed) = ''WakeFailed (wrong wake pattern)''"
| "describe_atecc_kind (Some KindSelfTestFailure) = ''SelfTestFailure (chip self-test failed at wake)''"
| "describe_atecc_kind (Some KindBadCrc) = ''BadCrc (response CRC mismatch)''"
| "describe_atecc_kind (Some KindTimeout) = ''Timeout (chip polling timed out)''"
| "describe_atecc_kind (Some KindMalformedResponse) = ''MalformedResponse (inconsistent length byte)''"
| "describe_atecc_kind (Some KindBufferTooSmall) = ''BufferTooSmall (driver buffer too small)''"
| "describe_atecc_kind (Some (KindChip _)) = ''Chip(_) (unexpected here, see AteccChipError)''"
| "describe_atecc_kind None = ''Unknown sub-code''"

section \<open>The list of devices\<close>

definition USB_VID :: u16 where "USB_VID = 0xCAFE"
definition USB_PID :: u16 where "USB_PID = 0x1312"

record DeviceEntry =
  vendor_id :: u16
  product_id :: u16
  manufacturer_string :: "string option"
  product_string :: "string option"

text \<open>A line for each device: its identifiers, what it calls itself, and whether it is marked.\<close>

type_synonym DeviceLine = "u16 \<times> u16 \<times> string \<times> string \<times> string"

definition is_mini_hsm :: "DeviceEntry \<Rightarrow> bool" where
  "is_mini_hsm info \<longleftrightarrow> vendor_id info = USB_VID \<and> product_id info = USB_PID"

fun enumerate_loop :: "DeviceEntry list \<Rightarrow> nat \<Rightarrow> DeviceLine list \<Rightarrow> DeviceLine list \<times> nat" where
  "enumerate_loop [] found out = (out, found)"
| "enumerate_loop (info # infos) found out =
     (let found = (if is_mini_hsm info then found + 1 else found);
          marker = (if is_mini_hsm info then ''<-- mini-HSM'' else '''')
      in enumerate_loop infos found
           (out @ [(vendor_id info, product_id info, case_option ''(no manufacturer)'' id (manufacturer_string info),
                    case_option ''(no product)'' id (product_string info), marker)]))"

definition enumerate :: "DeviceEntry list option \<Rightarrow> ('d, DeviceLine list \<times> nat) host" where
  "enumerate device_list =
     (case device_list of
        None \<Rightarrow> return_err OpenFailed
      | Some infos \<Rightarrow> return_ok (enumerate_loop infos 0 []))"

text \<open>Every device is listed once, and the number shown is that of the marked ones.\<close>

lemma enumerate_loop_counts:
  "length (fst (enumerate_loop infos found out)) = length out + length infos \<and>
   snd (enumerate_loop infos found out) = found + length (filter is_mini_hsm infos)"
  by (induction infos arbitrary: found out) (simp_all add: Let_def)

lemma describe_status_inject: "describe_status (Some a) = describe_status (Some b) \<longleftrightarrow> a = b"
  by (cases a; cases b; simp)

section \<open>The subcommands\<close>

datatype Command =
  Enumerate | Info | ReadConfig | ReadConfigSlot u8 | ReadSlotBlock u8 u8 | ReadSlotWord u8 u8 u8
| WriteConfig string | ProvisionSlot u8 bytes | ProvisionToken string | GetPubkey u8 | Genkey u8
| Sign u8 bytes | VerifyPin bytes | SetPin bytes bytes bytes | UnblockPin bytes bytes bytes
| SetPuk bytes bytes bytes | CloseSession | EmergencyResetDangerous bytes | ShowPinStatus | ReadCounter u8
| LockConfigDangerous | LockDataDangerous | LockSlotDangerous u8

text \<open>What a subcommand prints, by the values in it.\<close>

datatype Shown =
  Done | ShownDevices "DeviceLine list" nat | ShownInfo InfoView | ShownBytes bytes | ShownWords u16 u16
| ShownPoint bytes bytes | ShownStatus u8 u8 bool | ShownCount u32 | ShownSecrets Secrets

definition showing :: "('a \<Rightarrow> Shown) \<Rightarrow> ('d, 'a) host \<Rightarrow> ('d, Shown) host" where
  "showing f m = and_then m (\<lambda>a. return_ok (f a))"

record 'd HostEnv =
  device :: "'d HidDevice"
  device_list :: "DeviceEntry list option"
  hex_decode :: "bytes \<Rightarrow> bytes option"
  stdin_line :: "bytes option"
  fs_read :: "string \<Rightarrow> bytes option"
  fs_exists :: "string \<Rightarrow> bool"
  fs_write_secrets :: "string \<Rightarrow> Secrets \<Rightarrow> bool"

definition host_main :: "'d HostEnv \<Rightarrow> Command \<Rightarrow> ('d, Shown) host" where
  "host_main V cmd =
     (let D = device V; hex = hex_decode V; input = stdin_line V; quiet = showing (\<lambda>_. Done) in
      case cmd of
        Enumerate \<Rightarrow> showing (\<lambda>(ls, n). ShownDevices ls n) (enumerate (device_list V))
      | Info \<Rightarrow> showing ShownInfo (cmd_info D)
      | ReadConfig \<Rightarrow> showing ShownBytes (cmd_read_config D)
      | ReadConfigSlot slot \<Rightarrow> showing (\<lambda>(a, b). ShownWords a b) (cmd_read_config_slot D slot)
      | ReadSlotBlock slot block \<Rightarrow> showing ShownBytes (cmd_read_slot_block D slot block)
      | ReadSlotWord slot block offset \<Rightarrow> showing ShownBytes (cmd_read_slot_word D slot block offset)
      | WriteConfig path \<Rightarrow> quiet (cmd_write_config D (fs_read V path))
      | ProvisionSlot slot v \<Rightarrow> quiet (cmd_provision_slot hex D slot v)
      | ProvisionToken path \<Rightarrow> showing ShownSecrets (cmd_provision_token D (fs_exists V path) (fs_write_secrets V path))
      | GetPubkey slot \<Rightarrow> showing (\<lambda>(x, y). ShownPoint x y) (cmd_get_pubkey D slot)
      | Genkey slot \<Rightarrow> showing (\<lambda>(x, y). ShownPoint x y) (cmd_genkey D slot)
      | Sign slot challenge \<Rightarrow> showing (\<lambda>(r, s). ShownPoint r s) (cmd_sign hex D slot challenge)
      | VerifyPin pin \<Rightarrow> quiet (cmd_verify_pin D pin)
      | SetPin old new k \<Rightarrow> quiet (cmd_set_pin hex D old new k)
      | UnblockPin puk new_pin k \<Rightarrow> quiet (cmd_unblock_pin hex D puk new_pin k)
      | SetPuk old new k \<Rightarrow> quiet (cmd_set_puk hex D old new k)
      | CloseSession \<Rightarrow> quiet (cmd_close_session D)
      | EmergencyResetDangerous k \<Rightarrow> showing ShownBytes (cmd_emergency_reset_dangerous hex D input k)
      | ShowPinStatus \<Rightarrow> showing (\<lambda>(p, u, a). ShownStatus p u a) (cmd_pin_status D)
      | ReadCounter cid \<Rightarrow> showing ShownCount (cmd_read_counter D cid)
      | LockConfigDangerous \<Rightarrow> quiet (cmd_lock_config_dangerous D input)
      | LockDataDangerous \<Rightarrow> quiet (cmd_lock_data_dangerous D input)
      | LockSlotDangerous slot \<Rightarrow> quiet (cmd_lock_slot_dangerous D input slot))"

section \<open>What the host sends\<close>

text \<open>A device that records the buffers written to it.\<close>

definition log_hid :: "'d HidDevice \<Rightarrow> ('d \<times> bytes list) HidDevice" where
  "log_hid D =
     \<lparr>hid_open = (\<lambda>(d, l). let (b, d) = hid_open D d in (b, d, l)),
      hid_write = (\<lambda>wire (d, l). let (b, d) = hid_write D wire d in (b, d, l @ [wire])),
      hid_read_timeout = (\<lambda>n (d, l). let (r, d) = hid_read_timeout D n d in (r, d, l))\<rparr>"

definition log_host :: "'d HostEnv \<Rightarrow> ('d \<times> bytes list) HostEnv" where
  "log_host V =
     \<lparr>device = log_hid (device V), device_list = device_list V, hex_decode = hex_decode V, stdin_line = stdin_line V,
      fs_read = fs_read V, fs_exists = fs_exists V, fs_write_secrets = fs_write_secrets V\<rparr>"

text \<open>A buffer with the report of one of the given opcodes, after the report identifier 0.\<close>

definition requests :: "CommandOpcode list \<Rightarrow> bytes \<Rightarrow> bool" where
  "requests ops wire \<longleftrightarrow>
     (\<exists>op\<in>set ops. \<exists>data. length data \<le> 125 \<and>
        wire = 0 # report (opcode_as_u8 op) data (replicate (125 - length data) 0))"

definition confirmed_by :: "bytes option \<Rightarrow> bytes \<Rightarrow> bool" where
  "confirmed_by input expected \<longleftrightarrow> (case input of None \<Rightarrow> False | Some buf \<Rightarrow> trim buf = expected)"

fun host_footprint :: "bytes option \<Rightarrow> Command \<Rightarrow> CommandOpcode list" where
  "host_footprint input Enumerate = []"
| "host_footprint input Info = [CmdInfo]"
| "host_footprint input ReadConfig = [CmdReadConfigZone]"
| "host_footprint input (ReadConfigSlot _) = [CmdReadConfigSlot]"
| "host_footprint input (ReadSlotBlock _ _) = [CmdReadSlotBlock]"
| "host_footprint input (ReadSlotWord _ _ _) = [CmdReadSlotWord]"
| "host_footprint input (WriteConfig _) = [CmdWriteConfigZone]"
| "host_footprint input (ProvisionSlot _ _) = [CmdProvisionSlot]"
| "host_footprint input (ProvisionToken _) =
     [CmdInfo, CmdProvisionIoKey, CmdProvisionInitialPin, CmdProvisionInitialPuk, CmdGenKey]"
| "host_footprint input (GetPubkey _) = [CmdGetPubkey]"
| "host_footprint input (Genkey _) = [CmdGenKey]"
| "host_footprint input (Sign _ _) = [CmdSign]"
| "host_footprint input (VerifyPin _) = [CmdVerifyPin]"
| "host_footprint input (SetPin _ _ _) = [CmdSetPin]"
| "host_footprint input (UnblockPin _ _ _) = [CmdUnblockPin]"
| "host_footprint input (SetPuk _ _ _) = [CmdSetPuk]"
| "host_footprint input CloseSession = [CmdCloseSession]"
| "host_footprint input (EmergencyResetDangerous _) =
     (if confirmed_by input (ascii ''EMERGENCY-RESET'') then [CmdEmergencyReset] else [])"
| "host_footprint input ShowPinStatus = [CmdGetPinStatus]"
| "host_footprint input (ReadCounter _) = [CmdReadCounter]"
| "host_footprint input LockConfigDangerous =
     CmdReadConfigZone # (if confirmed_by input (ascii ''LOCK-CONFIG'') then [CmdLockConfigZone] else [])"
| "host_footprint input LockDataDangerous = (if confirmed_by input (ascii ''LOCK-DATA'') then [CmdLockDataZone] else [])"
| "host_footprint input (LockSlotDangerous slot) =
     (if confirmed_by input (ascii ''LOCK-SLOT-'' @ decimal (unat slot)) then [CmdLockSlot] else [])"

lemma emits_device:
  "emits snd P (host_open (log_hid D))" "emits snd P (host_read (log_hid D) n)"
  "P wire \<Longrightarrow> emits snd P (host_write (log_hid D) wire)"
  by (auto simp: emits_def host_open_def host_read_def host_write_def log_hid_def Let_def split: prod.split option.split)

lemma emits_arguments:
  "emits lg P (check_pin pin)" "emits lg P (check_puk puk)" "emits lg P (parse_hex_array hex n v)"
  "emits lg P (confirm_interactive input expected)" "emits lg P (ensure b e)"
  by (auto simp: check_pin_def check_puk_def parse_hex_array_def confirm_interactive_def ensure_def Let_def
      split: option.split)

lemma and_then_known: "and_then (map_err g (of_result (Inr a))) f = f a" "and_then (map_err g (of_result (Inl e))) f = return_err (g e)"
  by (simp_all add: fun_eq_iff and_then_def map_err_def of_result_def return_err_def)

lemma emits_command:
  assumes "op \<in> set ops"
  shows "emits snd (requests ops) (command (log_hid D) op data)"
proof (cases "length data \<le> 125")
  case True
  let ?r = "report (opcode_as_u8 op) data (replicate (125 - length data) 0)"
  have w: "copy_at ((replicate (HID_REPORT_SIZE + 1) 0)[0 := 0]) 1 ?r = 0 # ?r"
    using True by (simp add: copy_at_def HID_REPORT_SIZE_def) (simp add: numeral_eq_Suc)
  have r: "requests ops (0 # ?r)" using assms True by (auto simp: requests_def)
  from True have f: "Frame_to_report (opcode_as_u8 op) data = Inr ?r" by (simp add: Frame_to_report_eq)
  show ?thesis unfolding command_def send_command_def f and_then_known Let_def w
    by (intro emits_and_then emits_device r emits_arguments emits_map_err emits_if emits_pure)
next
  case False
  then have "Frame_to_report (opcode_as_u8 op) data = Inl (PayloadTooLarge (length data))" by (simp add: Frame_to_report_eq)
  then show ?thesis unfolding command_def send_command_def by (simp only: and_then_known emits_pure)
qed

lemma emits_sized: "emits lg P m \<Longrightarrow> emits lg P (sized n m)"
  unfolding sized_def by (intro emits_and_then emits_if emits_pure)

lemma emits_blocks:
  "CmdReadConfigZone \<in> set ops \<Longrightarrow> emits snd (requests ops) (read_full_config_zone (log_hid D))"
  "CmdWriteConfigZone \<in> set ops \<Longrightarrow> emits snd (requests ops) (write_zone_blocks (log_hid D) blob bs)"
proof -
  have "emits snd (requests ops) (read_zone_blocks (log_hid D) blocks full)" if "CmdReadConfigZone \<in> set ops" for blocks full
    using that by (induction blocks arbitrary: full) (auto intro!: emits_and_then emits_sized emits_command)
  then show "CmdReadConfigZone \<in> set ops \<Longrightarrow> emits snd (requests ops) (read_full_config_zone (log_hid D))"
    unfolding read_full_config_zone_def .
  show "CmdWriteConfigZone \<in> set ops \<Longrightarrow> emits snd (requests ops) (write_zone_blocks (log_hid D) blob bs)"
    by (induction bs) (auto simp: Let_def intro!: emits_and_then emits_command)
qed

text \<open>After a confirmation that does not match, nothing of the rest runs.\<close>

lemma emits_confirmed:
  assumes "confirmed_by input expected \<Longrightarrow> emits lg P m"
  shows "emits lg P (and_then (confirm_interactive input expected) (\<lambda>_. m))"
proof (cases "confirmed_by input expected")
  case True
  then show ?thesis using assms by (intro emits_and_then emits_arguments)
next
  case False
  then show ?thesis
    by (cases input) (auto simp: confirmed_by_def confirm_interactive_def and_then_def emits_def return_err_def Let_def)
qed

lemmas emits_host = emits_confirmed emits_and_then emits_if emits_case_option emits_pure emits_sized emits_arguments
  emits_device(1) emits_blocks emits_command

lemma emits_showing: "emits lg P m \<Longrightarrow> emits lg P (showing f m)"
  unfolding showing_def by (intro emits_and_then emits_pure)

lemmas cmd_defs = cmd_info_def cmd_read_config_def cmd_write_config_def cmd_read_config_slot_def cmd_read_slot_block_def
  cmd_read_slot_word_def cmd_close_session_def cmd_provision_slot_def cmd_get_pubkey_def cmd_genkey_def cmd_sign_def
  cmd_verify_pin_def cmd_set_pin_def cmd_unblock_pin_def cmd_set_puk_def cmd_emergency_reset_dangerous_def
  cmd_pin_status_def cmd_read_counter_def cmd_lock_config_dangerous_def cmd_lock_data_dangerous_def
  cmd_lock_slot_dangerous_def cmd_provision_token_def enumerate_def

lemma host_main_emits:
  "emits snd (requests (host_footprint (stdin_line V) cmd)) (host_main (log_host V) cmd)"
  by (cases cmd; simp only: host_main_def log_host_def Let_def Command.case HostEnv.select_convs host_footprint.simps
      cmd_defs; intro emits_showing emits_host; simp)

section \<open>Properties\<close>

text \<open>
  C39. What the host tool sends. Whatever the device answers, every buffer that a subcommand
  writes is a full report whose opcode is in the list of the subcommand. A lock or the
  emergency reset is sent by its own subcommand only, and only when the line typed by the user
  is, up to surrounding white space, the phrase asked for (for a slot, with its number).
\<close>

theorem host_sends_what_was_asked:
  "\<exists>xs. snd (snd (host_main (log_host V) cmd d)) = snd d @ xs \<and>
     list_all (requests (host_footprint (stdin_line V) cmd)) xs"
  using host_main_emits [of V cmd] unfolding emits_def by (rule spec)

end
