(* ===== verification/Board.thy ===== *)
theory Board
  imports Firmware_System Rp2040_Hal Hid_Descriptor Host_Main
begin

text \<open>
  The firmware put together: the LED and button traits of \<^verbatim>\<open>hsm-firmware-logic/io.rs\<close> on the
  pins of the RP2040, the loop of \<^verbatim>\<open>touch.rs\<close>, the USB device of \<^verbatim>\<open>usb.rs\<close> and the entry
  point in \<^verbatim>\<open>main.rs\<close>. The constructors of embassy are parameters. What \<^verbatim>\<open>main.rs\<close>
  builds is the initial state of the system of \<open>Firmware_System\<close>.
\<close>

section \<open>LEDs (io.rs, animation.rs)\<close>

definition Led_set :: "('l \<Rightarrow> 'l) \<Rightarrow> ('l \<Rightarrow> 'l) \<Rightarrow> bool \<Rightarrow> 'l \<Rightarrow> 'l" where
  "Led_set on off level led = (if level then on led else off led)"

text \<open>\<open>apply_pattern\<close> on two values of a type that implements \<open>Led\<close>.\<close>

fun apply_pattern_leds ::
  "('l \<Rightarrow> 'l) \<Rightarrow> ('l \<Rightarrow> 'l) \<Rightarrow> LedPattern \<Rightarrow> bool \<Rightarrow> 'l \<times> 'l \<Rightarrow> ('l \<times> 'l) \<times> nat" where
  "apply_pattern_leds on off AllOff high (green, yellow) = ((off green, off yellow), 60000)"
| "apply_pattern_leds on off GreenSolid high (green, yellow) = ((on green, off yellow), 60000)"
| "apply_pattern_leds on off GreenSlowPulse high (green, yellow) =
     ((Led_set on off high green, off yellow), SLOW_PULSE_INTERVAL)"
| "apply_pattern_leds on off GreenFastBlink high (green, yellow) =
     ((Led_set on off high green, off yellow), FAST_BLINK_INTERVAL)"
| "apply_pattern_leds on off YellowSolid high (green, yellow) = ((off green, on yellow), 60000)"
| "apply_pattern_leds on off YellowBlink high (green, yellow) =
     ((off green, Led_set on off high yellow), YELLOW_BLINK_INTERVAL)"
| "apply_pattern_leds on off AlternateBoth high (green, yellow) =
     ((Led_set on off high green, Led_set on off (\<not> high) yellow), ALTERNATE_INTERVAL)"

text \<open>
  The trait: after \<open>on\<close> the LED is lit, after \<open>off\<close> it is dark. Then the levels that the
  animation task works with are what the LEDs show.
\<close>

locale led =
  fixes on off :: "'l \<Rightarrow> 'l" and lit :: "'l \<Rightarrow> bool"
  assumes lit_on: "lit (on l)" and lit_off: "\<not> lit (off l)"
begin

lemma lit_set: "lit (Led_set on off level l) \<longleftrightarrow> level"
  by (simp add: Led_set_def lit_on lit_off)

lemma leds_show_levels:
  "(case apply_pattern_leds on off pattern high (green, yellow) of ((g, y), interval) \<Rightarrow> ((lit g, lit y), interval)) =
     apply_pattern pattern high"
  by (cases pattern) (simp_all add: lit_set lit_on lit_off)

end

interpretation rp2040_led: led Rp2040Led_on Rp2040Led_off is_high
  by unfold_locales (simp_all add: Rp2040Led_on_def Rp2040Led_off_def)

section \<open>The button (io.rs, touch.rs)\<close>

definition stable :: "Debouncer \<Rightarrow> bool" where
  "stable debouncer = db_stable debouncer"

definition SAMPLE_INTERVAL_MS :: nat where "SAMPLE_INTERVAL_MS = 1"

text \<open>
  The loop over the pin levels that its reads find, one every \<open>SAMPLE_INTERVAL_MS\<close>; the
  first level initialises the debouncer. Other tasks may use the channels in between, which
  the interleaved system accounts for; here the task runs alone.
\<close>

fun touch_loop :: "Pin list \<Rightarrow> Debouncer \<Rightarrow> Channels \<Rightarrow> Debouncer \<times> Channels" where
  "touch_loop [] debouncer ch = (debouncer, ch)"
| "touch_loop (pin # pins) debouncer ch =
     (case sample_once (is_pressed_raw pin) debouncer ch of (debouncer, ch) \<Rightarrow> touch_loop pins debouncer ch)"

definition touch_task :: "Pin \<Rightarrow> Pin list \<Rightarrow> Channels \<Rightarrow> Debouncer \<times> Channels" where
  "touch_task pin pins ch = touch_loop pins (Debouncer_new (is_pressed_raw pin)) ch"

text \<open>The presses in a list of samples, the latest first: the level settles on pressed.\<close>

fun press_edges :: "bool \<Rightarrow> bool list \<Rightarrow> nat" where
  "press_edges initial [] = 0"
| "press_edges initial (x # xs) = press_edges initial xs + of_bool (debounced initial (x # xs) \<and> \<not> debounced initial xs)"

lemma sample_once_feed:
  "sample_once x (feed initial xs) ch =
     (feed initial (x # xs),
      if debounced initial (x # xs) \<and> \<not> debounced initial xs then post_event TouchPressed ch else ch)"
  using debouncer_step(2) [OF feed_inv, of x initial xs]
  by (cases "Debouncer_sample x (feed initial xs)") (auto simp: sample_once_def split: if_splits)

lemma touch_loop_feed:
  "touch_loop pins (feed initial xs) ((post_event TouchPressed ^^ press_edges initial xs) ch) =
     (feed initial (rev (map is_pressed_raw pins) @ xs),
      (post_event TouchPressed ^^ press_edges initial (rev (map is_pressed_raw pins) @ xs)) ch)"
proof (induction pins arbitrary: xs)
  case (Cons pin pins)
  let ?x = "is_pressed_raw pin"
  have "(if debounced initial (?x # xs) \<and> \<not> debounced initial xs
      then post_event TouchPressed ((post_event TouchPressed ^^ press_edges initial xs) ch)
      else (post_event TouchPressed ^^ press_edges initial xs) ch) = (post_event TouchPressed ^^ press_edges initial (?x # xs)) ch"
    by simp
  with Cons.IH [of "?x # xs"] show ?case by (simp only: touch_loop.simps sample_once_feed prod.case) simp
qed simp

text \<open>
  The touch task posts one event for each press that the debouncer accepts, and none for a
  button that is held since the boot.
\<close>

lemma touch_task_events:
  "snd (touch_task pin pins ch) =
     (post_event TouchPressed ^^ press_edges (is_pressed_raw pin) (rev (map is_pressed_raw pins))) ch"
  using touch_loop_feed [of pins "is_pressed_raw pin" "[]" ch] by (simp add: touch_task_def)

lemma debounced_constant: "list_all ((=) l) xs \<Longrightarrow> debounced l xs = l"
  by (induction xs) auto

lemma touch_task_held:
  assumes "list_all (\<lambda>p. is_pressed_raw p = is_pressed_raw pin) pins"
  shows "snd (touch_task pin pins ch) = ch"
proof -
  have "press_edges l xs = 0" if "list_all ((=) l) xs" for l xs
    using that debounced_constant [of l] by (induction xs) auto
  moreover have "list_all ((=) (is_pressed_raw pin)) (rev (map is_pressed_raw pins))"
    using assms by (auto simp: list_all_iff)
  ultimately show ?thesis by (simp add: touch_task_events)
qed

section \<open>The USB device (usb.rs)\<close>

record UsbConfig =
  cfg_vendor :: u16
  cfg_product_id :: u16
  manufacturer :: "string option"
  product :: "string option"
  serial_number :: "string option"
  max_power :: nat
  max_packet_size_0 :: nat

record HidConfig =
  report_descriptor :: bytes
  has_request_handler :: bool
  poll_ms :: nat
  max_packet_size :: nat
  hid_subclass :: nat
  hid_boot_protocol :: nat

record UsbBuffers =
  config_descriptor :: bytes
  bos_descriptor :: bytes
  msos_descriptor :: bytes
  control_buf :: bytes

definition UsbBuffers_new :: UsbBuffers where
  "UsbBuffers_new =
     \<lparr>config_descriptor = replicate 256 0, bos_descriptor = replicate 256 0,
      msos_descriptor = replicate 256 0, control_buf = replicate 64 0\<rparr>"

text \<open>
  The constructors of \<^verbatim>\<open>embassy_usb\<close>: the driver, the default configuration for a pair of
  identifiers, the builder, the HID class with the sizes of its two reports, the device,
  and the two halves of the class. The subclass \<open>No\<close> and the boot protocol \<open>None\<close> are 0.
\<close>

record ('p, 'd, 'b, 's, 'c, 'u, 'r, 'w) UsbApi =
  driver_new :: "'p \<Rightarrow> 'd"
  config_new :: "u16 \<Rightarrow> u16 \<Rightarrow> UsbConfig"
  builder_new :: "'d \<Rightarrow> UsbConfig \<Rightarrow> UsbBuffers \<Rightarrow> 'b"
  hid_new :: "nat \<Rightarrow> nat \<Rightarrow> 'b \<Rightarrow> 's \<Rightarrow> HidConfig \<Rightarrow> 'b \<times> 'c"
  builder_build :: "'b \<Rightarrow> 'u"
  hid_split :: "'c \<Rightarrow> 'r \<times> 'w"

definition usb_config :: "('p, 'd, 'b, 's, 'c, 'u, 'r, 'w) UsbApi \<Rightarrow> UsbConfig" where
  "usb_config api =
     (config_new api USB_VID USB_PID)
       \<lparr>manufacturer := Some ''Ethamin'', product := Some ''mini-HSM'', serial_number := Some ''0001'',
        max_power := 100, max_packet_size_0 := 64\<rparr>"

definition hid_config :: HidConfig where
  "hid_config =
     \<lparr>report_descriptor = HID_REPORT_DESCRIPTOR, has_request_handler = False, poll_ms = 10,
      max_packet_size = 64, hid_subclass = 0, hid_boot_protocol = 0\<rparr>"

definition build_usb ::
  "('p, 'd, 'b, 's, 'c, 'u, 'r, 'w) UsbApi \<Rightarrow> 'p \<Rightarrow> UsbBuffers \<Rightarrow> 's \<Rightarrow> 'u \<times> 'r \<times> 'w" where
  "build_usb api usb buffers hid_state =
     (let driver = driver_new api usb;
          builder = builder_new api driver (usb_config api) buffers;
          (builder, hid) = hid_new api REPORT_SIZE REPORT_SIZE builder hid_state hid_config;
          device = builder_build api builder;
          (reader, writer) = hid_split api hid
      in (device, reader, writer))"

text \<open>
  A report is sent in two packets of the endpoint, and the HID class is given the sizes that
  the report descriptor declares. With a library that keeps the identifiers it is given, the
  host tool recognises the device.
\<close>

lemma usb_report_sizes:
  "REPORT_SIZE = 2 * max_packet_size hid_config"
  "map_option (report_bits 0 0) (items (report_descriptor hid_config)) = Some [(0x80, 8 * REPORT_SIZE), (0x90, 8 * REPORT_SIZE)]"
  "length (control_buf UsbBuffers_new) = max_packet_size_0 (usb_config api)"
  by (simp_all add: hid_config_def REPORT_SIZE_def HID_REPORT_SIZE_def descriptor_report_sizes UsbBuffers_new_def usb_config_def)

lemma host_recognises_device:
  assumes "cfg_vendor (config_new api USB_VID USB_PID) = USB_VID" and "cfg_product_id (config_new api USB_VID USB_PID) = USB_PID"
  shows "is_mini_hsm \<lparr>vendor_id = cfg_vendor (usb_config api), product_id = cfg_product_id (usb_config api),
    manufacturer_string = manufacturer (usb_config api), product_string = product (usb_config api)\<rparr>"
  using assms by (simp add: is_mini_hsm_def usb_config_def)

section \<open>The entry point (main.rs, hal_rp2040.rs)\<close>

record ('i, 'k, 'a) Rp2040Hal =
  i2c_peri :: 'i
  scl :: 'k
  sda :: 'a

definition Rp2040Hal_new :: "'i \<Rightarrow> 'k \<Rightarrow> 'a \<Rightarrow> ('i, 'k, 'a) Rp2040Hal" where
  "Rp2040Hal_new i k a = \<lparr>i2c_peri = i, scl = k, sda = a\<rparr>"

text \<open>
  \<open>Input::new(PIN_15, Pull::Up)\<close> reads high unless the button connects it to ground;
  \<open>Output::new(_, Level::Low)\<close> is low.
\<close>

definition Input_new :: "bool \<Rightarrow> Pin" where "Input_new grounded = \<lparr>is_high = \<not> grounded\<rparr>"
definition Output_new :: Pin where "Output_new = \<lparr>is_high = False\<rparr>"

datatype Task = UsbRunTask | StateMachineTask | AnimationTask | TouchTask

record ('h, 'c, 'u, 'r, 'w) Boot =
  usb_device :: 'u
  usb_rx :: 'r
  usb_tx :: 'w
  spawned :: "Task list"
  led_green :: Pin
  led_yellow :: Pin
  touch_button :: Pin
  dispatch_state :: "('h, 'c) Firmware"

text \<open>
  \<open>main\<close> up to the first iteration of the dispatch loop; the peripherals and the clock are
  arguments.
\<close>

definition firmware_main ::
  "('p, 'd, 'b, 's, 'x, 'u, 'r, 'w) UsbApi \<Rightarrow> 'p \<Rightarrow> 's \<Rightarrow> 'i \<Rightarrow> 'k \<Rightarrow> 'a \<Rightarrow> bool \<Rightarrow> 'c \<Rightarrow>
   (('i, 'k, 'a) Rp2040Hal, 'c, 'u, 'r, 'w) Boot" where
  "firmware_main api usb hid_state i2c0 pin_5 pin_4 grounded clk =
     (let btn = Input_new grounded;
          green = Output_new;
          yellow = Output_new;
          buffers = UsbBuffers_new;
          (device, rx, tx) = build_usb api usb buffers hid_state;
          h = Rp2040Hal_new i2c0 pin_5 pin_4;
          a = Atecc_new h;
          svc = CryptoService_new a clk;
          ch = post_event BootComplete Channels_new
      in \<lparr>usb_device = device, usb_rx = rx, usb_tx = tx,
          spawned = [UsbRunTask, StateMachineTask, AnimationTask, TouchTask],
          led_green = green, led_yellow = yellow, touch_button = btn,
          dispatch_state = \<lparr>service = svc, tx_buf = replicate REPORT_SIZE 0, channels = ch\<rparr>\<rparr>)"

text \<open>The tasks run up to their first wait: the state task publishes its state, the touch task reads the button.\<close>

definition tasks_started :: "('h, 'c, 'u, 'r, 'w) Boot \<Rightarrow> ('h, 'c) System" where
  "tasks_started b =
     (case state_task_start (channels (dispatch_state b)) of (t, ch) \<Rightarrow>
      case touch_task (touch_button b) [] ch of (debouncer, ch) \<Rightarrow>
        \<lparr>fw = (dispatch_state b)\<lparr>channels := ch\<rparr>, phase = Ready, sm = t, button = debouncer, anim = None,
         presses = 0, entries = 0, signs = 0, touched = False, queued_then = 0, pressed_since = 0\<rparr>)"

lemma firmware_boots:
  "tasks_started (firmware_main api usb hid_state i2c0 pin_5 pin_4 grounded clk) =
     system_boot (Atecc_new (Rp2040Hal_new i2c0 pin_5 pin_4)) clk grounded"
  "device_addr (atecc (service (dispatch_state (firmware_main api usb hid_state i2c0 pin_5 pin_4 grounded clk)))) = 0x60"
  "\<not> is_high (led_green (firmware_main api usb hid_state i2c0 pin_5 pin_4 grounded clk))"
  "\<not> is_high (led_yellow (firmware_main api usb hid_state i2c0 pin_5 pin_4 grounded clk))"
  by (simp_all add: firmware_main_def tasks_started_def system_boot_def boot_channels_def state_task_start_def touch_task_def
      Input_new_def Output_new_def is_pressed_raw_def Let_def CryptoService_new_def Atecc_new_def Atecc_with_address_def
      I2C_ADDRESS_def split: prod.split)

text \<open>So the invariants of the task system hold in every state that the assembled firmware can reach.\<close>

corollary firmware_invariant:
  "(system_step E)\<^sup>*\<^sup>* (tasks_started (firmware_main api usb hid_state i2c0 pin_5 pin_4 grounded clk)) s \<Longrightarrow> system_inv s"
  unfolding firmware_boots(1) by (rule system.reachable_inv [of _ E]) blast+

end
