(* ===== verification/Request_Time.thy ===== *)
theory Request_Time
  imports Rp2040_Hal Dispatch_Policy
begin

text \<open>
  How long a request keeps the bus. A computation is charged in three units: a command
  (\<open>run_command\<close> of \<^verbatim>\<open>driver.rs\<close>, with its polling loop), the opening and the closing of a
  channel (\<^verbatim>\<open>wake.rs\<close>). The locale \<open>bus_cost\<close> derives the price of these units from
  prices of single bus operations, and then the charge of every method of the service; its
  interpretations on the RP2040 backend count the transfers and add up the waits.
\<close>

section \<open>Charges\<close>

text \<open>
  \<open>spends (C, O, D) w n k j m\<close>: the quantity \<open>w\<close> grows by at most \<open>n\<close> times the price of a
  command, \<open>k\<close> times that of an opening and \<open>j\<close> times that of a closing.
\<close>

type_synonym prices = "nat \<times> nat \<times> nat"

fun bill :: "prices \<Rightarrow> nat \<Rightarrow> nat \<Rightarrow> nat \<Rightarrow> nat" where
  "bill (C, O', D) n k j = n * C + k * O' + j * D"

definition spends :: "prices \<Rightarrow> ('s \<Rightarrow> nat) \<Rightarrow> nat \<Rightarrow> nat \<Rightarrow> nat \<Rightarrow> ('s, 'e, 'a) act \<Rightarrow> bool" where
  "spends \<pi> w n k j m \<longleftrightarrow> (\<forall>s. w (snd (m s)) \<le> w s + bill \<pi> n k j)"

lemma bill_add: "bill \<pi> (n + n') (k + k') (j + j') = bill \<pi> n k j + bill \<pi> n' k' j'"
  by (cases \<pi>) (simp add: algebra_simps)

lemma bill_mono: "n \<le> n' \<Longrightarrow> k \<le> k' \<Longrightarrow> j \<le> j' \<Longrightarrow> bill \<pi> n k j \<le> bill \<pi> n' k' j'"
  by (cases \<pi>) (simp add: add_mono)

lemma spendsI: "(\<And>s. w (snd (m s)) \<le> w s + bill \<pi> n k j) \<Longrightarrow> spends \<pi> w n k j m"
  by (simp add: spends_def)

lemma spendsD: "spends \<pi> w n k j m \<Longrightarrow> w (snd (m s)) \<le> w s + bill \<pi> n k j"
  by (simp add: spends_def)

lemma spends_mono:
  "spends \<pi> w n k j m \<Longrightarrow> n \<le> n' \<Longrightarrow> k \<le> k' \<Longrightarrow> j \<le> j' \<Longrightarrow> spends \<pi> w n' k' j' m"
  unfolding spends_def by (meson add_left_mono bill_mono order_trans)

lemma spends_still:
  "spends \<pi> w 0 0 0 (return_ok a)" "spends \<pi> w 0 0 0 (return_err e)" "spends \<pi> w 0 0 0 (of_result r)"
  "spends \<pi> w 0 0 0 (gets f)"
  by (simp_all add: spends_def act_defs)

lemma spends_modify: "(\<And>s. w (f s) = w s) \<Longrightarrow> spends \<pi> w 0 0 0 (modify f)"
  by (simp add: spends_def modify_def)

lemma spends_and_then:
  assumes "spends \<pi> w n k j m" and "\<And>a. spends \<pi> w n' k' j' (f a)"
  shows "spends \<pi> w (n + n') (k + k') (j + j') (and_then m f)"
proof (rule spendsI)
  fix s
  obtain r t where m: "m s = (r, t)" by fastforce
  with spendsD [OF assms(1), of s] have st: "w t \<le> w s + bill \<pi> n k j" by simp
  show "w (snd (and_then m f s)) \<le> w s + bill \<pi> (n + n') (k + k') (j + j')"
  proof (cases r)
    case (Inr a)
    with m st spendsD [OF assms(2), of a t] show ?thesis by (simp add: and_then_def bill_add)
  qed (use m st in \<open>simp add: and_then_def bill_add\<close>)
qed

lemma spends_attempt: "spends \<pi> w n k j m \<Longrightarrow> spends \<pi> w n k j (attempt m)"
  by (simp add: spends_def attempt_def case_prod_beta)

lemma spends_map_err: "spends \<pi> w n k j m \<Longrightarrow> spends \<pi> w n k j (map_err g m)"
  by (simp add: spends_def snd_map_err)

lemma spends_max:
  assumes "spends \<pi> w n k j m"
  shows "spends \<pi> w (max n n') (max k k') (max j j') m" "spends \<pi> w (max n' n) (max k' k) (max j' j) m"
  by (rule spends_mono [OF assms]; simp)+

lemma spends_if:
  "spends \<pi> w n k j m \<Longrightarrow> spends \<pi> w n' k' j' m' \<Longrightarrow>
     spends \<pi> w (max n n') (max k k') (max j j') (if b then m else m')"
  by (simp add: spends_max)

lemma spends_case_sum:
  "(\<And>e. spends \<pi> w n k j (f e)) \<Longrightarrow> (\<And>a. spends \<pi> w n' k' j' (g a)) \<Longrightarrow>
     spends \<pi> w (max n n') (max k k') (max j j') (case r of Inl e \<Rightarrow> f e | Inr a \<Rightarrow> g a)"
  by (cases r) (simp_all add: spends_max)

lemma spends_case_option:
  "spends \<pi> w n k j m \<Longrightarrow> (\<And>a. spends \<pi> w n' k' j' (f a)) \<Longrightarrow>
     spends \<pi> w (max n n') (max k k') (max j j') (case x of None \<Rightarrow> m | Some a \<Rightarrow> f a)"
  by (cases x) (simp_all add: spends_max)

lemma spends_case_prod:
  "(\<And>a b. spends \<pi> w n k j (f a b)) \<Longrightarrow> spends \<pi> w n k j (case x of (a, b) \<Rightarrow> f a b)"
  by (cases x) simp

lemma spends_case_ResponseFrame:
  "(\<And>p. spends \<pi> w n k j (f p)) \<Longrightarrow> (\<And>b. spends \<pi> w n' k' j' (g b)) \<Longrightarrow>
     spends \<pi> w (max n n') (max k k') (max j j') (case x of Payload p \<Rightarrow> f p | Status b \<Rightarrow> g b)"
  by (cases x) (simp_all add: spends_max)

lemmas spends_intros = spends_and_then spends_attempt spends_map_err spends_if spends_case_sum
  spends_case_option spends_case_prod spends_case_ResponseFrame spends_still

section \<open>The prices of the driver\<close>

text \<open>
  A backend in which a transfer costs at most \<open>pt\<close> and a microsecond of waiting at most
  \<open>pu\<close>. A command is one write, the wait for its execution (220 ms for the slowest command
  the service uses), up to 1250 polling periods of 2 ms with 1251 reads of the count byte,
  and one read of the rest.
\<close>

definition prices_of :: "nat \<Rightarrow> nat \<Rightarrow> prices" where
  "prices_of pt pu = (1253 * pt + 2720000 * pu, 2 * pt + 4500 * pu, pt)"

lemma bill_prices_of:
  "bill (prices_of pt pu) n k j = (1253 * n + 2 * k + j) * pt + (2720000 * n + 4500 * k) * pu"
  by (simp add: prices_of_def algebra_simps)

locale bus_cost =
  fixes H :: "('h, 'e) AteccHal" and weigh :: "'h \<Rightarrow> nat" and pt pu :: nat
  assumes write_cost: "weigh (snd (i2c_write H a wire h)) \<le> weigh h + pt"
    and read_cost: "weigh (snd (i2c_read H a n h)) \<le> weigh h + pt"
    and pulse_cost: "weigh (snd (pulse_sda_low H us h)) \<le> weigh h + pt"
    and delay_cost: "weigh (delay_us H us h) \<le> weigh h + unat us * pu"
      "weigh (delay_ms H ms h) \<le> weigh h + unat ms * 1000 * pu"
begin

text \<open>On the bus the units are transfers and microseconds, above it commands and channels.\<close>

abbreviation on_bus :: "nat \<Rightarrow> nat \<Rightarrow> ('h, 'x, 'a) act \<Rightarrow> bool" where
  "on_bus n us \<equiv> spends (pt, pu, 0) weigh n us 0"

abbreviation charged :: "nat \<Rightarrow> nat \<Rightarrow> nat \<Rightarrow> ('h Atecc, 'x, 'a) act \<Rightarrow> bool" where
  "charged \<equiv> spends (prices_of pt pu) (\<lambda>s. weigh (hal s))"

lemma bus_operations:
  "on_bus 1 0 (i2c_write H a wire)" "on_bus 1 0 (i2c_read H a n)" "on_bus 1 0 (pulse_sda_low H us)"
  "on_bus 0 (unat us) (modify (delay_us H us))" "on_bus 0 (unat ms * 1000) (modify (delay_ms H ms))"
  by (intro spendsI; simp add: modify_def write_cost read_cost pulse_cost delay_cost)+

lemma read_exact_cost: "on_bus 1 0 (read_exact H a n)"
  unfolding read_exact_def by (rule spends_mono, (rule spends_intros bus_operations)+) simp_all

lemma fetch_frame_cost: "on_bus 1 0 (fetch_frame H a m buf b)"
  unfolding fetch_frame_def Let_def by (rule spends_mono, (rule spends_intros read_exact_cost)+) simp_all

lemma charged_on_hal:
  assumes "\<And>a. on_bus n us (m a)" and "bill (pt, pu, 0) n us 0 \<le> bill (prices_of pt pu) c k j"
  shows "charged c k j (on_hal m)"
proof (rule spendsI)
  fix s :: "'h Atecc"
  from spendsD [OF assms(1), of "device_addr s" "hal s"] assms(2)
  show "weigh (hal (snd (on_hal m s))) \<le> weigh (hal s) + bill (prices_of pt pu) c k j"
    by (simp add: on_hal_def case_prod_beta)
qed

lemma poll_loop_cost:
  "weigh (snd (poll_loop H a m buf elapsed h)) \<le>
     weigh h + ((2501 - unat elapsed) div 2 + 2) * pt + (2501 - unat elapsed) div 2 * (2000 * pu)"
proof -
  have "H' = H \<Longrightarrow> a' = a \<Longrightarrow> m' = m \<Longrightarrow> buf' = buf \<Longrightarrow>
      weigh (snd (poll_loop H' a' m' buf' elapsed h)) \<le>
        weigh h + ((2501 - unat elapsed) div 2 + 2) * pt + (2501 - unat elapsed) div 2 * (2000 * pu)" for H' a' m' buf'
  proof (induction H' a' m' buf' elapsed h rule: poll_loop.induct)
    case (1 H' a' m' buf' elapsed h)
    obtain r h1 where r: "i2c_read H a 1 h = (r, h1)" by fastforce
    have k: "weigh h1 \<le> weigh h + pt" using read_cost [of a 1 h] unfolding r by simp
    show ?case
    proof (cases "isl r \<and> elapsed < POLLING_MAX_MS")
      case True
      let ?h2 = "delay_ms H POLLING_PERIOD_MS h1" and ?e = "u32_saturating_add elapsed POLLING_PERIOD_MS"
      have d: "weigh ?h2 \<le> weigh h1 + 2000 * pu" using delay_cost(2) [of POLLING_PERIOD_MS h1] by (simp add: POLLING_PERIOD_MS_def)
      have u: "unat ?e = unat elapsed + 2" "unat elapsed < 2500"
        using True by (simp_all add: unat_elapsed_step) (simp add: word_less_nat_alt POLLING_MAX_MS_def)
      then have f: "(2501 - unat elapsed) div 2 = Suc ((2501 - unat ?e) div 2)" by simp
      have "weigh (snd (poll_loop H a m buf ?e ?h2)) \<le>
          weigh ?h2 + ((2501 - unat ?e) div 2 + 2) * pt + (2501 - unat ?e) div 2 * (2000 * pu)"
        using 1 r True by (cases r) auto
      moreover have "poll_loop H a m buf elapsed h = poll_loop H a m buf ?e ?h2"
        using True r by (subst poll_loop.simps) (auto simp: isl_def)
      ultimately show ?thesis using 1(2-) k d f by (simp add: algebra_simps)
    next
      case False
      with r have "snd (poll_loop H a m buf elapsed h) \<in> {h1, snd (fetch_frame H a m buf (projr r 0) h1)}"
        by (subst poll_loop.simps) (cases r; auto)
      with k spendsD [OF fetch_frame_cost, of a m buf "projr r 0" h1] have "weigh (snd (poll_loop H a m buf elapsed h)) \<le> weigh h + 2 * pt"
        by auto
      with 1(2-) show ?thesis by (simp add: algebra_simps)
    qed
  qed
  then show ?thesis by simp
qed

lemma charged_channel: "charged 0 1 0 (open_channel H)" "charged 0 0 1 (close H)"
proof -
  have "on_bus 2 4500 (wake H a)" for a
    unfolding wake_def
    by (rule spends_mono, (rule spends_intros bus_operations read_exact_cost)+) (simp_all add: WAKE_DELAY_US_def)
  then show "charged 0 1 0 (open_channel H)"
    unfolding open_channel_def by (rule charged_on_hal) (simp add: bill_prices_of)
  have "on_bus 1 0 (idle H a)" for a unfolding idle_def by (intro spends_intros bus_operations)
  then show "charged 0 0 1 (close H)" unfolding close_def by (rule charged_on_hal) (simp add: bill_prices_of)
qed

text \<open>The three steps of a command act on the same backend, so that they make one charge.\<close>

lemma on_hal_and_then:
  "and_then (on_hal m) (\<lambda>a. on_hal (f a)) = on_hal (\<lambda>addr. and_then (m addr) (\<lambda>a. f a addr))"
  by (auto simp: fun_eq_iff and_then_def on_hal_def split: prod.split sum.split)

lemma charged_run_command:
  assumes "unat ms \<le> 220"
  shows "charged 1 0 0 (run_command H op p1 p2 data ms buf)"
proof (cases "length data \<le> 155")
  case True
  have "on_bus 1252 2500000 (poll_loop H a m buf 0)" for a m
    using poll_loop_cost [of a m buf 0] by (intro spendsI) (simp add: add.assoc)
  then have "on_bus 1253 (unat ms * 1000 + 2500000)
      (and_then (map_err Hal (i2c_write H a w)) (\<lambda>_. and_then (modify (delay_ms H ms)) (\<lambda>_. poll_loop H a m buf 0)))" for a w m
    by - (rule spends_mono, (rule spends_intros bus_operations | assumption)+, simp_all)
  moreover have "(unat ms * 1000 + 2500000) * pu \<le> 2720000 * pu" using assms by (intro mult_le_mono1) simp
  ultimately show ?thesis unfolding run_command_ok [OF True] poll_for_response_def on_hal_and_then
    by (intro charged_on_hal) (assumption, simp add: bill_prices_of)
next
  case False
  then show ?thesis by (intro spendsI) (simp add: run_command_too_long)
qed

lemma charged_execute:
  assumes "unat ms \<le> 220"
  shows "charged 1 0 0 (execute_command H op p1 p2 data ms buf)"
    and "charged 1 0 0 (execute_command_status H op p1 p2 data ms)"
  unfolding execute_command_def execute_command_status_def
  by (rule spends_mono, (rule spends_intros charged_run_command [OF assms])+, simp, simp, simp)+

lemma charged_commands:
  "charged 1 0 0 (random H)" "charged 1 0 0 (info_revision H)"
  "charged 1 0 0 (counter_read H c)" "charged 1 0 0 (counter_increment H c)"
  "charged 1 0 0 (gendig H gz k)" "charged 1 0 0 (genkey_create H slot)"
  "charged 1 0 0 (genkey_public H slot)" "charged 1 0 0 (nonce_passthrough H target v)"
  "charged 1 0 0 (sign_external H slot)" "charged 1 0 0 (read_4 H z x)" "charged 1 0 0 (read_32 H z x)"
  "charged 1 0 0 (write_4 H z x d)" "charged 1 0 0 (write_32 H z x d)"
  "charged 1 0 0 (write_32_encrypted H z x d)" "charged 1 0 0 (lock_config_zone H crc)"
  "charged 1 0 0 (lock_data_zone H)" "charged 1 0 0 (lock_slot H slot)" "charged 1 0 0 (checkmac H slot ch r od)"
proof -
  have t: "unat EXEC_TIME_INFO_MS \<le> 220" "unat EXEC_TIME_RANDOM_MS \<le> 220" "unat EXEC_TIME_READ_MS \<le> 220"
    "unat EXEC_TIME_WRITE_MS \<le> 220" "unat EXEC_TIME_LOCK_MS \<le> 220" "unat EXEC_TIME_NONCE_MS \<le> 220"
    "unat EXEC_TIME_GENKEY_MS \<le> 220" "unat EXEC_TIME_SIGN_MS \<le> 220" "unat EXEC_TIME_COUNTER_MS \<le> 220"
    "unat EXEC_TIME_CHECKMAC_MS \<le> 220" "unat EXEC_TIME_GENDIG_MS \<le> 220"
    by code_simp+
  note charges = t [THEN charged_execute(1)] t [THEN charged_execute(2)]
  show "charged 1 0 0 (random H)" "charged 1 0 0 (info_revision H)"
    "charged 1 0 0 (counter_read H c)" "charged 1 0 0 (counter_increment H c)"
    "charged 1 0 0 (gendig H gz k)" "charged 1 0 0 (genkey_create H slot)"
    "charged 1 0 0 (genkey_public H slot)" "charged 1 0 0 (nonce_passthrough H target v)"
    "charged 1 0 0 (sign_external H slot)" "charged 1 0 0 (read_4 H z x)" "charged 1 0 0 (read_32 H z x)"
    "charged 1 0 0 (write_4 H z x d)" "charged 1 0 0 (write_32 H z x d)"
    "charged 1 0 0 (write_32_encrypted H z x d)" "charged 1 0 0 (lock_config_zone H crc)"
    "charged 1 0 0 (lock_data_zone H)" "charged 1 0 0 (lock_slot H slot)" "charged 1 0 0 (checkmac H slot ch r od)"
    unfolding command_defs counter_read_def counter_increment_def Let_def
    by (rule spends_mono, (rule spends_intros charges)+, simp, simp, simp)+
qed

lemma charged_loops:
  "charged (length bs) 0 0 (read_config_blocks H bs out)" "charged (length ws) 0 0 (write_words H b d ws)"
  "charged (length slots) 0 0 (regenerate_keys H slots)" "charged n 0 1 (bump_counter H c n)"
proof -
  show "charged (length bs) 0 0 (read_config_blocks H bs out)"
  proof (induction bs arbitrary: out)
    case (Cons b bs)
    show ?case unfolding read_config_blocks.simps Let_def
      by (rule spends_mono, (rule spends_intros charged_commands Cons.IH)+, simp_all)
  qed (simp add: spends_still)
  show "charged (length ws) 0 0 (write_words H b d ws)"
  proof (induction ws)
    case (Cons w ws)
    show ?case unfolding write_words.simps Let_def
      by (rule spends_mono, (rule spends_intros charged_commands Cons.IH)+, simp_all)
  qed (simp add: spends_still)
  show "charged (length slots) 0 0 (regenerate_keys H slots)"
  proof (induction slots)
    case (Cons i slots)
    show ?case unfolding regenerate_keys.simps
      by (rule spends_mono, (rule spends_intros charged_commands Cons.IH)+, simp_all)
  qed (simp add: spends_still)
  show "charged n 0 1 (bump_counter H c n)"
  proof (induction n)
    case (Suc n)
    show ?case unfolding bump_counter.simps
      by (rule spends_mono, (rule spends_intros charged_commands charged_channel Suc.IH)+, simp_all)
  qed (use charged_channel in simp)
qed

end

section \<open>The charge of each method\<close>

text \<open>How many commands a method may send and how many channels it may open and close.\<close>

fun commands_of :: "ServiceOp \<Rightarrow> nat" where
  "commands_of OpInfo = 9"
| "commands_of (OpReadConfigSlot _) = 4"
| "commands_of (OpReadConfigBlock _) = 4"
| "commands_of (OpWriteConfigBlock _ _) = 7"
| "commands_of (OpVerifyPin _) = 12"
| "commands_of (OpSetPin _ _ _) = 16"
| "commands_of (OpSetPuk _ _ _) = 21"
| "commands_of (OpUnblockPin _ _ _) = 26"
| "commands_of (OpEmergencyReset _) = 36"
| "commands_of OpProvisionInitialPuk = 6"
| "commands_of OpProvisionInitialPin = 5"
| "commands_of OpProvisionInitialIoKey = 2"
| "commands_of (OpSign _ _) = 2"
| "commands_of OpGetPinStatus = 2"
| "commands_of OpCloseSession = 0"
| "commands_of _ = 1"

fun channels_of :: "ServiceOp \<Rightarrow> nat" where
  "channels_of OpInfo = 3"
| "channels_of (OpVerifyPin _) = 4"
| "channels_of (OpSetPin _ _ _) = 5"
| "channels_of (OpSetPuk _ _ _) = 5"
| "channels_of (OpUnblockPin _ _ _) = 6"
| "channels_of (OpEmergencyReset _) = 9"
| "channels_of OpProvisionInitialPuk = 3"
| "channels_of OpProvisionInitialPin = 2"
| "channels_of OpProvisionInitialIoKey = 2"
| "channels_of OpCloseSession = 0"
| "channels_of _ = 1"

locale service_cost = bus_cost "env_hal E" weigh pt pu
  for E :: "('h, 'e, 'c) Env" and weigh :: "'h \<Rightarrow> nat" and pt pu :: nat
begin

abbreviation takes :: "nat \<Rightarrow> nat \<Rightarrow> (('h, 'c) CryptoService, 'x, 'a) act \<Rightarrow> bool" where
  "takes n k \<equiv> spends (prices_of pt pu) (\<lambda>s. weigh (hal (atecc s))) n k k"

lemma takes_on_atecc: "charged n k k m \<Longrightarrow> takes n k (on_atecc m)"
  by (simp add: spends_def on_atecc_def case_prod_beta)

lemma takes_in_channel:
  assumes "charged n 0 0 m"
  shows "takes n 1 (in_channel E m)" "takes n 1 (in_channel_always_closed E m)"
proof -
  show "takes n 1 (in_channel E m)" unfolding in_channel_def
    by (rule takes_on_atecc, rule spends_mono, (rule spends_intros charged_channel assms)+, simp_all)
  show "takes n 1 (in_channel_always_closed E m)" unfolding in_channel_always_closed_def
    by (rule takes_on_atecc, rule spends_mono, (rule spends_intros charged_channel assms)+, simp_all)
qed

lemma takes_host: "(\<And>s. atecc (f s) = atecc s) \<Longrightarrow> takes 0 0 (modify f)"
  by (rule spends_modify) simp

lemma takes_refresh:
  assumes "2 \<le> unat batch"
  shows "takes (unat batch) 1 (refresh_counter_batch E c batch)"
proof -
  have "charged (unat batch - 1) 0 1 (bump_counter (env_hal E) c (unat (refresh_bumps v batch)))" for v
    using refresh_bumps_target(2) [OF assms, of v]
    by (intro spends_mono [OF charged_loops(4)]) simp_all
  then have "charged (unat batch) 1 1 (and_then (open_channel (env_hal E)) (\<lambda>_. and_then (counter_read (env_hal E) c)
      (\<lambda>current. bump_counter (env_hal E) c (unat (refresh_bumps current batch)))))"
    using assms by - (rule spends_mono, (rule spends_intros charged_channel charged_commands | assumption)+, simp_all)
  then show ?thesis unfolding refresh_counter_batch_def Let_def by (rule takes_on_atecc)
qed

lemma takes_reads:
  "takes 1 1 (read_counter E c)" "takes 4 1 (read_whole_config E)" "takes 4 1 (cached_serial E)"
  "takes 1 1 (generate_random_puk E)" "takes 4 1 (write_slot_encrypted E slot p k sn)"
  "takes 0 0 (check_format code)" "takes 2 1 (checkmac_with_hash E slot v sn)"
  "takes 5 1 (refresh_counter_batch E c PIN_MAX_RETRIES)" "takes 10 1 (refresh_counter_batch E c PUK_MAX_RETRIES)"
  "takes 0 0 (open_session_now E)" "takes 0 0 (touch_session now)"
proof -
  show "takes 1 1 (read_counter E c)" unfolding read_counter_def by (intro takes_in_channel charged_commands)
  show w: "takes 4 1 (read_whole_config E)" unfolding read_whole_config_def read_config_zone_def
    by (rule spends_mono, rule takes_in_channel, rule charged_loops) (simp_all add: CONFIG_ZONE_BLOCK_COUNT_def)
  have h: "takes 0 0 (modify (\<lambda>s. s\<lparr>serial := x\<rparr>))" "takes 0 0 (modify (\<lambda>s. s\<lparr>session := f s\<rparr>))" for x f
    by (rule takes_host, simp)+
  show "takes 4 1 (cached_serial E)" unfolding cached_serial_def Let_def
    by (rule spends_mono, (rule spends_intros w h)+, simp_all)
  show "takes 1 1 (generate_random_puk E)" unfolding generate_random_puk_def
    by (rule spends_mono, (rule spends_intros takes_in_channel charged_commands)+, simp_all)
  show "takes 4 1 (write_slot_encrypted E slot p k sn)" unfolding write_slot_encrypted_def Let_def
    by (rule takes_in_channel, rule spends_mono, (rule spends_intros charged_commands)+, simp_all)
  show "takes 2 1 (checkmac_with_hash E slot v sn)" unfolding checkmac_with_hash_def Let_def
    by (rule takes_on_atecc, rule spends_mono, (rule spends_intros charged_commands charged_channel)+, simp_all)
  show "takes 5 1 (refresh_counter_batch E c PIN_MAX_RETRIES)" "takes 10 1 (refresh_counter_batch E c PUK_MAX_RETRIES)"
    using takes_refresh [of PIN_MAX_RETRIES c] takes_refresh [of PUK_MAX_RETRIES c]
    by (simp_all add: PIN_MAX_RETRIES_def PUK_MAX_RETRIES_def)
  show "takes 0 0 (check_format code)" unfolding check_format_def by (intro spends_map_err spends_still)
  show "takes 0 0 (touch_session now)" unfolding touch_session_def by (rule h)
  show "takes 0 0 (open_session_now E)" unfolding open_session_now_def
    by (rule spends_mono, (rule spends_intros h)+, simp_all)
qed

lemma takes_single:
  "takes 1 1 (get_pubkey E slot)" "takes 1 1 (service_genkey_create E slot)"
  "takes 1 1 (service_read_slot_block E slot b)" "takes 1 1 (service_read_slot_word E slot b off)"
  "takes 1 1 (service_lock_config_zone E crc)" "takes 1 1 (service_lock_data_zone E)"
  "takes 1 1 (service_lock_slot E slot)" "takes 1 1 (provision_slot E slot v)"
  unfolding get_pubkey_def service_genkey_create_def service_read_slot_block_def service_read_slot_word_def
    read_slot_block_def read_slot_word_def service_lock_config_zone_def service_lock_data_zone_def service_lock_slot_def
    provision_slot_def Let_def
  by (rule spends_mono, (rule spends_intros takes_in_channel charged_commands)+, simp, simp, simp)+

lemma takes_write_config_block: "takes 7 1 (write_config_block E b d)"
proof -
  have "length (writable_words_in_block b) \<le> 7" by (simp add: writable_words_in_block_def)
  then have "charged 7 0 0 (write_words (env_hal E) b d (writable_words_in_block b))"
    by (intro spends_mono [OF charged_loops(2)]) simp_all
  moreover have "charged 7 0 0 (write_32 (env_hal E) ZoneConfig x d)" for x
    by (rule spends_mono [OF charged_commands(13)]) simp_all
  ultimately have "takes 7 1 (in_channel E (if can_write_block_in_one_transfer b
      then write_32 (env_hal E) ZoneConfig (config_or_otp_address b 0) d
      else write_words (env_hal E) b d (writable_words_in_block b)))" by (intro takes_in_channel) simp
  then show ?thesis unfolding write_config_block_def
    by - (rule spends_mono, (rule spends_if spends_still | assumption)+, simp_all)
qed

lemma takes_keys: "takes 6 1 (in_channel E (regenerate_keys (env_hal E) [0, 1, 2, 3, 4, 7]))"
  by (rule spends_mono, rule takes_in_channel, rule charged_loops) simp_all

lemma takes_pairs:
  "takes 2 1 (in_channel E (and_then (counter_read (env_hal E) c) (\<lambda>v. and_then (counter_read (env_hal E) c') (\<lambda>v'. return_ok (v, v')))))"
  "takes 2 1 (in_channel E (and_then (nonce_passthrough (env_hal E) target digest) (\<lambda>_. sign_external (env_hal E) slot)))"
  by (rule takes_in_channel, rule spends_mono, (rule spends_intros charged_commands)+, simp, simp, simp)+

lemma takes_methods:
  "takes 9 3 (service_info E)" "takes 4 1 (read_config_slot E slot)" "takes 4 1 (read_config_block E b)"
  "takes 2 1 (get_pin_status E)" "takes 2 1 (service_sign E slot digest)"
  "takes 6 3 (provision_initial_puk E)" "takes 5 2 (provision_initial_pin E)" "takes 2 2 (provision_initial_io_key E)"
  "takes 12 4 (verify_pin E pin)" "takes 16 5 (set_pin E pin pin' k)" "takes 26 6 (unblock_pin E puk pin k)"
  "takes 21 5 (set_puk E puk puk' k)" "takes 36 9 (emergency_reset E k)"
  unfolding service_info_def is_provisioned_def read_config_slot_def read_config_block_def get_pin_status_def
    service_sign_def provision_initial_puk_def provision_initial_pin_def provision_initial_io_key_def verify_pin_def
    set_pin_def unblock_pin_def set_puk_def emergency_reset_def Let_def
  by (rule spends_mono, (rule spends_intros takes_reads takes_keys takes_single takes_pairs takes_in_channel charged_commands)+, simp, simp, simp)+

lemma takes_outcome: "takes n k m \<Longrightarrow> weigh (hal (atecc (snd (outcome m s)))) \<le> weigh (hal (atecc s)) + bill (prices_of pt pu) n k k"
  by (simp add: spends_def outcome_def case_prod_beta)

lemma perform_cost:
  "weigh (hal (atecc (snd (perform E oper s)))) \<le>
     weigh (hal (atecc s)) + bill (prices_of pt pu) (commands_of oper) (channels_of oper) (channels_of oper)"
proof (cases oper)
  case OpCloseSession
  then show ?thesis by (simp add: close_session_def)
qed (simp_all only: perform.simps commands_of.simps channels_of.simps takes_outcome takes_methods takes_single
    takes_reads takes_write_config_block)

end

section \<open>The RP2040 backend\<close>

fun waited :: "Transfer \<Rightarrow> nat" where
  "waited (Waited us) = unat us"
| "waited _ = 0"

fun is_transfer :: "Transfer \<Rightarrow> bool" where
  "is_transfer (Waited _) = False"
| "is_transfer _ = True"

definition total_wait_us :: "Transfer list \<Rightarrow> nat" where
  "total_wait_us xs = sum_list (map waited xs)"

definition transfer_count :: "Transfer list \<Rightarrow> nat" where
  "transfer_count xs = length (filter is_transfer xs)"

lemma totals_append [simp]:
  "total_wait_us (xs @ ys) = total_wait_us xs + total_wait_us ys"
  "transfer_count (xs @ ys) = transfer_count xs + transfer_count ys"
  by (simp_all add: total_wait_us_def transfer_count_def)

lemma totals_single [simp]: "total_wait_us [x] = waited x" "transfer_count [x] = of_bool (is_transfer x)"
  by (simp_all add: total_wait_us_def transfer_count_def)

lemma rp2040_waits:
  "unat (ucast (us :: u32) :: u64) = unat us" "unat (ucast ms * 1000 :: u64) = unat (ms :: u32) * 1000"
proof -
  have u: "unat (ucast (x :: u32) :: u64) = unat x" "unat x < 2 ^ 32" for x
    using unsigned_less [of x, where ?'a = nat] by (simp_all add: unsigned_ucast_eq take_bit_nat_eq_self)
  then show "unat (ucast us :: u64) = unat us" by simp
  have "unat ms * 1000 < 2 ^ 64" using u(2) [of ms] by simp
  then show "unat (ucast ms * 1000 :: u64) = unat ms * 1000" using u(1) [of ms] by (simp add: unat_word_ariths)
qed

lemmas rp2040_logging = rp2040_i2c_write_def rp2040_i2c_read_def rp2040_pulse rp2040_delay_us_def rp2040_delay_ms_def
  snd_map_err log_peripheral_sel rp2040_waits

interpretation rp2040_waiting: service_cost "rp2040_env (log_peripheral P) now sha" "\<lambda>h. total_wait_us (snd h)" 0 1
  for P now sha
  by unfold_locales (simp_all add: rp2040_logging)

interpretation rp2040_transfers: service_cost "rp2040_env (log_peripheral P) now sha" "\<lambda>h. transfer_count (snd h)" 1 0
  for P now sha
  by unfold_locales (simp_all add: rp2040_logging)

section \<open>Properties\<close>

text \<open>The two methods that may outlast the time-out of the host.\<close>

fun recovers :: "ServiceOp \<Rightarrow> bool" where
  "recovers (OpUnblockPin _ _ _) = True"
| "recovers (OpEmergencyReset _) = True"
| "recovers _ = False"

lemma perform_time:
  fixes s :: "('p \<times> Transfer list, 'c) CryptoService"
  obtains xs where "bus_trace (snd (perform (rp2040_env (log_peripheral P) now sha) oper s)) = bus_trace s @ xs"
    and "total_wait_us xs \<le> 2720000 * commands_of oper + 4500 * channels_of oper"
    and "transfer_count xs \<le> 1253 * commands_of oper + 3 * channels_of oper"
proof -
  let ?E = "rp2040_env (log_peripheral P) now sha"
  obtain xs where xs: "bus_trace (snd (perform ?E oper s)) = bus_trace s @ xs"
    using rp2040.perform_moves [of s P now sha oper] by (auto simp: svc_rel_def chan_rel_def properly_def bus_trace_def)
  moreover have "total_wait_us xs \<le> 2720000 * commands_of oper + 4500 * channels_of oper"
    using rp2040_waiting.perform_cost [of P now sha oper s] xs by (simp add: bus_trace_def bill_prices_of)
  moreover have "transfer_count xs \<le> 1253 * commands_of oper + 3 * channels_of oper"
    using rp2040_transfers.perform_cost [of P now sha oper s] xs by (simp add: bus_trace_def bill_prices_of)
  ultimately show thesis by (rule that)
qed

lemma quick_methods:
  "\<not> recovers oper \<Longrightarrow>
     2720000 * commands_of oper + 4500 * channels_of oper + (if is_sign oper then 30000000 else 0) < 60000000"
  by (cases oper) simp_all

text \<open>
  C15. The time that a report can take, whatever the bus and the chip do. A report that does not
  decode makes no transfer. Any other makes at most 1253 transfers for each command of its
  method and three for each channel, and waits at most 2.72 s for each command (220 ms of
  execution and 2.5 s of polling) and 4.5 ms for each channel. With the touch,
  the waits of a report stay below the 60 s for which the host waits, unless it unblocks the
  PIN or resets the token: the bounds of these two are 70.7 s and 98 s. The transfers are
  counted; how long each takes is up to the controller.
\<close>

theorem request_time_bound:
  assumes "length (tx_buf fw) = 128" and "serial_wf (service fw)"
  shows "\<exists>xs. bus_trace (service (snd (handle_one_request (rp2040_env (log_peripheral P) now sha) touch rx fw))) =
      bus_trace (service fw) @ xs \<and>
    (case decode_request rx of
       Inl _ \<Rightarrow> xs = []
     | Inr oper \<Rightarrow>
         total_wait_us xs \<le> 2720000 * commands_of oper + 4500 * channels_of oper \<and>
         transfer_count xs \<le> 1253 * commands_of oper + 3 * channels_of oper \<and>
         (\<not> recovers oper \<longrightarrow>
            total_wait_us xs + (if is_sign oper then unat TOUCH_TIMEOUT_MS * 1000 else 0) < 60000 * 1000))"
  using assms
proof (cases rule: request_cases [where E = "rp2040_env (log_peripheral P) now sha" and touch = touch and rx = rx])
  case (untouched status data ch c)
  then show ?thesis using quick_methods
    by (intro exI [of _ "[]"])
      (auto simp: bus_trace_def total_wait_us_def transfer_count_def TOUCH_TIMEOUT_MS_def split: sum.split)
next
  case (performed status data ch oper c)
  let ?s = "(service fw)\<lparr>clock := c\<rparr>"
  obtain xs where "bus_trace (snd (perform (rp2040_env (log_peripheral P) now sha) oper ?s)) = bus_trace ?s @ xs"
    "total_wait_us xs \<le> 2720000 * commands_of oper + 4500 * channels_of oper"
    "transfer_count xs \<le> 1253 * commands_of oper + 3 * channels_of oper"
    by (rule perform_time)
  with performed quick_methods [of oper] show ?thesis
    by (intro exI [of _ xs]) (auto simp: bus_trace_def TOUCH_TIMEOUT_MS_def)
qed

text \<open>A peripheral whose transfers all fail.\<close>

definition dead_peripheral :: "(unit, unit) Peripheral" where
  "dead_peripheral =
     \<lparr>write_async = (\<lambda>f a data p. (Inl (), p)), read_async = (\<lambda>f a n p. (Inl (), p)), timer_after = (\<lambda>us p. p)\<rparr>"

definition demo_board :: "(unit \<times> Transfer list, u64) Firmware" where
  "demo_board =
     \<lparr>service = CryptoService_new (Atecc_new ((), [])) 0, tx_buf = replicate REPORT_SIZE 0, channels = Channels_new\<rparr>"

theorem request_time_bound_witness:
  "\<exists>xs. bus_trace (service (snd (handle_one_request (rp2040_env (log_peripheral dead_peripheral) (\<lambda>c h. c) id)
       (\<lambda>ch c. (False, ch, c)) (report 0x15 [0] (replicate 124 0)) demo_board))) = xs \<and>
     total_wait_us xs \<le> 2724500 \<and> transfer_count xs \<le> 1256"
proof -
  let ?rx = "report 0x15 [0] (replicate 124 0)"
  have d: "decode_request ?rx = Inr (OpReadCounter Counter0)" by code_simp
  have w: "length (tx_buf demo_board) = 128" "serial_wf (service demo_board)" "bus_trace (service demo_board) = []"
    by (simp_all add: demo_board_def REPORT_SIZE_def report_sizes CryptoService_new_def serial_wf_def bus_trace_def
        Atecc_new_def Atecc_with_address_def)
  from request_time_bound [OF w(1,2), of dead_peripheral "\<lambda>c h. c" id "\<lambda>ch c. (False, ch, c)" ?rx] d w(3)
  show ?thesis by simp
qed

end
