(* ===== verification/Bus_Protocol.thy ===== *)
theory Bus_Protocol
  imports Dispatch_Policy "HOL-Library.Sublist"
begin

text \<open>
  The order of what the service does on the bus. A monitor beside the backend follows the
  wake, command and idle sequences: whether the chip has been woken, which digest is in its
  message buffer and what it was asked to sign. The driver asks its callers to close each
  channel (\<^verbatim>\<open>driver.rs\<close>, \<open>AteccChannel\<close>); the types of the source enforce only that no
  command is sent without one.
\<close>

section \<open>The monitor\<close>

datatype BusPhase = Released | Pulsed | Woken

record BusMonitor =
  phase :: BusPhase
  msg_dig :: "bytes option"
  out_of_turn :: bool
  sign_log :: "(u8 \<times> bytes option) list"

text \<open>
  A command packet is out of turn unless the chip has answered a wake. A digest counts as
  loaded only for the command right after its Nonce, so that nothing comes in between.
\<close>

definition monitor_command :: "bytes \<Rightarrow> BusMonitor \<Rightarrow> BusMonitor" where
  "monitor_command wire m =
     m\<lparr>out_of_turn := out_of_turn m \<or> phase m \<noteq> Woken,
       msg_dig := (if wire ! 2 = OP_NONCE \<and> wire ! 3 = 0x43 then Some (slice wire 6 (length wire - 2)) else None),
       sign_log := (if wire ! 2 = OP_SIGN then sign_log m @ [(wire ! 4, msg_dig m)] else sign_log m)\<rparr>"

definition monitor_write :: "bytes \<Rightarrow> bool \<Rightarrow> BusMonitor \<Rightarrow> BusMonitor" where
  "monitor_write wire ok m =
     (if wire = [WORD_ADDRESS_IDLE] \<or> wire = [WORD_ADDRESS_SLEEP]
      then (if ok then m\<lparr>phase := Released, msg_dig := None\<rparr> else m)
      else monitor_command wire m)"

definition monitor_pulse :: "bool \<Rightarrow> BusMonitor \<Rightarrow> BusMonitor" where
  "monitor_pulse ok m = (if ok then m\<lparr>phase := Pulsed, msg_dig := None\<rparr> else m)"

definition monitor_read :: "bytes option \<Rightarrow> BusMonitor \<Rightarrow> BusMonitor" where
  "monitor_read reply m =
     (if phase m = Pulsed \<and> reply = Some WAKE_RESPONSE_OK then m\<lparr>phase := Woken\<rparr> else m)"

type_synonym 'h watched = "'h \<times> BusMonitor"

definition watch :: "('h, 'e) AteccHal \<Rightarrow> ('h watched, 'e) AteccHal" where
  "watch H =
     \<lparr>i2c_write = (\<lambda>addr data (h, m). case i2c_write H addr data h of (r, h') \<Rightarrow> (r, h', monitor_write data (\<not> isl r) m)),
      i2c_read = (\<lambda>addr n (h, m). case i2c_read H addr n h of (r, h') \<Rightarrow>
        (r, h', monitor_read (case r of Inr cell \<Rightarrow> Some (map cell [0..<n]) | Inl _ \<Rightarrow> None) m)),
      pulse_sda_low = (\<lambda>us (h, m). case pulse_sda_low H us h of (r, h') \<Rightarrow> (r, h', monitor_pulse (\<not> isl r) m)),
      delay_us = (\<lambda>us (h, m). (delay_us H us h, m)),
      delay_ms = (\<lambda>ms (h, m). (delay_ms H ms h, m))\<rparr>"

definition watch_env :: "('h, 'e, 'c) Env \<Rightarrow> ('h watched, 'e, 'c) Env" where
  "watch_env E = \<lparr>env_hal = watch (env_hal E), now_ms = (\<lambda>c hm. now_ms E c (fst hm)), sha256 = sha256 E\<rparr>"

abbreviation chan_mon :: "'h watched Atecc \<Rightarrow> BusMonitor" where
  "chan_mon s \<equiv> snd (hal s)"

abbreviation svc_mon :: "('h watched, 'c) CryptoService \<Rightarrow> BusMonitor" where
  "svc_mon s \<equiv> snd (hal (atecc s))"

lemma watch_env_sel [simp]:
  "env_hal (watch_env E) = watch (env_hal E)" "sha256 (watch_env E) = sha256 E"
  "now_ms (watch_env E) c hm = now_ms E c (fst hm)"
  by (simp_all add: watch_env_def)

section \<open>What commands do to the monitor\<close>

lemma watch_sel [simp]:
  "snd (snd (i2c_write (watch H) addr data hm)) = monitor_write data (\<not> isl (fst (i2c_write H addr data (fst hm)))) (snd hm)"
  "snd (delay_us (watch H) us hm) = snd hm" "snd (delay_ms (watch H) ms hm) = snd hm"
  "phase (snd hm) = Woken \<Longrightarrow> snd (snd (i2c_read (watch H) addr n hm)) = snd hm"
  by (simp_all add: watch_def monitor_read_def case_prod_beta)

lemma monitor_write_command [simp]:
  "monitor_write (command_packet op p1 p2 data) ok = monitor_command (command_packet op p1 p2 data)"
  by (simp add: monitor_write_def command_packet_def command_frame_def with_crc_def fun_eq_iff)

lemma monitor_command_packet:
  "monitor_command (command_packet op p1 p2 data) m =
     m\<lparr>out_of_turn := out_of_turn m \<or> phase m \<noteq> Woken,
       msg_dig := (if op = OP_NONCE \<and> p1 = 0x43 then Some data else None),
       sign_log := (if op = OP_SIGN then sign_log m @ [(ucast p2, msg_dig m)] else sign_log m)\<rparr>"
  by (simp add: monitor_command_def command_packet_def command_frame_def with_crc_def
      u16_to_le_bytes_def slice_def)

lemma poll_monitor:
  assumes "phase (chan_mon s) = Woken"
  shows "chan_mon (snd (poll_for_response (watch H) buf s)) = chan_mon s"
proof -
  have "snd (snd (poll_loop (watch H) addr m buf el (hal s))) = snd (hal s)" for addr m el
    by (rule poll_loop_invariant [where I = "\<lambda>h. snd h = snd (hal s)"]) (simp_all add: assms)
  then show ?thesis by (simp add: poll_for_response_def on_hal_def case_prod_beta)
qed

lemma run_command_monitor:
  assumes "phase (chan_mon s) = Woken"
  shows "chan_mon (snd (run_command (watch H) op p1 p2 data ms buf s)) =
    (if length data \<le> 155 then monitor_command (command_packet op p1 p2 data) (chan_mon s) else chan_mon s)"
proof (cases "length data \<le> 155")
  case True
  let ?w = "on_hal (\<lambda>addr. map_err Hal (i2c_write (watch H) addr (command_packet op p1 p2 data)))"
  let ?p = "on_hal (\<lambda>_. modify (delay_ms (watch H) ms))"
  obtain r t where w: "?w s = (r, t)" by fastforce
  have t: "chan_mon t = monitor_command (command_packet op p1 p2 data) (chan_mon s)"
    using arg_cong [OF w, of "\<lambda>x. chan_mon (snd x)"]
    by (simp add: on_hal_def case_prod_beta map_err_def split: sum.splits)
  then have "phase (chan_mon t) = Woken" using assms by (simp add: monitor_command_packet)
  then have "phase (chan_mon (snd (?p t))) = Woken" "chan_mon (snd (?p t)) = chan_mon t"
    by (simp_all add: on_hal_def modify_def)
  with poll_monitor [of "snd (?p t)"] w t True show ?thesis
    by (cases r; cases "?p t") (simp_all add: run_command_ok command_packet_def [symmetric] and_then_def on_hal_def modify_def)
qed (simp add: run_command_too_long)

lemma execute_monitor:
  assumes "phase (chan_mon s) = Woken"
  shows "chan_mon (snd (execute_command (watch H) op p1 p2 data ms buf s)) =
      (if length data \<le> 155 then monitor_command (command_packet op p1 p2 data) (chan_mon s) else chan_mon s)"
    and "chan_mon (snd (execute_command_status (watch H) op p1 p2 data ms s)) =
      (if length data \<le> 155 then monitor_command (command_packet op p1 p2 data) (chan_mon s) else chan_mon s)"
  using run_command_monitor [OF assms, of H op p1 p2 data ms buf] run_command_monitor [OF assms, of H op p1 p2 data ms "replicate 4 0"]
  by (auto simp: execute_command_eq execute_command_status_eq
      split: prod.splits sum.splits ResponseFrame.splits option.splits)

section \<open>Within a channel\<close>

text \<open>
  \<open>orderly L\<close>: nothing was out of turn, and the chip was asked for the signatures \<open>L\<close>.
  \<open>awake L\<close>: the chip is awake besides. \<open>calm L p\<close>: it is released, or as it was before.
\<close>

definition orderly :: "(u8 \<times> bytes option) list \<Rightarrow> BusMonitor \<Rightarrow> bool" where
  "orderly L m \<longleftrightarrow> \<not> out_of_turn m \<and> sign_log m = L"

definition awake :: "(u8 \<times> bytes option) list \<Rightarrow> BusMonitor \<Rightarrow> bool" where
  "awake L m \<longleftrightarrow> orderly L m \<and> phase m = Woken"

definition calm :: "(u8 \<times> bytes option) list \<Rightarrow> BusPhase \<Rightarrow> BusMonitor \<Rightarrow> bool" where
  "calm L p m \<longleftrightarrow> orderly L m \<and> phase m \<in> {Released, p}"

definition stays :: "(BusMonitor \<Rightarrow> bool) \<Rightarrow> ('h watched, 'e, 'a) chan \<Rightarrow> bool" where
  "stays P m \<longleftrightarrow> (\<forall>s. P (chan_mon s) \<longrightarrow> P (chan_mon (snd (m s))))"

lemma staysD: "stays P m \<Longrightarrow> P (chan_mon s) \<Longrightarrow> m s = (r, t) \<Longrightarrow> P (chan_mon t)"
  by (metis snd_conv stays_def)

lemma stays_pure: "stays P (return_ok a)" "stays P (return_err e)" "stays P (of_result r)"
  by (simp_all add: stays_def act_defs)

lemma stays_and_then: "stays P m \<Longrightarrow> (\<And>a. stays P (f a)) \<Longrightarrow> stays P (and_then m f)"
  by (auto simp: stays_def and_then_def split: prod.splits sum.splits)

lemma stays_attempt: "stays P m \<Longrightarrow> stays P (attempt m)"
  by (auto simp: stays_def attempt_def split: prod.splits)

lemma stays_if: "stays P m \<Longrightarrow> stays P n \<Longrightarrow> stays P (if b then m else n)"
  by simp

lemmas stays_intros = stays_pure stays_and_then stays_attempt stays_if

lemma stays_execute:
  assumes "op \<noteq> OP_SIGN"
  shows "stays (awake L) (execute_command (watch H) op p1 p2 data ms buf)"
    and "stays (awake L) (execute_command_status (watch H) op p1 p2 data ms)"
  using assms by (auto simp: stays_def awake_def orderly_def execute_monitor monitor_command_packet)

lemma stays_commands:
  "stays (awake L) (random (watch H))" "stays (awake L) (info_revision (watch H))"
  "stays (awake L) (counter_read (watch H) c)" "stays (awake L) (counter_increment (watch H) c)"
  "stays (awake L) (gendig (watch H) gz k)" "stays (awake L) (genkey_create (watch H) slot)"
  "stays (awake L) (genkey_public (watch H) slot)" "stays (awake L) (nonce_passthrough (watch H) target v)"
  "stays (awake L) (read_4 (watch H) z x)" "stays (awake L) (read_32 (watch H) z x)"
  "stays (awake L) (write_4 (watch H) z x d)" "stays (awake L) (write_32 (watch H) z x d)"
  "stays (awake L) (write_32_encrypted (watch H) z x d)" "stays (awake L) (lock_config_zone (watch H) crc)"
  "stays (awake L) (lock_data_zone (watch H))" "stays (awake L) (lock_slot (watch H) slot)"
  "stays (awake L) (checkmac (watch H) slot ch r od)"
  "stays (awake L) (read_slot_block (watch H) slot b)" "stays (awake L) (read_slot_word (watch H) slot b off)"
  unfolding command_defs counter_read_def counter_increment_def Let_def
  by (intro stays_intros stays_execute; simp add: opcode_defs)+

lemma stays_loops:
  "stays (awake L) (read_config_blocks (watch H) bs out)" "stays (awake L) (write_words (watch H) b d ws)"
  "stays (awake L) (regenerate_keys (watch H) slots)"
proof -
  show "stays (awake L) (read_config_blocks (watch H) bs out)"
    by (induction bs arbitrary: out) (auto intro!: stays_intros stays_commands)
  show "stays (awake L) (write_words (watch H) b d ws)"
    by (induction ws) (auto simp: Let_def intro!: stays_intros stays_commands)
  show "stays (awake L) (regenerate_keys (watch H) slots)"
    by (induction slots) (auto intro!: stays_intros stays_commands)
qed

text \<open>Opening and closing.\<close>

lemma watch_pulse_read:
  assumes "pulse_sda_low (watch H) us hm = (r, hm')"
  shows "snd hm' = monitor_pulse (\<not> isl r) (snd hm)"
  using assms by (auto simp: watch_def case_prod_beta split: prod.splits)

lemma read_exact_monitor:
  assumes "read_exact (watch H) addr n hm = (r, hm')"
  shows "snd hm' = monitor_read (case r of Inl _ \<Rightarrow> None | Inr bs \<Rightarrow> Some bs) (snd hm)"
  using assms by (auto simp: read_exact_def and_then_def map_err_def return_ok_def watch_def case_prod_beta split: sum.splits)

lemma open_channel_monitor:
  assumes "open_channel (watch H) s = (r, t)" and "orderly L (chan_mon s)"
  shows "orderly L (chan_mon t)" and "r = Inr () \<Longrightarrow> awake L (chan_mon t)"
proof -
  from assms(1) obtain hm' where w: "wake (watch H) (device_addr s) (hal s) = (r, hm')" and t: "hal t = hm'"
    by (auto simp: open_channel_def on_hal_def split: prod.splits)
  obtain p h1 where p: "pulse_sda_low (watch H) WAKE_LOW_DURATION_US (hal s) = (p, h1)" by (rule prod.exhaust)
  note m1 = watch_pulse_read [OF p]
  have "orderly L (snd hm') \<and> (r = Inr () \<longrightarrow> awake L (snd hm'))"
  proof (cases p)
    case (Inl e)
    with w p m1 assms(2) show ?thesis by (auto simp: wake_def and_then_def map_err_def monitor_pulse_def)
  next
    case (Inr u)
    obtain q h2 where q: "read_exact (watch H) (device_addr s) 4 (delay_us (watch H) WAKE_DELAY_US h1) = (q, h2)" by (rule prod.exhaust)
    have m2: "snd h2 = monitor_read (case q of Inl _ \<Rightarrow> None | Inr bs \<Rightarrow> Some bs) (monitor_pulse True (snd (hal s)))"
      using read_exact_monitor [OF q] m1 Inr by simp
    with w p q Inr assms(2) show ?thesis
      by (auto simp: wake_def and_then_def map_err_def modify_def return_ok_def return_err_def monitor_pulse_def monitor_read_def
          awake_def orderly_def split: sum.splits if_splits)
  qed
  with t show "orderly L (chan_mon t)" "r = Inr () \<Longrightarrow> awake L (chan_mon t)" by simp_all
qed

lemma close_monitor:
  assumes "close (watch H) s = (r, t)"
  shows "chan_mon t = (if isl r then chan_mon s else (chan_mon s)\<lparr>phase := Released, msg_dig := None\<rparr>)"
  using assms
  by (auto simp: close_def on_hal_def idle_def map_err_def monitor_write_def watch_def case_prod_beta split: sum.splits prod.splits)

text \<open>
  \<open>closes L m\<close>: from an awake chip, \<open>m\<close> sends nothing out of turn and leaves the chip
  released if it succeeds.
\<close>

definition closes :: "(u8 \<times> bytes option) list \<Rightarrow> ('h watched, 'e, 'a) chan \<Rightarrow> bool" where
  "closes L m \<longleftrightarrow>
     (\<forall>s r t. awake L (chan_mon s) \<longrightarrow> m s = (r, t) \<longrightarrow>
        orderly L (chan_mon t) \<and> (isl r \<or> phase (chan_mon t) = Released))"

lemma closesI:
  "(\<And>s r t. awake L (chan_mon s) \<Longrightarrow> m s = (r, t) \<Longrightarrow> orderly L (chan_mon t) \<and> (isl r \<or> phase (chan_mon t) = Released)) \<Longrightarrow>
     closes L m"
  by (simp add: closes_def)

lemma closesD:
  "closes L m \<Longrightarrow> awake L (chan_mon s) \<Longrightarrow> m s = (r, t) \<Longrightarrow> orderly L (chan_mon t) \<and> (isl r \<or> phase (chan_mon t) = Released)"
  by (simp add: closes_def)

lemma closes_close:
  "closes L (close (watch H))" "closes L (and_then (close (watch H)) (\<lambda>_. of_result r))"
  "closes L (and_then (close (watch H)) (\<lambda>_. return_ok a))"
  "closes L (and_then (attempt (close (watch H))) (\<lambda>_. return_err e))"
  by (auto simp: closes_def and_then_def attempt_def return_ok_def return_err_def of_result_def awake_def orderly_def
      split: prod.splits sum.splits if_splits dest!: close_monitor)

lemma closes_and_then:
  assumes "stays (awake L) m" and "\<And>a. closes L (f a)"
  shows "closes L (and_then m f)"
proof (rule closesI)
  fix s r t
  assume a: "awake L (chan_mon s)" and t: "and_then m f s = (r, t)"
  obtain q u where m: "m s = (q, u)" by (rule prod.exhaust)
  have "awake L (chan_mon u)" using staysD [OF assms(1) a m] .
  with m t closesD [OF assms(2), of u] show "orderly L (chan_mon t) \<and> (isl r \<or> phase (chan_mon t) = Released)"
    by (cases q) (auto simp: and_then_def awake_def)
qed

lemma closes_bump_counter: "closes L (bump_counter (watch H) c n)"
proof (induction n)
  case (Suc n)
  have "closes L (case r of Inr _ \<Rightarrow> bump_counter (watch H) c n
      | Inl e \<Rightarrow> if e = Chip ExecutionError then close (watch H) else and_then (attempt (close (watch H))) (\<lambda>_. return_err e))" for r
    using Suc by (simp add: closes_close split: sum.split)
  then show ?case unfolding bump_counter.simps by (intro closes_and_then stays_attempt stays_commands)
qed (simp add: closes_close)

section \<open>The methods\<close>

text \<open>
  \<open>calmly L p m\<close>: nothing out of turn and no signature besides \<open>L\<close>; if \<open>m\<close> succeeds, the chip
  is released or in the phase \<open>p\<close> from before.
\<close>

definition calmly ::
  "(u8 \<times> bytes option) list \<Rightarrow> BusPhase \<Rightarrow> ('h watched, 'e, 'c, 'a) svc \<Rightarrow> bool" where
  "calmly L p m \<longleftrightarrow>
     (\<forall>s r t. calm L p (svc_mon s) \<longrightarrow> m s = (r, t) \<longrightarrow>
        orderly L (svc_mon t) \<and> (isl r \<or> calm L p (svc_mon t)))"

lemma calmlyD:
  "calmly L p m \<Longrightarrow> calm L p (svc_mon s) \<Longrightarrow> m s = (r, t) \<Longrightarrow> orderly L (svc_mon t) \<and> (isl r \<or> calm L p (svc_mon t))"
  by (simp add: calmly_def)

lemma calmly_still: "(\<And>s. svc_mon (snd (m s)) = svc_mon s) \<Longrightarrow> calmly L p m"
  by (auto simp: calmly_def calm_def) (metis snd_conv)+

lemma calmly_pure:
  "calmly L p (return_ok a)" "calmly L p (return_err e)" "calmly L p (of_result r)" "calmly L p (gets g)"
  "calmly L p (check_format code)"
  by (rule calmly_still, simp add: act_defs check_format_def case_prod_beta split: sum.split)+

lemma calmly_host: "(\<And>s. atecc (g s) = atecc s) \<Longrightarrow> calmly L p (modify g)"
  by (rule calmly_still) (simp add: modify_def)

lemma calmly_and_then:
  assumes "calmly L p m" and "\<And>a. calmly L p (f a)"
  shows "calmly L p (and_then m f)"
  unfolding calmly_def
proof (intro allI impI)
  fix s r t
  assume a: "calm L p (svc_mon s)" and t: "and_then m f s = (r, t)"
  obtain q u where m: "m s = (q, u)" by (rule prod.exhaust)
  from calmlyD [OF assms(1) a m] calmlyD [OF assms(2), of u] m t
  show "orderly L (svc_mon t) \<and> (isl r \<or> calm L p (svc_mon t))"
    by (cases q) (auto simp: and_then_def)
qed

lemma calmly_cases:
  "calmly L p m \<Longrightarrow> calmly L p n \<Longrightarrow> calmly L p (if b then m else n)"
  "calmly L p m \<Longrightarrow> (\<And>a. calmly L p (f a)) \<Longrightarrow> calmly L p (case x of None \<Rightarrow> m | Some a \<Rightarrow> f a)"
  "(\<And>a b. calmly L p (g a b)) \<Longrightarrow> calmly L p (case y of (a, b) \<Rightarrow> g a b)"
  by (simp_all split: option.split prod.split)

lemma calmly_bracket:
  assumes "closes L m"
  shows "calmly L p (on_atecc (and_then (open_channel (watch H)) (\<lambda>_. m)))"
  unfolding calmly_def
proof (intro allI impI)
  fix s r t
  assume a: "calm L p (svc_mon s)" and t: "on_atecc (and_then (open_channel (watch H)) (\<lambda>_. m)) s = (r, t)"
  obtain q u where o: "open_channel (watch H) (atecc s) = (q, u)" by (rule prod.exhaust)
  from a have "orderly L (chan_mon (atecc s))" by (simp add: calm_def)
  note o' = open_channel_monitor [OF o this]
  obtain r' t' where m: "m u = (r', t')" by (rule prod.exhaust)
  show "orderly L (svc_mon t) \<and> (isl r \<or> calm L p (svc_mon t))"
  proof (cases q)
    case (Inl e)
    with t o o' show ?thesis by (auto simp: on_atecc_def and_then_def)
  next
    case (Inr x)
    with t o m closesD [OF assms o'(2) m] show ?thesis by (auto simp: on_atecc_def and_then_def calm_def isl_map_sum)
  qed
qed

lemma calmly_in_channel:
  assumes "stays (awake L) m"
  shows "calmly L p (in_channel (watch_env E) m)" and "calmly L p (in_channel_always_closed (watch_env E) m)"
  unfolding in_channel_def in_channel_always_closed_def watch_env_sel
  by (intro calmly_bracket closes_and_then closes_close stays_attempt assms)+

lemmas calmly_intros = calmly_pure calmly_and_then calmly_cases calmly_in_channel

lemma calmly_workflows:
  "calmly L p (read_counter (watch_env E) c)" "calmly L p (read_whole_config (watch_env E))"
  "calmly L p (cached_serial (watch_env E))" "calmly L p (generate_random_puk (watch_env E))"
  "calmly L p (write_slot_encrypted (watch_env E) slot v k sn)" "calmly L p (checkmac_with_hash (watch_env E) slot v sn)"
  "calmly L p (refresh_counter_batch (watch_env E) c n)" "calmly L p (open_session_now (watch_env E))"
  "calmly L p (touch_session now)"
proof -
  show w: "calmly L p (read_whole_config (watch_env E))" unfolding read_whole_config_def read_config_zone_def watch_env_sel
    by (intro calmly_in_channel stays_loops)
  show "calmly L p (cached_serial (watch_env E))" unfolding cached_serial_def Let_def
    by (intro calmly_intros w calmly_host) simp
  show "calmly L p (read_counter (watch_env E) c)" "calmly L p (generate_random_puk (watch_env E))"
    "calmly L p (write_slot_encrypted (watch_env E) slot v k sn)"
    unfolding read_counter_def generate_random_puk_def write_slot_encrypted_def Let_def watch_env_sel
    by (intro calmly_intros stays_intros stays_commands)+
  show "calmly L p (checkmac_with_hash (watch_env E) slot v sn)" "calmly L p (refresh_counter_batch (watch_env E) c n)"
    unfolding checkmac_with_hash_def refresh_counter_batch_def Let_def watch_env_sel
    by (intro calmly_bracket closes_and_then closes_close closes_bump_counter stays_attempt stays_commands)+
  show "calmly L p (open_session_now (watch_env E))" "calmly L p (touch_session now)"
    unfolding open_session_now_def touch_session_def by (intro calmly_intros calmly_host; simp)+
qed

lemmas calmly_rules = calmly_intros calmly_workflows

lemma calmly_provision_slot: "calmly L p (provision_slot (watch_env E) slot v)"
  unfolding provision_slot_def Let_def watch_env_sel by (intro calmly_rules stays_commands)

lemma calmly_methods:
  "calmly L p (service_info (watch_env E))" "calmly L p (get_pubkey (watch_env E) slot)"
  "calmly L p (service_genkey_create (watch_env E) slot)" "calmly L p (read_config_slot (watch_env E) slot)"
  "calmly L p (read_config_block (watch_env E) b)" "calmly L p (write_config_block (watch_env E) b d)"
  "calmly L p (service_read_slot_block (watch_env E) slot b)" "calmly L p (service_read_slot_word (watch_env E) slot b off)"
  "calmly L p (get_pin_status (watch_env E))" "calmly L p (service_lock_config_zone (watch_env E) crc)"
  "calmly L p (service_lock_data_zone (watch_env E))" "calmly L p (service_lock_slot (watch_env E) slot)"
  "calmly L p (provision_initial_puk (watch_env E))" "calmly L p (provision_initial_pin (watch_env E))"
  "calmly L p (provision_initial_io_key (watch_env E))"
  unfolding service_info_def is_provisioned_def get_pubkey_def service_genkey_create_def read_config_slot_def
    read_config_block_def write_config_block_def service_read_slot_block_def service_read_slot_word_def get_pin_status_def
    service_lock_config_zone_def service_lock_data_zone_def service_lock_slot_def provision_initial_puk_def
    provision_initial_pin_def provision_initial_io_key_def Let_def watch_env_sel
  by (intro calmly_rules calmly_provision_slot stays_intros stays_commands stays_loops)+

lemma calmly_pin_methods:
  "calmly L p (verify_pin (watch_env E) c)" "calmly L p (unblock_pin (watch_env E) c n k)"
  "calmly L p (set_pin (watch_env E) c n k)" "calmly L p (set_puk (watch_env E) c n k)"
  "calmly L p (emergency_reset (watch_env E) k)"
  unfolding verify_pin_def unblock_pin_def set_pin_def set_puk_def emergency_reset_def Let_def watch_env_sel
  by (intro calmly_rules stays_loops)+

text \<open>Signing: the digest goes into the message buffer and the next command signs it.\<close>

lemma ucast_u16_u8: "ucast (ucast (b :: u8) :: u16) = b"
  by (rule bit_word_eqI) (simp add: bit_unsigned_iff)

lemma sign_body_monitor:
  assumes "and_then (nonce_passthrough (watch H) MsgDigBuf digest) (\<lambda>_. sign_external (watch H) slot) s = (r, t)"
    and a: "awake L (chan_mon s)"
  shows "isl r \<and> awake L (chan_mon t) \<or> awake (L @ [(slot_as_u8 slot, Some digest)]) (chan_mon t)"
proof -
  obtain q u where n: "nonce_passthrough (watch H) MsgDigBuf digest s = (q, u)" by (rule prod.exhaust)
  have w: "phase (chan_mon s) = Woken" using a by (simp add: awake_def)
  have au: "awake L (chan_mon u)" using staysD [OF stays_commands(8) a n] .
  show ?thesis
  proof (cases q)
    case (Inl e)
    with assms(1) n au show ?thesis by (auto simp: and_then_def)
  next
    case (Inr x)
    then have "length digest \<le> 155" using n
      by (cases "length digest \<le> 155")
        (simp_all add: nonce_passthrough_def execute_command_status_def and_then_def run_command_too_long)
    with execute_monitor(2) [OF w, where H = H and op = OP_NONCE and ?p1.0 = "0x43" and ?p2.0 = 0 and data = digest and ms = EXEC_TIME_NONCE_MS] n
    have d: "msg_dig (chan_mon u) = Some digest"
      by (simp add: nonce_passthrough_def NONCE_MODE_PASSTHROUGH_def NONCE_TARGET_MSGDIGBUF_def monitor_command_packet)
    from au have wu: "phase (chan_mon u) = Woken" by (simp add: awake_def)
    have "chan_mon (snd (sign_external (watch H) slot u)) =
        monitor_command (command_packet OP_SIGN SIGN_MODE_EXTERNAL_FROM_MSGDIGBUF (slot_param2 slot) []) (chan_mon u)"
      using execute_monitor(1) [OF wu, where H = H and op = OP_SIGN and ?p1.0 = SIGN_MODE_EXTERNAL_FROM_MSGDIGBUF and
          ?p2.0 = "slot_param2 slot" and data = "[]" and ms = EXEC_TIME_SIGN_MS and buf = "replicate (1 + SIGNATURE_SIZE + 2) 0"]
      by (auto simp: sign_external_def and_then_def of_result_def split: prod.splits sum.splits)
    with assms(1) n Inr au d show ?thesis
      by (auto simp: and_then_def awake_def orderly_def monitor_command_packet slot_param2_def ucast_u16_u8)
  qed
qed

lemma service_sign_monitor:
  assumes "service_sign (watch_env E) slot digest s = (r, t)" and "calm L p (svc_mon s)"
  shows "isl r \<and> orderly L (svc_mon t) \<or>
    orderly (L @ [(slot_as_u8 slot, Some digest)]) (svc_mon t) \<and> (isl r \<or> phase (svc_mon t) = Released)"
proof -
  let ?b = "and_then (nonce_passthrough (watch (env_hal E)) MsgDigBuf digest) (\<lambda>_. sign_external (watch (env_hal E)) slot)"
  obtain q u where c: "in_channel (watch_env E) ?b s = (q, u)" by (rule prod.exhaust)
  obtain o' a1 where o: "open_channel (watch (env_hal E)) (atecc s) = (o', a1)" by (rule prod.exhaust)
  obtain b a2 where b: "?b a1 = (b, a2)" by (rule prod.exhaust)
  obtain cl a3 where cl: "close (watch (env_hal E)) a2 = (cl, a3)" by (rule prod.exhaust)
  from assms(2) have "orderly L (chan_mon (atecc s))" by (simp add: calm_def)
  note opened = open_channel_monitor [OF o this]
  have "isl q \<and> orderly L (svc_mon u) \<or>
      orderly (L @ [(slot_as_u8 slot, Some digest)]) (svc_mon u) \<and> (isl q \<or> phase (svc_mon u) = Released)"
  proof (cases o')
    case (Inl e)
    with c o opened show ?thesis by (auto simp: in_channel_def on_atecc_def and_then_def)
  next
    case (Inr x)
    with sign_body_monitor [OF b opened(2)] close_monitor [OF cl] c o b cl show ?thesis
      by (cases b; cases cl) (auto simp: in_channel_def on_atecc_def and_then_def return_ok_def awake_def orderly_def)
  qed
  with assms c show ?thesis
    by (cases q) (auto simp: service_sign_def and_then_def gets_def return_err_def return_ok_def touch_session_def modify_def calm_def
        split: if_splits)
qed

definition sign_requests :: "ServiceOp \<Rightarrow> (u8 \<times> bytes option) list" where
  "sign_requests oper = (case oper of OpSign slot digest \<Rightarrow> [(slot_as_u8 slot, Some digest)] | _ \<Rightarrow> [])"

lemma calmly_outcome:
  assumes "calmly L p m" and "calm L p (svc_mon s)" and "outcome m s = (ok, t)"
  shows "orderly L (svc_mon t) \<and> (ok \<longrightarrow> calm L p (svc_mon t))"
  using assms calmlyD [OF assms(1,2), of "fst (m s)" t] by (auto simp: outcome_def case_prod_beta)

lemmas method_outcomes = calmly_methods [THEN calmly_outcome] calmly_pin_methods [THEN calmly_outcome]
  calmly_provision_slot [THEN calmly_outcome] calmly_workflows(1) [THEN calmly_outcome]

lemma perform_monitor:
  assumes "calm L p (svc_mon s)" and "perform (watch_env E) oper s = (ok, t)"
  shows "(\<not> ok \<and> orderly L (svc_mon t) \<or> orderly (L @ sign_requests oper) (svc_mon t)) \<and>
    (ok \<longrightarrow> calm (L @ sign_requests oper) p (svc_mon t))"
proof (cases oper)
  case (OpSign slot digest)
  with assms service_sign_monitor [OF _ assms(1), of E slot digest "fst (service_sign (watch_env E) slot digest s)" t]
  show ?thesis by (auto simp: outcome_def case_prod_beta sign_requests_def calm_def)
next
  case OpCloseSession
  with assms show ?thesis by (auto simp: sign_requests_def close_session_def calm_def)
qed (use assms(2) in \<open>auto simp: sign_requests_def dest: method_outcomes [OF assms(1)]\<close>)

section \<open>A channel that is dropped\<close>

lemma channel_not_Chip: "open_channel H a \<noteq> (Inl (Chip e), b)" "close H a \<noteq> (Inl (Chip e), b)"
proof -
  have "wake H addr h \<noteq> (Inl (Chip e), h')" for addr h h'
    by (auto simp: wake_def read_exact_def and_then_def map_err_def modify_def return_ok_def return_err_def
        split: prod.splits sum.splits if_splits)
  then show "open_channel H a \<noteq> (Inl (Chip e), b)" "close H a \<noteq> (Inl (Chip e), b)"
    by (auto simp: open_channel_def close_def idle_def on_hal_def map_err_def split: prod.splits sum.splits)
qed

lemma in_channel_Chip:
  assumes "in_channel E m s = (Inl (AteccFailure (Chip e)), t)"
  obtains a where "open_channel (env_hal E) (atecc s) = (Inr (), a)" and "m a = (Inl (Chip e), atecc t)"
proof -
  from assms channel_not_Chip [of "env_hal E"] that show thesis
    by (auto simp: in_channel_def on_atecc_def and_then_def return_ok_def map_sum_def split: sum.splits prod.splits)
qed

text \<open>A failed command leaves the chip awake; the lock methods close first and then look at the result.\<close>

lemma in_channel_Chip_awake:
  assumes "in_channel (watch_env E) m s = (Inl (AteccFailure (Chip e)), t)" and "\<not> out_of_turn (svc_mon s)"
    and "\<And>L u r v. awake L (chan_mon u) \<Longrightarrow> m u = (r, v) \<Longrightarrow> phase (chan_mon v) = Woken"
  shows "phase (svc_mon t) = Woken"
proof -
  from assms(1) obtain a where a: "open_channel (watch (env_hal E)) (atecc s) = (Inr (), a)" "m a = (Inl (Chip e), atecc t)"
    by (rule in_channel_Chip) simp
  have "awake (sign_log (svc_mon s)) (chan_mon a)"
    using open_channel_monitor(2) [OF a(1)] assms(2) by (simp add: orderly_def)
  from assms(3) [OF this a(2)] show ?thesis .
qed

lemma stays_Woken: "stays (awake L) m \<Longrightarrow> awake L (chan_mon u) \<Longrightarrow> m u = (r, v) \<Longrightarrow> phase (chan_mon v) = Woken"
  by (drule (2) staysD) (simp add: awake_def)

lemma service_sign_Chip:
  assumes "service_sign E slot digest s = (Inl (AteccFailure (Chip e)), t)"
  shows "in_channel E (and_then (nonce_passthrough (env_hal E) MsgDigBuf digest) (\<lambda>_. sign_external (env_hal E) slot)) s =
    (Inl (AteccFailure (Chip e)), t)"
  using assms
  by (auto simp: service_sign_def and_then_def [of "in_channel _ _"] and_then_def [of "gets _"] gets_def touch_session_def modify_def
      and_then_def [of "modify _"] return_ok_def return_err_def split: if_splits prod.splits sum.splits)

lemma always_closed_Chip_released:
  assumes "in_channel_always_closed (watch_env E) m s = (Inl (AteccFailure (Chip e)), t)"
  shows "phase (svc_mon t) = Released"
  using assms channel_not_Chip [of "watch (env_hal E)"]
  by (auto simp: in_channel_always_closed_def on_atecc_def and_then_def attempt_def of_result_def map_sum_def
      split: sum.splits prod.splits dest!: close_monitor)

section \<open>Runs of the dispatch loop\<close>

text \<open>
  The signatures that a report may ask for: one if it decodes to a signature request, the
  session is active and the touch is confirmed, none otherwise. \<open>serving E fw qs fw'\<close>: reports
  and activity of the other tasks lead from \<open>fw\<close> to \<open>fw'\<close>, and \<open>qs\<close> was asked for.
\<close>

definition asked_for ::
  "('h, 'e, 'c) Env \<Rightarrow> (Channels \<Rightarrow> 'c \<Rightarrow> bool \<times> Channels \<times> 'c) \<Rightarrow> bytes \<Rightarrow> ('h, 'c) Firmware \<Rightarrow> (u8 \<times> bytes option) list" where
  "asked_for E touch rx fw =
     (case decode_request rx of
        Inl _ \<Rightarrow> []
      | Inr oper \<Rightarrow>
          if is_session_active E (service fw) \<and> fst (touch (channels (requesting_touch fw)) (clock (service fw)))
          then sign_requests oper else [])"

inductive serving ::
  "('h, 'e, 'c) Env \<Rightarrow> ('h, 'c) Firmware \<Rightarrow> (u8 \<times> bytes option) list \<Rightarrow> ('h, 'c) Firmware \<Rightarrow> bool" for E where
  start: "serving E fw [] fw"
| request: "serving E fw qs fw1 \<Longrightarrow> handle_one_request E touch rx fw1 = (n, fw2) \<Longrightarrow>
     serving E fw (qs @ asked_for E touch rx fw1) fw2"
| environment: "serving E fw qs fw1 \<Longrightarrow> atecc (service fw2) = atecc (service fw1) \<Longrightarrow>
     serial (service fw2) = serial (service fw1) \<Longrightarrow> tx_buf fw2 = tx_buf fw1 \<Longrightarrow> serving E fw qs fw2"

lemma not_sign_requests: "\<not> is_sign oper \<Longrightarrow> sign_requests oper = []"
  by (cases oper) (simp_all add: sign_requests_def)

lemma request_monitor:
  assumes w: "length (tx_buf fw) = 128" "serial_wf (service fw)" and l: "\<not> out_of_turn (svc_mon (service fw))"
    and h: "handle_one_request (watch_env E) touch rx fw = (n, fw')"
  shows "length (tx_buf fw') = 128 \<and> serial_wf (service fw') \<and> \<not> out_of_turn (svc_mon (service fw')) \<and>
    (\<exists>xs. sign_log (svc_mon (service fw')) = sign_log (svc_mon (service fw)) @ xs \<and>
       subseq xs (asked_for (watch_env E) touch rx fw))"
proof (cases "\<exists>slot digest. decode_request rx = Inr (OpSign slot digest) \<and> \<not> is_session_active (watch_env E) (service fw)")
  case True
  then obtain slot digest where "decode_request rx = Inr (OpSign slot digest)" "\<not> is_session_active (watch_env E) (service fw)"
    by blast
  from handle_one_request_sign_refused [OF w(1) this, of touch] h w l show ?thesis by auto
next
  case False
  from w show ?thesis
  proof (cases rule: request_cases [where E = "watch_env E" and touch = touch and rx = rx])
    case (untouched status data ch c)
    with h w l show ?thesis by (auto simp: serial_wf_def)
  next
    case (performed status data ch oper c)
    let ?s = "(service fw)\<lparr>clock := c\<rparr>"
    obtain ok t where p: "perform (watch_env E) oper ?s = (ok, t)" by (rule prod.exhaust)
    have "calm (sign_log (svc_mon (service fw))) (phase (svc_mon (service fw))) (svc_mon ?s)"
      using l by (simp add: calm_def orderly_def)
    from perform_monitor [OF this p] have "\<not> out_of_turn (svc_mon t) \<and>
        (\<exists>xs. sign_log (svc_mon t) = sign_log (svc_mon (service fw)) @ xs \<and> subseq xs (sign_requests oper))"
      by (auto simp: orderly_def)
    moreover have "asked_for (watch_env E) touch rx fw = sign_requests oper"
      using performed(3,4) False
      by (cases "is_sign oper") (auto simp: asked_for_def not_sign_requests elim: is_sign.elims)
    moreover have "serial_wf t" using perform_serial_wf [of ?s "watch_env E" oper] w(2) p by (simp add: serial_wf_def)
    ultimately show ?thesis using h performed(1,2) p by auto
  qed
qed

lemma serving_monitor:
  assumes "serving (watch_env E) fw qs fw'" and "length (tx_buf fw) = 128" and "serial_wf (service fw)"
    and "\<not> out_of_turn (svc_mon (service fw))"
  shows "length (tx_buf fw') = 128 \<and> serial_wf (service fw') \<and> \<not> out_of_turn (svc_mon (service fw')) \<and>
    (\<exists>xs. sign_log (svc_mon (service fw')) = sign_log (svc_mon (service fw)) @ xs \<and> subseq xs qs)"
  using assms
proof (induction rule: serving.induct)
  case (request fw qs fw1 touch rx n fw2)
  then have i: "length (tx_buf fw1) = 128" "serial_wf (service fw1)" "\<not> out_of_turn (svc_mon (service fw1))"
    "\<exists>xs. sign_log (svc_mon (service fw1)) = sign_log (svc_mon (service fw)) @ xs \<and> subseq xs qs" by simp_all
  from request_monitor [OF i(1-3) request.hyps(2)] i(4) show ?case by (auto intro: list_emb_append_mono)
qed (auto simp: serial_wf_def)

section \<open>Properties\<close>

text \<open>
  C13. The order on the bus. Whatever the chip answers and wherever a method fails, no command
  is sent unless the chip has answered a wake since it was last released. A method
  that succeeds leaves the chip released, or as it was if it needed no channel. Sign is sent
  by the method \<open>sign\<close> only, once if it succeeds and at most once otherwise, for the slot of the
  call and right after the Nonce that loads the digest of the call.
\<close>

theorem bus_in_order:
  assumes "\<not> out_of_turn (svc_mon s)" and "perform (watch_env E) oper s = (ok, t)"
  shows "\<not> out_of_turn (svc_mon t) \<and>
    (ok \<longrightarrow> phase (svc_mon t) \<in> {Released, phase (svc_mon s)}) \<and>
    (\<exists>xs. sign_log (svc_mon t) = sign_log (svc_mon s) @ xs \<and>
       (case oper of
          OpSign slot digest \<Rightarrow> if ok then xs = [(slot_as_u8 slot, Some digest)]
            else xs \<in> {[], [(slot_as_u8 slot, Some digest)]}
        | _ \<Rightarrow> xs = []))"
proof -
  have "calm (sign_log (svc_mon s)) (phase (svc_mon s)) (svc_mon s)"
    using assms(1) by (simp add: calm_def orderly_def)
  from perform_monitor [OF this assms(2)] show ?thesis
    by (auto simp: calm_def orderly_def sign_requests_def split: ServiceOp.split)
qed

definition fresh_monitor :: BusMonitor where
  "fresh_monitor = \<lparr>phase = Released, msg_dig = None, out_of_turn = False, sign_log = []\<rparr>"

definition sign_replies :: "bytes option list" where
  "sign_replies = [Some WAKE_RESPONSE_OK, Some [4], Some (tl (response_frame [0])),
                   Some [67], Some (tl (response_frame (replicate 64 9)))]"

definition demo_watched :: "(scripted watched, u64) CryptoService" where
  "demo_watched =
     (CryptoService_new (Atecc_new (scripted_chip sign_replies, fresh_monitor)) 5)\<lparr>session := Session_open 0 Session_new\<rparr>"

theorem bus_in_order_witness:
  "sign_log (svc_mon (snd (perform (watch_env demo_env) (OpSign (Slot 2) (replicate 32 7)) demo_watched))) =
     [(2, Some (replicate 32 7))]"
proof -
  let ?run = "perform (watch_env demo_env) (OpSign (Slot 2) (replicate 32 7)) demo_watched"
  have "fst ?run" by code_simp
  then have r: "?run = (True, snd ?run)" by (simp add: prod_eq_iff)
  have l: "\<not> out_of_turn (svc_mon demo_watched)" "sign_log (svc_mon demo_watched) = []"
    by (simp_all add: demo_watched_def CryptoService_new_def Atecc_new_def Atecc_with_address_def fresh_monitor_def)
  from bus_in_order [OF l(1) r] l(2) show ?thesis by simp
qed

text \<open>
  C3. The chip signs what was asked for. Over any sequence of reports and touches, with the
  other tasks at work in between, the digests that the chip is told to sign are, in
  order, among those of the requests that came with an active session and a confirmed touch,
  each for its own slot and at most once per request. No other digest gets into the message
  buffer between the request and the signature.
\<close>

theorem signed_as_requested:
  assumes "serving (watch_env E) fw asked fw'" and "length (tx_buf fw) = 128" and "serial_wf (service fw)"
    and "\<not> out_of_turn (svc_mon (service fw))"
  shows "\<not> out_of_turn (svc_mon (service fw')) \<and>
    (\<exists>xs. sign_log (svc_mon (service fw')) = sign_log (svc_mon (service fw)) @ xs \<and> subseq xs asked)"
  using serving_monitor [OF assms] by blast

definition demo_watched_board :: "(scripted watched, u64) Firmware" where
  "demo_watched_board = \<lparr>service = demo_watched, tx_buf = replicate REPORT_SIZE 0, channels = Channels_new\<rparr>"

theorem signed_as_requested_witness:
  "\<exists>fw' xs. serving (watch_env demo_env) demo_watched_board [(2, Some (replicate 32 7))] fw' \<and>
     sign_log (svc_mon (service fw')) = xs \<and> subseq xs [(2, Some (replicate 32 7))]"
proof -
  let ?E = "watch_env demo_env" and ?touch = "\<lambda>ch c. (True, ch, c)"
  let ?rx = "report 0x03 (2 # replicate 32 7) (replicate 92 0)"
  have d: "decode_request ?rx = Inr (OpSign (Slot 2) (replicate 32 7))" by code_simp
  have a: "is_session_active ?E (service demo_watched_board)" by code_simp
  have q: "asked_for ?E ?touch ?rx demo_watched_board = [(2, Some (replicate 32 7))]"
    using a by (simp add: asked_for_def d sign_requests_def)
  obtain n fw' where "handle_one_request ?E ?touch ?rx demo_watched_board = (n, fw')" by (rule prod.exhaust)
  from serving.request [OF serving.start this] q have s: "serving ?E demo_watched_board [(2, Some (replicate 32 7))] fw'" by simp
  have w: "length (tx_buf demo_watched_board) = 128" "serial_wf (service demo_watched_board)" "\<not> out_of_turn (svc_mon (service demo_watched_board))"
    "sign_log (svc_mon (service demo_watched_board)) = []"
    by (simp_all add: demo_watched_board_def demo_watched_def REPORT_SIZE_def report_sizes CryptoService_new_def serial_wf_def
        Atecc_new_def Atecc_with_address_def fresh_monitor_def)
  from signed_as_requested [OF s w(1-3)] s w(4) show ?thesis by auto
qed

text \<open>
  C22. A command that the chip refuses leaves the chip awake. Reading a counter, reading a
  public key, creating a key and signing return the error of the chip without closing the
  channel, and the chip stays awake until its watchdog ends it or the next wake. The three
  lock methods (configuration zone, data zone, slot) close the channel first and return the
  same error with the chip released.
\<close>

theorem refused_command_leaves_chip_awake:
  assumes "\<not> out_of_turn (svc_mon s)"
  shows "(read_counter (watch_env E) c s = (Inl (AteccFailure (Chip e)), t) \<longrightarrow> phase (svc_mon t) = Woken) \<and>
    (get_pubkey (watch_env E) slot s = (Inl (AteccFailure (Chip e)), t) \<longrightarrow> phase (svc_mon t) = Woken) \<and>
    (service_genkey_create (watch_env E) slot s = (Inl (AteccFailure (Chip e)), t) \<longrightarrow> phase (svc_mon t) = Woken) \<and>
    (service_sign (watch_env E) slot digest s = (Inl (AteccFailure (Chip e)), t) \<longrightarrow> phase (svc_mon t) = Woken) \<and>
    (service_lock_config_zone (watch_env E) crc s = (Inl (AteccFailure (Chip e)), t) \<longrightarrow> phase (svc_mon t) = Released) \<and>
    (service_lock_data_zone (watch_env E) s = (Inl (AteccFailure (Chip e)), t) \<longrightarrow> phase (svc_mon t) = Released) \<and>
    (service_lock_slot (watch_env E) slot s = (Inl (AteccFailure (Chip e)), t) \<longrightarrow> phase (svc_mon t) = Released)"
proof (intro conjI impI)
  note awake = in_channel_Chip_awake [OF _ assms] stays_Woken [OF stays_commands(3)] stays_Woken [OF stays_commands(6)]
    stays_Woken [OF stays_commands(7)]
  show "phase (svc_mon t) = Woken" if "read_counter (watch_env E) c s = (Inl (AteccFailure (Chip e)), t)"
    using that unfolding read_counter_def watch_env_sel by (rule awake(1)) (rule awake(2))
  show "phase (svc_mon t) = Woken" if "get_pubkey (watch_env E) slot s = (Inl (AteccFailure (Chip e)), t)"
    using that unfolding get_pubkey_def watch_env_sel by (rule awake(1)) (rule awake(4))
  show "phase (svc_mon t) = Woken" if "service_genkey_create (watch_env E) slot s = (Inl (AteccFailure (Chip e)), t)"
    using that unfolding service_genkey_create_def watch_env_sel by (rule awake(1)) (rule awake(3))
  show "phase (svc_mon t) = Woken" if "service_sign (watch_env E) slot digest s = (Inl (AteccFailure (Chip e)), t)"
    using service_sign_Chip [OF that] unfolding watch_env_sel by (rule awake(1)) (auto dest: sign_body_monitor simp: awake_def)
  show "phase (svc_mon t) = Released" if "service_lock_config_zone (watch_env E) crc s = (Inl (AteccFailure (Chip e)), t)"
    using that unfolding service_lock_config_zone_def watch_env_sel by (rule always_closed_Chip_released)
  show "phase (svc_mon t) = Released" if "service_lock_data_zone (watch_env E) s = (Inl (AteccFailure (Chip e)), t)"
    using that unfolding service_lock_data_zone_def watch_env_sel by (rule always_closed_Chip_released)
  show "phase (svc_mon t) = Released" if "service_lock_slot (watch_env E) slot s = (Inl (AteccFailure (Chip e)), t)"
    using that unfolding service_lock_slot_def watch_env_sel by (rule always_closed_Chip_released)
qed

definition demo_refused :: "(scripted watched, u64) CryptoService" where
  "demo_refused =
     CryptoService_new (Atecc_new (scripted_chip [Some WAKE_RESPONSE_OK, Some [4], Some (tl (response_frame [0x0F]))],
       fresh_monitor)) 0"

theorem refused_command_leaves_chip_awake_witness:
  "phase (svc_mon (snd (read_counter (watch_env demo_env) Counter0 demo_refused))) = Woken"
proof -
  let ?run = "read_counter (watch_env demo_env) Counter0 demo_refused"
  have "fst ?run = Inl (AteccFailure (Chip ExecutionError))" by code_simp
  then have r: "?run = (Inl (AteccFailure (Chip ExecutionError)), snd ?run)" by (simp add: prod_eq_iff)
  have "\<not> out_of_turn (svc_mon demo_refused)"
    by (simp add: demo_refused_def CryptoService_new_def Atecc_new_def Atecc_with_address_def fresh_monitor_def)
  with refused_command_leaves_chip_awake [of demo_refused demo_env Counter0] r show ?thesis by metis
qed

end
