(* ===== verification/Usb_Credentials.thy ===== *)
theory Usb_Credentials
  imports Credential_Store Host_Workflow
begin

text \<open>
  The two contracts of the chip, carried through the dispatch loop to whoever holds the USB
  cable, and through the host tool to its user. A holder who knows no code can send any
  reports, touch the button and restart the token; the user sets codes at the command line
  and expects them to work.
\<close>

section \<open>Reports of a holder who knows no code\<close>

definition usb_guess :: "('h, 'e, 'c) Env \<Rightarrow> bytes \<Rightarrow> CounterId \<Rightarrow> ('h, 'c) CryptoService \<Rightarrow> bool option" where
  "usb_guess E rx c s = (case decode_request rx of Inl _ \<Rightarrow> None | Inr oper \<Rightarrow> guess E oper c s)"

definition resets_exhausted :: "('h, 'e, 'c) Env \<Rightarrow> bytes \<Rightarrow> ('h, 'c) CryptoService \<Rightarrow> bool" where
  "resets_exhausted E rx s \<longleftrightarrow> (\<exists>k t. decode_request rx = Inr (OpEmergencyReset k) \<and> both_exhausted E s t)"

text \<open>
  Reports in any order, with any touches, as long as the chip confirms no code and no
  emergency reset is granted; in between anything that leaves the chip alone, such as a
  restart. The numbers count the codes that the chip has compared and rejected.
\<close>

inductive usb_attack ::
  "('h, 'e, 'c) Env \<Rightarrow> ('h, 'c) Firmware \<Rightarrow> nat \<Rightarrow> nat \<Rightarrow> ('h, 'c) Firmware \<Rightarrow> bool" for E fw where
  start: "usb_attack E fw 0 0 fw"
| request: "usb_attack E fw (pins + of_bool (usb_guess E rx Counter0 (service fw1) = Some False))
              (puks + of_bool (usb_guess E rx Counter1 (service fw1) = Some False)) fw2"
    if "usb_attack E fw pins puks fw1" and "handle_one_request E touch rx fw1 = (n, fw2)"
      and "\<forall>c. usb_guess E rx c (service fw1) \<noteq> Some True" and "\<not> resets_exhausted E rx (service fw1)"
| environment: "usb_attack E fw pins puks fw2"
    if "usb_attack E fw pins puks fw1" and "hal (atecc (service fw2)) = hal (atecc (service fw1))"
      and "length (tx_buf fw2) = 128" and "serial_wf (service fw2)"

lemma guess_sign: "is_sign oper \<Longrightarrow> guess E oper c s = None" "is_sign oper \<Longrightarrow> \<not> may_change E oper k s"
  by (cases oper; simp)+

text \<open>A report is one call of the attack on the service, or none.\<close>

lemma request_attack:
  assumes w: "length (tx_buf fw1) = 128" "serial_wf (service fw1)" and h: "handle_one_request E touch rx fw1 = (n, fw2)"
    and a: "attack E s pins puks (service fw1)" and c: "\<forall>c. usb_guess E rx c (service fw1) \<noteq> Some True"
    and e: "\<not> resets_exhausted E rx (service fw1)"
  shows "length (tx_buf fw2) = 128 \<and> serial_wf (service fw2) \<and>
    attack E s (pins + of_bool (usb_guess E rx Counter0 (service fw1) = Some False))
      (puks + of_bool (usb_guess E rx Counter1 (service fw1) = Some False)) (service fw2)"
  using w
proof (cases rule: request_cases [where E = E and touch = touch and rx = rx])
  case (untouched status data ch k)
  have "usb_guess E rx d (service fw1) = None" for d
    using untouched(3) guess_sign(1) by (auto simp: usb_guess_def split: sum.split)
  moreover have "attack E s pins puks ((service fw1)\<lparr>clock := k\<rparr>)" by (rule attack.environment [OF a]) simp
  ultimately show ?thesis using h w untouched(1,2) by (auto simp: serial_wf_def)
next
  case (performed status data ch oper k)
  let ?s = "(service fw1)\<lparr>clock := k\<rparr>"
  have g: "guess E oper d ?s = usb_guess E rx d (service fw1)" for d
    using performed(3,5) guess_sign(1) [of oper E] by (cases "is_sign oper") (simp_all add: usb_guess_def)
  have "attack E s pins puks ?s" by (rule attack.environment [OF a]) simp
  moreover obtain success u where p: "perform E oper ?s = (success, u)" by fastforce
  moreover have "\<forall>d. guess E oper d ?s \<noteq> Some True" using c g by simp
  moreover have "\<forall>q. oper = OpEmergencyReset q \<longrightarrow> \<not> (\<exists>v. both_exhausted E ?s v)"
    using e performed(3,5) by (auto simp: resets_exhausted_def)
  ultimately have "attack E s (pins + of_bool (guess E oper Counter0 ?s = Some False))
      (puks + of_bool (guess E oper Counter1 ?s = Some False)) u" by (rule attack.call)
  moreover have "serial_wf u" using perform_serial_wf [of ?s E oper] w(2) p by (simp add: serial_wf_def)
  ultimately show ?thesis using h performed(1,2) p g by auto
qed

lemma usb_attack_attack:
  assumes "usb_attack E fw pins puks fw'" and "length (tx_buf fw) = 128" and "serial_wf (service fw)"
  shows "length (tx_buf fw') = 128 \<and> serial_wf (service fw') \<and> attack E (service fw) pins puks (service fw')"
  using assms
proof (induction rule: usb_attack.induct)
  case (request pins puks fw1 touch rx n fw2)
  then show ?case using request_attack by blast
qed (auto intro: attack.intros)

section \<open>Provisioning\<close>

context credential_service begin

lemma maintains_known:
  "maintains knows_serial (service_info E)" "maintains knows_serial (provision_initial_io_key E)"
  "maintains knows_serial (provision_initial_pin E)"
proof -
  have k: "keeps serial m \<Longrightarrow> maintains knows_serial m" for m by (simp add: maintains_def keeps_def knows_serial_def)
  have c: "maintains knows_serial (cached_serial E)" unfolding maintains_def
  proof (intro allI impI)
    fix s :: "('h, 'c) CryptoService" assume s: "knows_serial s"
    obtain r u where "read_whole_config E s = (r, u)" by fastforce
    with keepsE [OF keeps_in_channel(3)] have u: "serial u = serial s" "read_whole_config E s = (r, u)"
      unfolding read_whole_config_def by blast+
    with s cached_serial_value [OF s] show "knows_serial (snd (cached_serial E s))"
      by (cases r) (auto simp: cached_serial_def and_then_def gets_def return_ok_def modify_def Let_def knows_serial_def
          split: option.splits)
  qed
  have p: "maintains knows_serial (provision_slot E slot v)" for slot v
    by (intro k) (simp add: provision_slot_def keeps_err)
  show "maintains knows_serial (service_info E)" "maintains knows_serial (provision_initial_io_key E)"
    "maintains knows_serial (provision_initial_pin E)"
    unfolding service_info_def is_provisioned_def read_whole_config_def provision_initial_io_key_def provision_initial_pin_def Let_def
    by (intro maintains_and_then maintains_pure c p k keeps_in_channel)+
qed

lemma service_info_serial: "knows_serial s \<Longrightarrow> service_info E s = (Inr info, t) \<Longrightarrow> info_serial info = sn"
proof -
  assume k: "knows_serial s" and "service_info E s = (Inr info, t)"
  then obtain r u v where i: "in_channel E (info_revision (env_hal E)) s = (Inr r, u)"
    and c: "cached_serial E u = (Inr (info_serial info), v)"
    by (auto simp: service_info_def and_then_eq_Inr return_ok_def)
  from knows_serial_kept [OF keeps_in_channel(3) i] k have "knows_serial u" by simp
  from cached_serial_value [OF this c] show ?thesis .
qed

lemma provisioned_held:
  assumes k: "knows_serial s" and info: "service_info E s = (Inr info, s1)"
    and key: "provision_initial_io_key E s1 = (Inr key, s2)" and pin: "provision_initial_pin E s2 = (Inr (), s3)"
    and puk: "provision_initial_puk E s3 = (Inr puk, s4)" and gen: "service_genkey_create E slot s4 = (r, t)"
  shows "info_serial info = sn" "held_by IoKey t = key" "held_by PinHash t = pin_hashed E PIN_DEFAULT sn"
    "held_by PukHash t = puk_hashed E puk sn"
proof -
  show "info_serial info = sn" using service_info_serial [OF k info] .
  have k1: "knows_serial s1" using maintainsE [OF maintains_known(1) k info] .
  have k2: "knows_serial s2" using maintainsE [OF maintains_known(2) k1 key] .
  have k3: "knows_serial s3" using maintainsE [OF maintains_known(3) k2 pin] .
  note g = keepsE [OF keeps_methods(3) gen]
  show "held_by IoKey t = key"
    using initial_io_key_held [OF key] keepsE [OF keeps_other_writes(3) pin, of IoKey] keepsE [OF keeps_other_writes(4) puk, of IoKey] g
    by simp
  show "held_by PinHash t = pin_hashed E PIN_DEFAULT sn"
    using sets_atD [OF sets_initial_pin [OF k2] pin] keepsE [OF keeps_other_writes(4) puk, of PinHash] g by simp
  show "held_by PukHash t = puk_hashed E puk sn" using initial_puk_held [OF k3 puk] g by simp
qed

end

section \<open>What the user sees\<close>

lemma host_view_codes:
  "host_view e = ReportedWrongPin n \<longleftrightarrow> e = PinIncorrect n" "host_view e = ReportedWrongPuk n \<longleftrightarrow> e = PukIncorrect n"
  by (cases e; auto split: AteccErrorKind.split)+

lemma remote_error: "remote m host_view f s = (Inl x, t) \<longleftrightarrow> (\<exists>e. m s = (Inl e, t) \<and> host_view e = x)"
  by (cases "m s"; cases "fst (m s)") (auto simp: remote_def)

lemma remote_ok: "remote m view f s = (Inr y, t) \<longleftrightarrow> (\<exists>v. m s = (Inr v, t) \<and> f v = y)"
  by (cases "m s"; cases "fst (m s)") (auto simp: remote_def)

lemma host_view_device: "host_view e \<noteq> SecretsWriteFailed"
  by (cases e) (auto split: AteccErrorKind.split)

lemma call_cases:
  "call m s = (Inr v, t) \<longleftrightarrow> m s = (Inr v, t)" "call m s = (Inl SecretsWriteFailed, t) \<longleftrightarrow> False"
  unfolding call_def by (auto simp: remote_ok remote_error host_view_device)

lemma provision_spec_run:
  assumes "provision_spec E secrets_exist fs_write s = (r, t)" and "r = Inr secrets \<or> r = Inl SecretsWriteFailed"
  obtains info s1 key s2 s3 puk s4 pubkey where "\<not> secrets_exist"
    and "service_info E s = (Inr info, s1)" and "provision_initial_io_key E s1 = (Inr key, s2)"
    and "provision_initial_pin E s2 = (Inr (), s3)" and "provision_initial_puk E s3 = (Inr puk, s4)"
    and "service_genkey_create E (Slot 0) s4 = (Inr pubkey, t)"
    and "r = (if fs_write \<lparr>chip_serial = info_serial info, io_key = key, initial_puk = puk, primary_pubkey = pubkey\<rparr>
              then Inr \<lparr>chip_serial = info_serial info, io_key = key, initial_puk = puk, primary_pubkey = pubkey\<rparr>
              else Inl SecretsWriteFailed)"
  using assms
  by (auto simp: provision_spec_def and_then_eq_Inr and_then_eq_Inl call_cases return_ok_def return_err_def Let_def split: if_splits)

text \<open>A code whose hash is in its slot is not reported as wrong.\<close>

lemma stored_pin_on_host:
  assumes "credential_store (env_hal E) (sha256 E) sn val temp" and "length (tx_buf fw) = 128" and "length q = 4"
    and "serial (service fw) \<in> {None, Some sn}" and "val PinHash (hal (atecc (service fw))) = pin_hashed E q sn"
  shows "over_cable E touch fw (\<lambda>D. cmd_verify_pin D q) \<noteq> (Inl (ReportedWrongPin n), x)"
proof
  assume "over_cable E touch fw (\<lambda>D. cmd_verify_pin D q) = (Inl (ReportedWrongPin n), x)"
  then have "verify_pin E q (service fw) = (Inl (PinIncorrect n), x)"
    using assms(2,3) by (simp add: over_cable_def cable.verify_pin_command remote_error host_view_codes)
  then have r: "verdict_on E Counter0 (pin_hashed E q) (service fw) = Some False" by (rule rejections)
  have c: "credential_service E sn val temp" using assms(1) by (rule credential_service.intro)
  with assms(4) have "credential_service.knows_serial sn (service fw)" by (simp add: credential_service.knows_serial_def)
  from credential_service.held_code_not_rejected [OF c this, of Counter0 PinHash "pin_hashed E q"] assms(5) r
    credential_service.hashed_length(1) [OF c]
  show False by simp
qed

lemma stored_puk_on_host:
  assumes "credential_store (env_hal E) (sha256 E) sn val temp" and "length (tx_buf fw) = 128" and "length u = 8" and "length q = 4"
    and "hex_decode (strip_0x hx) = Some k" "length k = 32"
    and "serial (service fw) \<in> {None, Some sn}" and "val PukHash (hal (atecc (service fw))) = puk_hashed E u sn"
  shows "over_cable E touch fw (\<lambda>D. cmd_unblock_pin hex_decode D u q hx) \<noteq> (Inl (ReportedWrongPuk n), x)"
proof
  assume "over_cable E touch fw (\<lambda>D. cmd_unblock_pin hex_decode D u q hx) = (Inl (ReportedWrongPuk n), x)"
  then have "unblock_pin E u q k (service fw) = (Inl (PukIncorrect n), x)"
    using assms(2-6) by (simp add: over_cable_def cable.pin_commands(2) [where k = k] remote_error host_view_codes)
  then have r: "verdict_on E Counter1 (puk_hashed E u) (service fw) = Some False" by (rule rejections)
  have c: "credential_service E sn val temp" using assms(1) by (rule credential_service.intro)
  with assms(7) have "credential_service.knows_serial sn (service fw)" by (simp add: credential_service.knows_serial_def)
  from credential_service.held_code_not_rejected [OF c this, of Counter1 PukHash "puk_hashed E u"] assms(8) r
    credential_service.hashed_length(2) [OF c]
  show False by simp
qed

section \<open>Properties\<close>

text \<open>A token on the simulated chip.\<close>

definition soft_board :: "(soft_chip, u64) CryptoService \<Rightarrow> (soft_chip, u64) Firmware" where
  "soft_board s = \<lparr>service = s, tx_buf = replicate REPORT_SIZE 0, channels = Channels_new\<rparr>"

lemma soft_board_sel [simp]: "service (soft_board s) = s" "length (tx_buf (soft_board s)) = 128"
  by (simp_all add: soft_board_def REPORT_SIZE_def report_sizes)

lemma fresh_token_wf: "serial_wf fresh_token"
  by (simp add: serial_wf_def fresh_token_chip soft_serial_def)

text \<open>
  C6. The number of guesses over USB is limited. Let the chip be one whose zones are locked
  and that keeps the contract of its counters: before the lock WriteConfigZone can set their
  initial values, and the contract, so the bound, does not hold. Whoever holds the token may send any reports, malformed or not, touch the button
  and restart the token at any time: as long as the chip has confirmed no code and
  no emergency reset was granted, the PINs and PUKs that it has compared and rejected, added to the
  attempts left, do not exceed the attempts left at the start. So at most 5 wrong PINs and at
  most 10 wrong PUKs get to the chip, and no report gives an attempt back.
\<close>

theorem usb_guesses_are_limited:
  assumes "limited_use (env_hal E) count" and "usb_attack E fw pins puks fw'"
    and "length (tx_buf fw) = 128" and "serial_wf (service fw)"
  shows "pins + left Counter0 (count Counter0 (hal (atecc (service fw')))) \<le> left Counter0 (count Counter0 (hal (atecc (service fw)))) \<and>
    puks + left Counter1 (count Counter1 (hal (atecc (service fw')))) \<le> left Counter1 (count Counter1 (hal (atecc (service fw)))) \<and>
    pins \<le> 5 \<and> puks \<le> 10"
  using usb_attack_attack [OF assms(2-4)] guesses_are_limited [OF assms(1)] by blast

definition wrong_pin_report :: bytes where
  "wrong_pin_report = report 0x07 (ascii ''1111'') (replicate 121 0)"

theorem usb_guesses_are_limited_witness:
  "\<exists>fw'. usb_attack (soft_env sum_hash) (soft_board fresh_token) 1 0 fw' \<and>
     1 + left Counter0 (counted Counter0 (hal (atecc (service fw')))) \<le> left Counter0 (counted Counter0 (hal (atecc fresh_token)))"
proof -
  let ?E = "soft_env sum_hash" and ?fw = "soft_board fresh_token" and ?touch = "\<lambda>ch c. (False, ch, c)"
  have d: "decode_request wrong_pin_report = Inr (OpVerifyPin (ascii ''1111''))" by code_simp
  have "verdict_on ?E Counter0 (pin_hashed ?E (ascii ''1111'')) fresh_token = Some False"
    using fresh_token_rejects by (simp add: verdict_on_def retries_remaining_def PIN_MAX_RETRIES_def fresh_token_reads)
  moreover have "list_all is_ascii_digit (ascii ''1111'')" by code_simp
  ultimately have g: "usb_guess ?E wrong_pin_report Counter0 fresh_token = Some False"
    "usb_guess ?E wrong_pin_report Counter1 fresh_token = None" by (simp_all add: usb_guess_def d)
  then have n: "\<forall>c. usb_guess ?E wrong_pin_report c (service ?fw) \<noteq> Some True" by (simp add: all_CounterId)
  have x: "\<not> resets_exhausted ?E wrong_pin_report (service ?fw)" by (simp add: resets_exhausted_def d)
  obtain k fw' where h: "handle_one_request ?E ?touch wrong_pin_report ?fw = (k, fw')" by fastforce
  from usb_attack.request [OF usb_attack.start h n x] g have a: "usb_attack ?E ?fw 1 0 fw'" by simp
  from usb_guesses_are_limited [OF counting.limited_use_axioms a] a fresh_token_wf show ?thesis by auto
qed

text \<open>
  C7. Over USB the credentials change only with authority. Let the chip keep the contract of
  its slots. If a report leaves a different value in the slot of the PIN hash, the PUK hash or
  the I/O key, it decodes to a method with the authority for this slot: SetPin with an old
  PIN that the chip confirmed, UnblockPin or SetPuk with a PUK that it confirmed (SetPuk also
  within a session), an emergency reset while both batches of attempts are
  exhausted (never for the I/O key), or one of the provisioning reports.
\<close>

theorem usb_credentials_change_only_when_authorised:
  assumes "credential_store (env_hal E) (sha256 E) sn val temp" and w: "length (tx_buf fw) = 128" "serial_wf (service fw)"
    and "handle_one_request E touch rx fw = (n, fw')"
    and "val c (hal (atecc (service fw'))) \<noteq> val c (hal (atecc (service fw)))"
  shows "\<exists>oper. decode_request rx = Inr oper \<and> may_change E oper c (service fw)"
  using w
proof (cases rule: request_cases [where E = E and touch = touch and rx = rx])
  case (performed status data ch oper k)
  let ?s = "(service fw)\<lparr>clock := k\<rparr>"
  obtain success t where p: "perform E oper ?s = (success, t)" by fastforce
  have "may_change E oper c ?s"
    using credentials_change_only_when_authorised [OF assms(1) p] performed(1) assms(4,5) p by auto
  with performed(3,5) guess_sign(2) [of oper E c] show ?thesis by (cases "is_sign oper") auto
qed (use assms(4,5) in auto)

definition set_pin_report :: bytes where
  "set_pin_report = report 0x08 (PIN_DEFAULT @ new_pin @ demo_key) (replicate 85 0)"

theorem usb_credentials_change_only_when_authorised_witness:
  "guess (soft_env sum_hash) (OpSetPin PIN_DEFAULT new_pin demo_key) Counter0 fresh_token = Some True"
proof -
  let ?E = "soft_env sum_hash" and ?touch = "\<lambda>ch c. (False, ch, c)" and ?op = "OpSetPin PIN_DEFAULT new_pin demo_key"
  have d: "decode_request set_pin_report = Inr ?op" by code_simp
  obtain t where t: "set_pin ?E PIN_DEFAULT new_pin demo_key fresh_token = (Inr (), t)"
    "soft_val PinHash (hal (atecc t)) = pin_hashed ?E new_pin soft_serial" using fresh_set_pin by blast
  then have p: "perform ?E ?op fresh_token = (True, t)" by (simp add: outcome_def)
  have w: "length (tx_buf (soft_board fresh_token)) = 128" "serial_wf (service (soft_board fresh_token))"
    by (simp_all add: fresh_token_wf)
  obtain n fw' where h: "handle_one_request ?E ?touch set_pin_report (soft_board fresh_token) = (n, fw')" by fastforce
  have "service fw' = t"
    using handle_one_request_other [where E = ?E and touch = ?touch, OF w, of set_pin_report] d p h
    by (auto simp: serves_def answered_def)
  moreover have "pin_hash sum_hash new_pin (pin_salt sum_hash soft_serial) \<noteq> pin_hash sum_hash PIN_DEFAULT (pin_salt sum_hash soft_serial)"
    by code_simp
  ultimately have "soft_val PinHash (hal (atecc (service fw'))) \<noteq> soft_val PinHash (hal (atecc (service (soft_board fresh_token))))"
    by (simp add: t(2) fresh_token_chip pin_hashed_def)
  from usb_credentials_change_only_when_authorised [where E = ?E and val = soft_val, OF soft.credential_store_axioms w h this] d
  show ?thesis by auto
qed

text \<open>
  C9. Codes set at the command line are the codes that work. With the I/O key of the chip given
  in hexadecimal: after a set-pin or unblock-pin that reports success, verify-pin with the
  new PIN is not answered with wrong PIN; after a set-puk that reports success,
  unblock-pin with the new PUK is not answered with wrong PUK; after an emergency reset,
  neither is verify-pin with 0000 nor unblock-pin with the PUK that was printed. The token may
  be restarted in between.
\<close>

theorem codes_set_on_host_are_accepted:
  assumes store: "credential_store (env_hal E) (sha256 E) sn val temp"
    and fw: "length (tx_buf fw) = 128" "serial (service fw) \<in> {None, Some sn}"
    and key: "hex_decode (strip_0x hx) = Some k" "length k = 32" "val IoKey (hal (atecc (service fw))) = k"
    and codes: "length p = 4" "length q = 4" "length u = 8" "length v = 8" "trim line = ascii ''EMERGENCY-RESET''"
    and fw': "length (tx_buf fw') = 128" "serial (service fw') \<in> {None, Some sn}" "hal (atecc (service fw')) = hal (atecc t)"
  shows "(over_cable E touch fw (\<lambda>D. cmd_set_pin hex_decode D p q hx) = (Inr (), t) \<or>
      over_cable E touch fw (\<lambda>D. cmd_unblock_pin hex_decode D u q hx) = (Inr (), t) \<longrightarrow>
        over_cable E touch' fw' (\<lambda>D. cmd_verify_pin D q) \<noteq> (Inl (ReportedWrongPin n), x)) \<and>
    (over_cable E touch fw (\<lambda>D. cmd_set_puk hex_decode D u v hx) = (Inr (), t) \<longrightarrow>
        over_cable E touch' fw' (\<lambda>D. cmd_unblock_pin hex_decode D v q hx) \<noteq> (Inl (ReportedWrongPuk n), x)) \<and>
    (over_cable E touch fw (\<lambda>D. cmd_emergency_reset_dangerous hex_decode D (Some line) hx) = (Inr code, t) \<longrightarrow>
        over_cable E touch' fw' (\<lambda>D. cmd_verify_pin D PIN_DEFAULT) \<noteq> (Inl (ReportedWrongPin n), x) \<and>
        over_cable E touch' fw' (\<lambda>D. cmd_unblock_pin hex_decode D code q hx) \<noteq> (Inl (ReportedWrongPuk n), x))"
proof -
  have c: "credential_service E sn val temp" using store by (rule credential_service.intro)
  have s: "credential_service.knows_serial sn (service fw)" using fw(2) by (simp add: credential_service.knows_serial_def [OF c])
  have w: "length (tx_buf (fst (fw, None :: bytes option))) = 128" using fw(1) by simp
  note calls = cable.pin_commands [where hex_decode = hex_decode, OF w key(1,2)]
    cable.emergency_reset_command [where hex_decode = hex_decode, OF w key(1,2) codes(5)]
  note held = credential_service.sets_coded_methods [OF c s key(3) [symmetric], THEN sets_atD]
    credential_service.reset_held [OF c s key(3) [symmetric]]
  note pin = stored_pin_on_host [where E = E and val = val, OF store fw'(1) _ fw'(2), unfolded fw'(3)]
    and puk = stored_puk_on_host [where E = E and val = val and hex_decode = hex_decode, OF store fw'(1) _ codes(2) key(1,2) fw'(2), unfolded fw'(3)]
  have "val PinHash (hal (atecc t)) = pin_hashed E q sn"
    if "over_cable E touch fw (\<lambda>D. cmd_set_pin hex_decode D p q hx) = (Inr (), t) \<or>
      over_cable E touch fw (\<lambda>D. cmd_unblock_pin hex_decode D u q hx) = (Inr (), t)"
    using that codes by (auto simp: over_cable_def calls remote_ok dest: held)
  moreover have "val PukHash (hal (atecc t)) = puk_hashed E v sn"
    if "over_cable E touch fw (\<lambda>D. cmd_set_puk hex_decode D u v hx) = (Inr (), t)"
    using that codes by (auto simp: over_cable_def calls remote_ok dest: held)
  moreover have "val PinHash (hal (atecc t)) = pin_hashed E PIN_DEFAULT sn \<and> val PukHash (hal (atecc t)) = puk_hashed E code sn \<and>
      length code = 8"
    if "over_cable E touch fw (\<lambda>D. cmd_emergency_reset_dangerous hex_decode D (Some line) hx) = (Inr code, t)"
    using that emergency_reset_Inr [of E k "service fw" code t] by (auto simp: over_cable_def calls remote_ok dest: held)
  moreover have "length PIN_DEFAULT = 4" by (simp add: PIN_DEFAULT_def ascii_def)
  ultimately show ?thesis using pin puk codes(2,4) by blast
qed

theorem codes_set_on_host_are_accepted_witness:
  "\<exists>t. over_cable (soft_env sum_hash) (\<lambda>ch c. (False, ch, c)) (soft_board fresh_token)
         (\<lambda>D. cmd_set_pin demo_hex_decode D PIN_DEFAULT new_pin (concat (replicate 32 (ascii ''00'')))) = (Inr (), t) \<and>
     (\<forall>n x. over_cable (soft_env sum_hash) (\<lambda>ch c. (False, ch, c)) (soft_board (CryptoService_new (atecc t) 0)) (\<lambda>D. cmd_verify_pin D new_pin) \<noteq>
        (Inl (ReportedWrongPin n), x))"
proof -
  let ?E = "soft_env sum_hash" and ?touch = "\<lambda>ch c. (False, ch, c)" and ?hx = "concat (replicate 32 (ascii ''00''))"
  let ?puk = "ascii ''00000000''" and ?fw = "soft_board fresh_token"
  have k: "demo_hex_decode (strip_0x ?hx) = Some demo_key" "length demo_key = 32" by code_simp+
  have l: "length PIN_DEFAULT = 4" "length new_pin = 4" "length ?puk = 8" by code_simp+
  obtain t where t: "set_pin ?E PIN_DEFAULT new_pin demo_key fresh_token = (Inr (), t)" using fresh_set_pin by blast
  have w: "length (tx_buf (fst (?fw, None :: bytes option))) = 128" by simp
  have o: "over_cable ?E ?touch ?fw (\<lambda>D. cmd_set_pin demo_hex_decode D PIN_DEFAULT new_pin ?hx) = (Inr (), t)"
    unfolding over_cable_def cable.pin_commands(1) [where hex_decode = demo_hex_decode, OF w k l(1,2)]
    by (simp add: remote_ok t)
  from codes_set_on_host_are_accepted [where E = ?E and sn = soft_serial and val = soft_val and temp = temp_key and fw = ?fw and fw' = "soft_board (CryptoService_new (atecc t) 0)" and
      hex_decode = demo_hex_decode and hx = ?hx and k = demo_key and p = PIN_DEFAULT and q = new_pin and u = ?puk and v = ?puk and
      t = t and touch = ?touch and touch' = ?touch and line = "ascii ''EMERGENCY-RESET''"] soft.credential_store_axioms k l o demo_lines(3)
  show ?thesis by (auto simp: fresh_token_chip CryptoService_new_def)
qed

text \<open>
  C10. The secrets of a provisioned token. When provision-token reports success, the file was
  written and holds the serial number of the chip, the I/O key that is in its slot
  and the PUK whose hash is in its slot, and the PIN slot holds the hash of 0000. When the
  tool gives up because the file cannot be written, the chip has been provisioned all the
  same, with an I/O key and a PUK that were neither saved nor shown.
\<close>

theorem provisioned_secrets:
  assumes "credential_store (env_hal E) (sha256 E) sn val temp" and "length (tx_buf fw) = 128" and "serial_wf (service fw)"
    and "serial (service fw) \<in> {None, Some sn}"
    and "over_cable E touch fw (\<lambda>D. cmd_provision_token D secrets_exist fs_write) = (r, t)"
    and "r = Inr secrets \<or> r = Inl SecretsWriteFailed"
  shows "\<exists>kept. chip_serial kept = sn \<and> val IoKey (hal (atecc t)) = io_key kept \<and>
    val PukHash (hal (atecc t)) = puk_hashed E (initial_puk kept) sn \<and>
    val PinHash (hal (atecc t)) = pin_hashed E PIN_DEFAULT sn \<and>
    (if r = Inr secrets then fs_write kept \<and> kept = secrets \<and> \<not> secrets_exist else \<not> fs_write kept)"
proof -
  have c: "credential_service E sn val temp" using assms(1) by (rule credential_service.intro)
  have k: "credential_service.knows_serial sn (service fw)" using assms(4) by (simp add: credential_service.knows_serial_def [OF c])
  have "token_wf fw" using assms(2,3) by (simp add: token_wf_def)
  from refinesD(1) [where fw_of = fst and d = "(fw, None)", unfolded fst_conv, OF cable.refines_provision this, of E touch secrets_exist fs_write]
    assms(5)
  have "provision_spec E secrets_exist fs_write (service fw) = (r, t)" by (simp add: over_cable_def)
  from this assms(6) obtain info s1 key s2 s3 puk s4 pubkey where run: "\<not> secrets_exist"
    "service_info E (service fw) = (Inr info, s1)" "provision_initial_io_key E s1 = (Inr key, s2)"
    "provision_initial_pin E s2 = (Inr (), s3)" "provision_initial_puk E s3 = (Inr puk, s4)"
    "service_genkey_create E (Slot 0) s4 = (Inr pubkey, t)"
    "r = (if fs_write \<lparr>chip_serial = info_serial info, io_key = key, initial_puk = puk, primary_pubkey = pubkey\<rparr>
          then Inr \<lparr>chip_serial = info_serial info, io_key = key, initial_puk = puk, primary_pubkey = pubkey\<rparr>
          else Inl SecretsWriteFailed)"
    by (rule provision_spec_run)
  show ?thesis using credential_service.provisioned_held [OF c k run(2-6)] run(1,7) assms(6)
    by (intro exI [of _ "\<lparr>chip_serial = info_serial info, io_key = key, initial_puk = puk, primary_pubkey = pubkey\<rparr>"])
      (auto split: if_splits)
qed

lemma soft_provisions:
  "\<exists>secrets t. provision_spec (soft_env sum_hash) False (\<lambda>_. True) fresh_token = (Inr secrets, t)"
proof -
  let ?E = "soft_env sum_hash"
  define zone :: bytes where "zone = take 4 soft_serial @ [0, 0, 0x60, 3] @ drop 4 soft_serial @ replicate 19 0 @ replicate 96 0x55"
  have z: "zone ! 86 = 0x55" unfolding zone_def by code_simp
  have w: "read_whole_config ?E s = (Inr zone, with_chip s (hal (atecc s)))" for s
    unfolding read_whole_config_def zone_def by (rule soft_in_channel) (simp add: soft_config answered_by_def del: replicate.simps)
  have i: "in_channel ?E (info_revision (soft_hal sum_hash)) s = (Inr [0, 0, 0x60, 3], with_chip s (hal (atecc s)))"
    and n: "in_channel ?E (random (soft_hal sum_hash)) s = (Inr (replicate 32 7), with_chip s (hal (atecc s)))"
    and g: "service_genkey_create ?E slot s = (Inr (replicate 64 0), with_chip s (hal (atecc s)))" for s slot
    unfolding service_genkey_create_def
    by (rule soft_in_channel, simp add: soft_info soft_random soft_genkey answered_by_def del: replicate.simps)+
  have p: "provision_slot ?E (credential_slot c) v s =
      (Inr (), with_chip s ((hal (atecc s))\<lparr>store := (store (hal (atecc s)))(credential_slot c := v)\<rparr>))" if "length v = 32" for c v s
  proof -
    obtain k where k: "credential_slot c = Slot k" "unat k < 16" using credential_slot_index by blast
    have "in_channel ?E (write_32 (env_hal ?E) ZoneData (data_address (credential_slot c) 0 0) v) s =
        (Inr (), with_chip s ((hal (atecc s))\<lparr>store := (store (hal (atecc s)))(credential_slot c := v)\<rparr>))"
      by (rule soft_in_channel) (simp add: k soft_write_32 that answered_by_def)
    then show ?thesis by (cases c) (simp_all add: provision_slot_def)
  qed
  note p = p [of _ PinHash, simplified] p [of _ PukHash, simplified] p [of _ IoKey, simplified]
  have c: "serial s = Some soft_serial \<Longrightarrow> cached_serial ?E s = (Inr soft_serial, s)" for s
    by (simp add: cached_serial_def and_then_def gets_def return_ok_def)
  show ?thesis
    by (simp add: provision_spec_def and_then_def call_def remote_def service_info_def is_provisioned_def i c w z fresh_token_chip
        provision_initial_io_key_def n p provision_initial_pin_def provision_initial_puk_def generate_random_puk_def g return_ok_def
        return_err_def pin_hash_def puk_hash_def Let_def del: replicate.simps)
qed

theorem provisioned_secrets_witness:
  "\<exists>secrets t. over_cable (soft_env sum_hash) (\<lambda>ch c. (False, ch, c)) (soft_board fresh_token)
      (\<lambda>D. cmd_provision_token D False (\<lambda>_. True)) = (Inr secrets, t) \<and> soft_val IoKey (hal (atecc t)) = io_key secrets"
proof -
  let ?E = "soft_env sum_hash" and ?touch = "\<lambda>ch c. (False, ch, c)" and ?fw = "soft_board fresh_token"
  have w: "token_wf ?fw" by (simp add: token_wf_def fresh_token_wf)
  obtain secrets t where t: "provision_spec ?E False (\<lambda>_. True) fresh_token = (Inr secrets, t)" using soft_provisions by blast
  from refinesD(1) [where fw_of = fst and d = "(?fw, None)", unfolded fst_conv, OF cable.refines_provision w, of ?E ?touch False "\<lambda>_. True"] t
  have o: "over_cable ?E ?touch ?fw (\<lambda>D. cmd_provision_token D False (\<lambda>_. True)) = (Inr secrets, t)" by (simp add: over_cable_def)
  from provisioned_secrets [where E = ?E and val = soft_val, OF soft.credential_store_axioms _ _ _ o, of secrets] fresh_token_wf o show ?thesis
    by (auto simp: fresh_token_chip)
qed

end
