(* ===== verification/Spec2Isabelle.thy ===== *)
theory Spec2Isabelle
  imports Listing Board Request_Time Bus_Protocol Usb_Credentials
begin

text \<open>
  Verification of pico-hsm-rs, the firmware of a hardware security token: an RP2040 that
  speaks a HID protocol over USB and drives an ATECC608B secure element over I2C. The
  token signs digests with keys that never leave the chip, after a PIN check done by the
  chip and a touch of a button.

  \<^bold>\<open>The program.\<close> The driver crate \<^verbatim>\<open>atecc608b\<close> turns method calls into
  packets on the bus. The crate \<^verbatim>\<open>hsm-crypto-service\<close> builds the token's
  operations on it: PIN and PUK with chip-side retry counters, sessions, signing,
  provisioning, locking, emergency reset. \<^verbatim>\<open>hsm-usb-protocol\<close> defines
  reports, opcodes, payloads and statuses. \<^verbatim>\<open>hsm-firmware-logic\<close> holds the
  token's state machine and the button debouncer. \<^verbatim>\<open>hsm-firmware\<close> runs the
  tasks: a dispatch loop that owns the service and answers USB reports, a state task, a
  touch task and an LED task, which talk through a bounded event queue and two signals.
  Two tools run on a computer: \<^verbatim>\<open>config-generator\<close> produces the configuration zone of the
  chip with a listing of it, and \<^verbatim>\<open>hsm-host\<close> is the command line that sends the reports and
  runs the provisioning sequences.

  \<^bold>\<open>How the model relates to the code.\<close> Machine integers keep their width
  (\<open>u8 = 8 word\<close> and so on); a byte array is a list of \<open>u8\<close>. A method that takes
  \<open>&mut self\<close> and returns \<open>Result\<close> is a function from the state to a sum and the
  state afterwards (\<open>act\<close> of \<open>Hsm_Prelude\<close>), so that what happened before an error
  stays visible. Each Rust function has a definition of the same name, with a prefix where
  two crates use the same name (\<open>service_sign\<close> is \<open>CryptoService::sign\<close>,
  \<open>Frame_parse\<close> is \<open>Frame::parse\<close>). Traits and third-party crates are parameters:
  the HAL and its state, the clock, SHA-256. No theorem assumes anything of them unless
  its hypotheses say so. Logging is left out.

  \<^bold>\<open>Theories, in order of the layers.\<close>
  \<^item> \<open>Hsm_Prelude\<close>: integers, little-endian encodings, slices; the computations
    \<open>act\<close> with the frame predicates \<open>keeps\<close> (what is left alone) and \<open>emits\<close> (what is
    added to a log); the locales \<open>byte_codec\<close> and \<open>step_invariant\<close>.
  \<^item> \<open>Crc\<close> (\<^verbatim>\<open>crc.rs\<close>): the bit-serial CRC; linearity, and detection of every
    corruption of one byte or of two adjacent bytes.
  \<^item> \<open>Packet\<close> (\<^verbatim>\<open>packet.rs\<close>): command builder and response parser, exact in
    both directions.
  \<^item> \<open>Atecc_Error\<close> (\<^verbatim>\<open>error.rs\<close>): error values and their byte encodings,
    interpretations of \<open>byte_codec\<close>.
  \<^item> \<open>Driver\<close> (\<^verbatim>\<open>driver.rs\<close>, \<^verbatim>\<open>wake.rs\<close>, \<^verbatim>\<open>hal.rs\<close>): the
    channel, wake and idle sequences, the polling loop and the command skeletons. The loop
    counts its elapsed time in the source and stops by itself after 1251 reads; the model
    recurses on that count, with no fuel of its own.
  \<^item> \<open>Atecc_Commands\<close> (\<^verbatim>\<open>command/\<close>, \<^verbatim>\<open>slot.rs\<close>, \<^verbatim>\<open>opcodes.rs\<close>):
    all commands; the locale \<open>sized_reply\<close> for commands that promise an array; a logging
    backend that records every packet.
  \<^item> \<open>Pin_Crypto\<close> (\<^verbatim>\<open>pin.rs\<close>, \<^verbatim>\<open>encrypted_write.rs\<close>): salts, hashes,
    CheckMac messages, encrypted writes, over a parameter for SHA-256.
  \<^item> \<open>Pin_Session\<close> (\<^verbatim>\<open>session.rs\<close>): the session with its inactivity time-out.
  \<^item> \<open>Crypto_Service\<close> (\<^verbatim>\<open>service.rs\<close>, \<^verbatim>\<open>error.rs\<close>, \<^verbatim>\<open>slots.rs\<close>):
    every method of the service, public and private.
  \<^item> \<open>Service_Policy\<close>: the service as a transition system. A session opens only on a PIN
    that the chip confirmed; signing needs a session; each method sends only commands of
    its footprint; refused calls do no harm on the chip; configuration writes never touch
    the factory area.
  \<^item> \<open>Usb_Protocol\<close> (\<^verbatim>\<open>frame.rs\<close>, \<^verbatim>\<open>commands.rs\<close>,
    \<^verbatim>\<open>responses.rs\<close>): report framing and payload parsers, exact in both
    directions.
  \<^item> \<open>Token_Machine\<close> (\<^verbatim>\<open>state_machine.rs\<close>, \<^verbatim>\<open>io.rs\<close>): the state
    machine with the history that each state implies, and the debouncer against a
    specification on the list of samples.
  \<^item> \<open>Channels\<close> (\<^verbatim>\<open>channels.rs\<close>): the event queue and the signals.
  \<^item> \<open>Firmware_Dispatch\<close> (\<^verbatim>\<open>tasks.rs\<close>): the dispatch loop with all handlers.
  \<^item> \<open>Dispatch_Policy\<close>: a report decodes to at most one service method, and the handlers
    refine that method; the policy of the service carries over to the USB interface, and the
    bytes of a report that reaches Lock, Sign or GenKey are given, magic words included.
  \<^item> \<open>Bus_Protocol\<close>: the order on the bus. A monitor beside the backend follows wake, command and
    idle: no command before the chip has answered a wake, the chip released after every success,
    Sign only right after the Nonce with the digest of the call. Carried to the dispatch loop, the
    chip signs only digests that were asked for with a session and a touch. Methods that
    fail may leave the chip awake.
  \<^item> \<open>Firmware_Tasks\<close> (\<^verbatim>\<open>state.rs\<close>, \<^verbatim>\<open>touch.rs\<close>,
    \<^verbatim>\<open>animation.rs\<close>): the other tasks, one turn at a time.
  \<^item> \<open>Firmware_System\<close>: all tasks interleaved in any order, as a step relation and as the
    function that computes a run from its schedule. Every signature has its own transition
    into \<open>Signing\<close> since its request and its own press, made after the request or still queued
    at that moment; a request, a press and the turns of the tasks complete a signature; timers
    and LEDs are consistent with the state. Two races: a touch at the last moment locks out
    signing, and a press that is still queued confirms the next request.
  \<^item> \<open>Chip_Observer\<close>: what a client may conclude from a quantity of the chip that only certain
    packets change: every other command of the driver leaves it alone.
  \<^item> \<open>Soft_Chip\<close>: a simulated chip that answers the packets of the driver byte by byte, with
    counters, slots and TempKey, and the digests it computes on its side of GenDig, Write
    and CheckMac, which are those of the host. The contracts below are shown to hold of it.
  \<^item> \<open>Retry_Bound\<close>: how many guesses reach the chip. A contract for the two counters
    of a chip whose zones are locked is stated as a locale; under it no sequence of methods gives attempts
    back, so at most five wrong PINs and ten wrong PUKs are compared.
  \<^item> \<open>Credential_Store\<close>: the PIN hash, the PUK hash and the I/O key in the slots. Under a
    contract for encrypted writes and CheckMac, the slots change only in methods that are
    authorised to change them, hold afterwards what the method was given, and the code that
    was set is the code that is accepted.
  \<^item> \<open>Rp2040_Hal\<close> (\<^verbatim>\<open>hal_rp2040.rs\<close>): the backend of the firmware over a parameter for the
    I2C controller and the timer. Whatever relation each bus operation stays within, every
    method stays within; so all transfers have the right speed and address and none is empty.
  \<^item> \<open>Request_Time\<close>: how often a request uses the bus and how long it waits, as charges that
    add up over the commands of each method.
  \<^item> \<open>Hid_Descriptor\<close> (\<^verbatim>\<open>hid_descriptor.rs\<close>): the report descriptor and the report sizes it
    declares.
  \<^item> \<open>Board\<close> (\<^verbatim>\<open>main.rs\<close>, \<^verbatim>\<open>usb.rs\<close>, \<^verbatim>\<open>touch.rs\<close>): the start-up of the firmware. The
    construction of the USB stack, over a parameter for the embassy crates; the tasks that are
    started and with what; the pins of the LEDs and of the button, with the loop of the touch task.
  \<^item> \<open>Config_Zone\<close> (\<^verbatim>\<open>blob.rs\<close>, \<^verbatim>\<open>counter_encoding.rs\<close>, \<^verbatim>\<open>crc.rs\<close> of
    \<^verbatim>\<open>config-generator\<close>): the image, its equality with the documented bytes, what it demands
    of each slot, the storage form of a counter.
  \<^item> \<open>Listing\<close> (\<^verbatim>\<open>annotate.rs\<close> and \<^verbatim>\<open>main.rs\<close> of \<^verbatim>\<open>config-generator\<close>): the annotated listing,
    from which the image can be read back, and the runs of the tool over a parameter for
    writing files.
  \<^item> \<open>Host_Client\<close> (\<^verbatim>\<open>device.rs\<close> and \<^verbatim>\<open>main.rs\<close> of \<^verbatim>\<open>hsm-host\<close>): the exchange of a report and
    the subcommands. The HID library, hexadecimal decoding and files are parameters.
  \<^item> \<open>Host_Link\<close>: host and device joined. A subcommand that sends one report is a remote call of one method of
    the service; a signature goes from the command line to the chip and back.
  \<^item> \<open>Host_Workflow\<close>: the subcommands that send several reports, against specifications that
    call the methods of the service in sequence.
  \<^item> \<open>Usb_Credentials\<close>: the contracts of the chip carried through the dispatch loop and the host
    tool. Guesses over USB are limited, reports change a credential only with authority, codes
    set at the command line are the codes that work, and the file of the secrets holds what is
    in the chip.
  \<^item> \<open>Host_Main\<close> (\<^verbatim>\<open>main.rs\<close>, \<^verbatim>\<open>device.rs\<close>): the dispatch of the subcommands, the list of devices
    and the names of errors. The tool sends only the reports of the subcommand it was given,
    and a lock or a reset only after the phrase that confirms it.

  \<^bold>\<open>Interfaces.\<close> \<open>byte_codec\<close> is interpreted for the sub-codes and status bytes of
  the driver and for the opcodes and statuses of the USB protocol; \<open>sized_reply\<close> for the
  eight commands that return arrays; \<open>step_invariant\<close> for the service, the device and
  the task system; \<open>hid_link\<close>, what the host needs of the way to the device, for a cable to
  the dispatch loop of the firmware; \<open>bus_relation\<close> and its extension to the service for the
  RP2040 backend; \<open>bus_cost\<close> and its extension \<open>service_cost\<close> for the waits and for the
  transfers of that backend; \<open>led\<close>, the trait of the LED task, for the pins of the RP2040;
  \<open>readable_section\<close> for the seven sections of the listing. The contracts of the chip are
  \<open>limited_use\<close> with \<open>retry_service\<close>, for the counters, and \<open>credential_store\<close> with
  \<open>credential_service\<close>, for the slots. Both give a \<open>chip_observer\<close> as a sublocale, are
  hypotheses of the theorems that rest on them, and are interpreted on the simulated chip.

  \<^bold>\<open>Bounds.\<close> No definition uses fuel. Time in the task model is a natural number of
  milliseconds; the other integers have the width of the source. The event queue has the
  16 entries of the source. The polling loop ends by its own count of the elapsed time; the
  endless loops of the tasks are functions of a turn, repeated along a list of inputs or in a
  step relation.

  \<^bold>\<open>Not modelled.\<close> The embassy crates themselves, that is the running USB stack and the
  executor: their calls are parameters, and any order of the tasks is allowed. The parsing of
  arguments and the layout of the output of the host tool (the crate clap and the formatting
  macros). The build script and the crate roots, which hold no logic. The behaviour of the chip
  itself is whatever the HAL delivers, and where a theorem relies on it, its hypotheses say so.
  What the locks of the chip protect is not part of the contracts: the theorems about slots hold
  for a chip before and after locking. The contract of the counters is that of a locked chip only, since
  before the lock the initial values of the counters can be written with the configuration zone.
\<close>

end
